(* ===== verification/Prelude.thy ===== *)
theory Prelude
  imports Main "HOL-Library.Word" "HOL-Library.Sublist" "HOL-Library.Multiset"
begin

text \<open>
  Shared ground of the development: Go strings as byte lists and the functions of Go's packages
  \<^verbatim>\<open>strings\<close>, \<^verbatim>\<open>strconv\<close> and \<^verbatim>\<open>encoding/hex\<close> the program calls, results with an
  error branch, saturating time differences, the record of external library functions that
  are parameters of the model, and the generic lemmas and theorem collections the components
  share.
\<close>

section \<open>Types shared by the components\<close>

text \<open>
  A Go string is a sequence of bytes; \<open>char\<close> is an 8-bit byte, so \<open>length\<close> is Go's
  \<^verbatim>\<open>len\<close>. An instant (\<^verbatim>\<open>time.Time\<close>) is its number of nanoseconds since the Unix epoch, a
  \<^verbatim>\<open>time.Duration\<close> a number of nanoseconds in the int64 range. A \<^verbatim>\<open>float64\<close> is its 64-bit
  pattern: the program only parses, copies and stores such values. An error is its message.
\<close>

type_synonym err = string
type_synonym 'a result = "err + 'a"
type_synonym instant = int
type_synonym duration = int
type_synonym float64 = "64 word"

text \<open>The environment variables: \<^verbatim>\<open>os.Getenv\<close> gives the empty string for an unset one.\<close>

type_synonym environ = "string \<Rightarrow> string"

named_theorems go_simps \<open>defining equations of the library functions\<close>
named_theorems inv_intros \<open>preservation of the component invariants\<close>

section \<open>External library functions\<close>

text \<open>
  The parts of Go's standard library that rest on large tables or codecs, and the third-party
  bcrypt package, are parameters: a value of this record is an argument of every definition
  that calls one of them. \<open>unicode_ToLower\<close> is what \<^verbatim>\<open>strings.ToLower\<close> does on a string with
  a byte outside ASCII; \<open>sha256_Sum256\<close> gives the 32 digest bytes; \<open>strconv_ParseFloat\<close>
  and \<open>url_ParseRequestURI\<close> (its \<^verbatim>\<open>Path\<close>) are \<open>None\<close> on error; \<open>strconv_Quote\<close> is the verb \<^verbatim>\<open>%q\<close>, \<open>float_to_int\<close> and
  \<open>float_unix\<close> are what the platform makes of a float that is out of range. Of PostgreSQL, \<open>pg_real\<close> is the
  value a REAL column keeps of a double (\<open>None\<close>: out of range), \<open>pg_time\<close> the value a
  TIMESTAMPTZ keeps of an instant (rounded to microseconds), \<open>pg_interval\<close> the length of the
  interval it reads from a duration printed by \<^verbatim>\<open>%f seconds\<close>, \<open>pg_text_ok\<close> says which
  byte strings a TEXT column accepts (no zero byte, valid in the server encoding), \<open>pg_ilike\<close> whether a
  text matches an \<^verbatim>\<open>ILIKE\<close> pattern, and \<open>pg_parse_time\<close> is the instant a text stands for when it is compared
  with a TIMESTAMPTZ.
\<close>

record lib =
  unicode_ToLower :: "string \<Rightarrow> string"
  sha256_Sum256 :: "string \<Rightarrow> string"
  strconv_ParseFloat :: "string \<Rightarrow> float64 option"
  strconv_Quote :: "string \<Rightarrow> string"
  fmt_Sprint_float :: "float64 \<Rightarrow> string"
  float_to_int :: "float64 \<Rightarrow> int"
  float_unix :: "float64 \<Rightarrow> instant"
  url_ParseRequestURI :: "string \<Rightarrow> string option"
  mail_ParseAddress :: "string \<Rightarrow> bool"
  bcrypt_Generate :: "string \<Rightarrow> string result"
  bcrypt_Compare :: "string \<Rightarrow> string \<Rightarrow> bool"
  pg_real :: "float64 \<Rightarrow> float64 option"
  pg_time :: "instant \<Rightarrow> instant"
  pg_interval :: "duration \<Rightarrow> duration"
  pg_text_ok :: "string \<Rightarrow> bool"
  pg_ilike :: "string \<Rightarrow> string \<Rightarrow> bool"
  pg_parse_time :: "string \<Rightarrow> instant option"

section \<open>Package strings\<close>

definition HasPrefix :: "string \<Rightarrow> string \<Rightarrow> bool" where
  "HasPrefix s p \<longleftrightarrow> prefix p s"

definition HasSuffix :: "string \<Rightarrow> string \<Rightarrow> bool" where
  "HasSuffix s p \<longleftrightarrow> suffix p s"

definition TrimSuffix :: "string \<Rightarrow> string \<Rightarrow> string" where
  "TrimSuffix s p = (if HasSuffix s p then take (length s - length p) s else s)"

definition TrimPrefix :: "string \<Rightarrow> string \<Rightarrow> string" where
  "TrimPrefix s p = (if HasPrefix s p then drop (length p) s else s)"

fun Contains :: "string \<Rightarrow> string \<Rightarrow> bool" where
  "Contains [] p = (p = [])"
| "Contains (c # s) p = (prefix p (c # s) \<or> Contains s p)"

text \<open>
  \<^verbatim>\<open>unicode.IsSpace\<close> holds of tab to carriage return, space, U+0085, U+00A0, U+1680,
  U+2000 to U+200A, U+2028, U+2029, U+202F, U+205F and U+3000. The list gives their UTF-8
  encodings; no encoding is a proper prefix or suffix of another, so cutting a listed
  encoding off either end is what trimming rune by rune does.
\<close>

definition ascii_space :: "char \<Rightarrow> bool" where
  "ascii_space c \<longleftrightarrow> c = CHR '' '' \<or> c = CHR 0x09 \<or> c = CHR 0x0A \<or> c = CHR 0x0B \<or> c = CHR 0x0C \<or> c = CHR 0x0D"

definition wide_spaces :: "string list" where
  "wide_spaces =
    [[CHR 0xC2, CHR 0x85], [CHR 0xC2, CHR 0xA0], [CHR 0xE1, CHR 0x9A, CHR 0x80],
     [CHR 0xE2, CHR 0x80, CHR 0x80], [CHR 0xE2, CHR 0x80, CHR 0x81], [CHR 0xE2, CHR 0x80, CHR 0x82],
     [CHR 0xE2, CHR 0x80, CHR 0x83], [CHR 0xE2, CHR 0x80, CHR 0x84], [CHR 0xE2, CHR 0x80, CHR 0x85],
     [CHR 0xE2, CHR 0x80, CHR 0x86], [CHR 0xE2, CHR 0x80, CHR 0x87], [CHR 0xE2, CHR 0x80, CHR 0x88],
     [CHR 0xE2, CHR 0x80, CHR 0x89], [CHR 0xE2, CHR 0x80, CHR 0x8A], [CHR 0xE2, CHR 0x80, CHR 0xA8],
     [CHR 0xE2, CHR 0x80, CHR 0xA9], [CHR 0xE2, CHR 0x80, CHR 0xAF], [CHR 0xE2, CHR 0x81, CHR 0x9F],
     [CHR 0xE3, CHR 0x80, CHR 0x80]]"

function trim_front :: "string list \<Rightarrow> string \<Rightarrow> string" where
  "trim_front ws [] = []"
| "trim_front ws (c # s) =
    (if ascii_space c then trim_front ws s
     else case find (\<lambda>w. w \<noteq> [] \<and> prefix w (c # s)) ws of
            None \<Rightarrow> c # s
          | Some w \<Rightarrow> trim_front ws (drop (length w) (c # s)))"
  by pat_completeness auto
termination
  by (relation "measure (\<lambda>(ws, s). length s)") (auto simp: find_Some_iff)

definition TrimSpace :: "string \<Rightarrow> string" where
  "TrimSpace s = rev (trim_front (map rev wide_spaces) (rev (trim_front wide_spaces s)))"

text \<open>\<^verbatim>\<open>strings.Trim\<close> with a cutset of ASCII characters.\<close>

definition Trim :: "string \<Rightarrow> string \<Rightarrow> string" where
  "Trim s cutset = rev (dropWhile (\<lambda>c. c \<in> set cutset) (rev (dropWhile (\<lambda>c. c \<in> set cutset) s)))"

text \<open>\<^verbatim>\<open>strings.Split\<close> with a one-byte separator: never empty, and \<^verbatim>\<open>Split("", ",")\<close> is one empty part.\<close>

fun Split :: "string \<Rightarrow> char \<Rightarrow> string list" where
  "Split [] sep = [[]]"
| "Split (c # s) sep =
    (if c = sep then [] # Split s sep
     else case Split s sep of [] \<Rightarrow> [[c]] | p # ps \<Rightarrow> (c # p) # ps)"

fun Join :: "string list \<Rightarrow> string \<Rightarrow> string" where
  "Join [] sep = []"
| "Join [p] sep = p"
| "Join (p # q # ps) sep = p @ sep @ Join (q # ps) sep"

definition is_ascii :: "char \<Rightarrow> bool" where
  "is_ascii c \<longleftrightarrow> of_char c < (128 :: nat)"

definition ascii_lower :: "char \<Rightarrow> char" where
  "ascii_lower c = (let n = of_char c :: nat in if 65 \<le> n \<and> n \<le> 90 then char_of (n + 32) else c)"

lemmas char_eval = is_ascii_def ascii_lower_def char_of_def bit_simps Let_def

definition ToLower :: "lib \<Rightarrow> string \<Rightarrow> string" where
  "ToLower L s = (if list_all is_ascii s then map ascii_lower s else unicode_ToLower L s)"

text \<open>
  \<^verbatim>\<open>strings.EqualFold\<close> against an ASCII literal. Under Unicode simple folding the only code
  points outside ASCII that equal an ASCII letter are U+017F (s) and U+212A (k).
\<close>

fun fold_ascii :: "string \<Rightarrow> string" where
  "fold_ascii [] = []"
| "fold_ascii (c # s) =
    (if prefix [CHR 0xC5, CHR 0xBF] (c # s) then CHR ''s'' # fold_ascii (drop 1 s)
     else if prefix [CHR 0xE2, CHR 0x84, CHR 0xAA] (c # s) then CHR ''k'' # fold_ascii (drop 2 s)
     else ascii_lower c # fold_ascii s)"

definition EqualFold :: "string \<Rightarrow> string \<Rightarrow> bool" where
  "EqualFold s t \<longleftrightarrow> fold_ascii s = map ascii_lower t"

section \<open>Packages strconv and encoding/hex\<close>

definition digit_val :: "char \<Rightarrow> int option" where
  "digit_val c = (let n = of_char c :: nat in if 48 \<le> n \<and> n \<le> 57 then Some (int n - 48) else None)"

fun digits_acc :: "int \<Rightarrow> string \<Rightarrow> int option" where
  "digits_acc acc [] = Some acc"
| "digits_acc acc (c # s) =
    (case digit_val c of None \<Rightarrow> None | Some d \<Rightarrow> digits_acc (10 * acc + d) s)"

text \<open>\<^verbatim>\<open>strconv.ParseInt(s, 10, 64)\<close> and \<^verbatim>\<open>strconv.Atoi\<close> on a 64-bit platform; \<open>None\<close> is an error.\<close>

definition int64_min :: int where "int64_min = - (2 ^ 63)"
definition int64_max :: int where "int64_max = 2 ^ 63 - 1"

definition Atoi :: "string \<Rightarrow> int option" where
  "Atoi s =
    (let (neg, ds) = (case s of [] \<Rightarrow> (False, [])
                      | c # t \<Rightarrow> if c = CHR ''-'' then (True, t)
                                else if c = CHR ''+'' then (False, t) else (False, s))
     in if ds = [] then None
        else case digits_acc 0 ds of None \<Rightarrow> None
             | Some n \<Rightarrow> let v = (if neg then - n else n)
                        in if int64_min \<le> v \<and> v \<le> int64_max then Some v else None)"

fun nat_digits :: "nat \<Rightarrow> string" where
  "nat_digits n = (if n < 10 then [char_of (48 + n)] else nat_digits (n div 10) @ [char_of (48 + n mod 10)])"

declare nat_digits.simps [simp del]

text \<open>\<^verbatim>\<open>strconv.Itoa\<close>, \<^verbatim>\<open>strconv.FormatInt(n, 10)\<close> and the verb \<^verbatim>\<open>%d\<close>.\<close>

definition FormatInt :: "int \<Rightarrow> string" where
  "FormatInt n = (if n < 0 then CHR ''-'' # nat_digits (nat (- n)) else nat_digits (nat n))"

definition hex_digit :: "nat \<Rightarrow> char" where
  "hex_digit n = (if n < 10 then char_of (48 + n) else char_of (87 + n))"

definition EncodeToString :: "string \<Rightarrow> string" where
  "EncodeToString bs = concat (map (\<lambda>b. [hex_digit (of_char b div 16), hex_digit (of_char b mod 16)]) bs)"

section \<open>Package time: differences of instants\<close>

text \<open>\<^verbatim>\<open>Time.Sub\<close> saturates at the ends of the int64 range.\<close>

definition time_Sub :: "instant \<Rightarrow> instant \<Rightarrow> duration" where
  "time_Sub t u = max int64_min (min int64_max (t - u))"

definition Second :: duration where "Second = 1000000000"
definition Minute :: duration where "Minute = 60 * Second"
definition Hour :: duration where "Hour = 60 * Minute"

text \<open>Multiplication of durations wraps around in 64 bits.\<close>

definition wrap64 :: "int \<Rightarrow> int" where
  "wrap64 n = (n + 2 ^ 63) mod 2 ^ 64 - 2 ^ 63"

lemmas duration_defs = Second_def Minute_def Hour_def
lemmas int64_defs = int64_min_def int64_max_def

section \<open>Sequencing computations that may fail\<close>

fun fold_result :: "('x \<Rightarrow> 's \<Rightarrow> 's result) \<Rightarrow> 'x list \<Rightarrow> 's \<Rightarrow> 's result" where
  "fold_result f [] s = Inr s"
| "fold_result f (x # xs) s = (case f x s of Inl e \<Rightarrow> Inl e | Inr s' \<Rightarrow> fold_result f xs s')"

lemma fold_result_append:
  "fold_result f (xs @ ys) s =
    (case fold_result f xs s of Inl e \<Rightarrow> Inl e | Inr s' \<Rightarrow> fold_result f ys s')"
  by (induction xs arbitrary: s) (auto split: sum.splits)

lemma fold_result_snoc:
  "fold_result f (xs @ [x]) s = Inr s' \<Longrightarrow> \<exists>t. fold_result f xs s = Inr t \<and> f x t = Inr s'"
  by (auto simp: fold_result_append split: sum.splits)

lemma fold_result_invariant:
  assumes "\<And>x s s'. x \<in> set xs \<Longrightarrow> P s \<Longrightarrow> f x s = Inr s' \<Longrightarrow> P s'"
    and "P s" and "fold_result f xs s = Inr s'"
  shows "P s'"
  using assms
proof (induction xs arbitrary: s)
  case Nil
  then show ?case by simp
next
  case (Cons x xs)
  from Cons.prems(3) obtain t where t: "f x s = Inr t" "fold_result f xs t = Inr s'"
    by (auto split: sum.splits)
  have "P t" using Cons.prems(1)[OF _ Cons.prems(2) t(1)] by simp
  then show ?case using Cons.IH[OF _ _ t(2)] Cons.prems(1) by auto
qed

section \<open>Lemmas on the library functions\<close>

lemma trim_front_suffix: "suffix (trim_front ws s) s"
proof (induction ws s rule: trim_front.induct)
  case (1 ws)
  then show ?case by simp
next
  case (2 ws c s)
  show ?case
  proof (cases "ascii_space c")
    case True
    then show ?thesis using 2(1) by (simp add: suffix_Cons)
  next
    case False
    show ?thesis
    proof (cases "find (\<lambda>w. w \<noteq> [] \<and> prefix w (c # s)) ws")
      case None
      then show ?thesis using False by simp
    next
      case (Some w)
      then have "suffix (trim_front ws (drop (length w) (c # s))) (drop (length w) (c # s))"
        using 2(2)[OF False Some] by simp
      moreover have "suffix (drop (length w) (c # s)) (c # s)"
        by (rule suffix_drop)
      ultimately show ?thesis using False Some by (auto intro: suffix_order.trans)
    qed
  qed
qed

text \<open>Trimming twice changes nothing more.\<close>

definition trimmed :: "string list \<Rightarrow> string \<Rightarrow> bool" where
  "trimmed ws s \<longleftrightarrow> s = [] \<or> (\<not> ascii_space (hd s) \<and> (\<forall>w \<in> set ws. w \<noteq> [] \<longrightarrow> \<not> prefix w s))"

lemma trimmed_fixed: "trimmed ws s \<Longrightarrow> trim_front ws s = s"
proof (cases s)
  case (Cons c t)
  assume "trimmed ws s"
  then have "\<not> ascii_space c" "find (\<lambda>w. w \<noteq> [] \<and> prefix w (c # t)) ws = None"
    using Cons by (auto simp: trimmed_def find_None_iff)
  then show ?thesis using Cons by simp
qed simp

lemma trimmed_trim_front: "trimmed ws (trim_front ws s)"
proof (induction ws s rule: trim_front.induct)
  case (2 ws c s)
  show ?case
  proof (cases "find (\<lambda>w. w \<noteq> [] \<and> prefix w (c # s)) ws")
    case None
    have "\<forall>w \<in> set ws. w \<noteq> [] \<longrightarrow> \<not> prefix w (c # s)" using None by (auto simp: find_None_iff)
    then show ?thesis using 2(1) None by (cases "ascii_space c") (simp_all add: trimmed_def)
  next
    case (Some w)
    then show ?thesis using 2 by simp
  qed
qed (simp add: trimmed_def)

lemma trimmed_prefix: "trimmed ws s \<Longrightarrow> prefix t s \<Longrightarrow> trimmed ws t"
proof -
  assume a: "trimmed ws s" "prefix t s"
  have "\<not> prefix w t" if "\<not> prefix w s" for w using a(2) that prefix_order.trans by blast
  moreover have "t = [] \<or> (s \<noteq> [] \<and> hd t = hd s)" using a(2) by (cases t; cases s) auto
  ultimately show ?thesis using a(1) unfolding trimmed_def by metis
qed

lemma set_trim_front: "set (trim_front ws s) \<subseteq> set s"
  using trim_front_suffix by (rule set_mono_suffix)

lemma set_TrimSpace: "set (TrimSpace s) \<subseteq> set s"
  unfolding TrimSpace_def using set_trim_front[of "map rev wide_spaces" "rev (trim_front wide_spaces s)"]
    set_trim_front[of wide_spaces s] by auto

lemma TrimSpace_Nil [simp]: "TrimSpace [] = []"
  by (simp add: TrimSpace_def)

lemma TrimSpace_idem [simp]: "TrimSpace (TrimSpace s) = TrimSpace s"
proof -
  let ?W = "wide_spaces" and ?V = "map rev wide_spaces"
  define u v where "u = trim_front ?W s" and "v = trim_front ?V (rev u)"
  have "prefix (rev v) u" unfolding v_def using trim_front_suffix[of ?V "rev u"] by (simp add: suffix_to_prefix)
  then have "trimmed ?W (rev v)" using trimmed_trim_front[of ?W s] trimmed_prefix unfolding u_def by blast
  moreover have "trimmed ?V v" unfolding v_def by (rule trimmed_trim_front)
  ultimately show ?thesis by (simp add: TrimSpace_def u_def[symmetric] v_def[symmetric] trimmed_fixed)
qed

lemma Split_not_Nil [simp]: "Split s sep \<noteq> []"
  by (cases s) (auto split: list.splits)

lemma Join_Split: "Join (Split s sep) [sep] = s"
proof (induction s)
  case Nil
  then show ?case by simp
next
  case (Cons c s)
  show ?case
  proof (cases "Split s sep")
    case Nil
    then show ?thesis using Split_not_Nil by blast
  next
    case (Cons p ps)
    then show ?thesis using Cons.IH by (cases ps) auto
  qed
qed

lemma Split_no_sep: "p \<in> set (Split s sep) \<Longrightarrow> sep \<notin> set p"
  by (induction s arbitrary: p) (auto split: list.splits if_splits)

lemma Atoi_bounds: "Atoi s = Some v \<Longrightarrow> int64_min \<le> v \<and> v \<le> int64_max"
  by (auto simp: Atoi_def Let_def split: list.splits option.splits if_splits prod.splits)

lemma wrap64_id: "int64_min \<le> n \<Longrightarrow> n \<le> int64_max \<Longrightarrow> wrap64 n = n"
  by (simp add: wrap64_def int64_min_def int64_max_def)

lemma time_Sub_exact:
  "int64_min \<le> t - u \<Longrightarrow> t - u \<le> int64_max \<Longrightarrow> time_Sub t u = t - u"
  by (simp add: time_Sub_def)

lemma mset_chain: "a + b = c \<Longrightarrow> x + y = b + z \<Longrightarrow> a + x + y = c + (z :: 'a multiset)"
  by (metis add.assoc)

text \<open>Trimming leaves a string that starts and ends with a visible ASCII character.\<close>

definition plain :: "char \<Rightarrow> bool" where
  "plain c \<longleftrightarrow> is_ascii c \<and> \<not> ascii_space c"

lemma trim_front_plain:
  assumes "plain c" and "list_all (\<lambda>w. w \<noteq> [] \<longrightarrow> \<not> is_ascii (hd w)) ws"
  shows "trim_front ws (c # s) = c # s"
proof -
  have "find (\<lambda>w. w \<noteq> [] \<and> prefix w (c # s)) ws = None"
    using assms by (auto simp: find_None_iff plain_def list_all_iff prefix_Cons)
  then show ?thesis using assms by (simp add: plain_def)
qed

lemma TrimSpace_plain:
  assumes "s = [] \<or> (plain (hd s) \<and> plain (last s))"
  shows "TrimSpace s = s"
proof (cases s rule: rev_cases)
  case (snoc t c)
  have w: "list_all (\<lambda>w. w \<noteq> [] \<longrightarrow> \<not> is_ascii (hd w)) wide_spaces"
    "list_all (\<lambda>w. w \<noteq> [] \<longrightarrow> \<not> is_ascii (hd w)) (map rev wide_spaces)"
    by (simp_all add: wide_spaces_def is_ascii_def)
  have "trim_front wide_spaces s = s"
    using trim_front_plain[OF _ w(1), of "hd s" "tl s"] assms snoc by auto
  then show ?thesis using trim_front_plain[OF _ w(2), of c "rev t"] assms snoc by (simp add: TrimSpace_def)
qed simp

lemmas plain_eval = TrimSpace_plain plain_def is_ascii_def ascii_space_def

section \<open>Decimal digits and separators\<close>

lemma Split_Cons_no_sep: "sep \<notin> set p \<Longrightarrow> Split (p @ sep # s) sep = p # Split s sep"
  by (induction p) auto

lemma set_Join: "c \<in> set (Join ps sep) \<Longrightarrow> c \<in> set sep \<or> (\<exists>p \<in> set ps. c \<in> set p)"
  by (induction ps sep rule: Join.induct) auto

lemma Split_single: "sep \<notin> set p \<Longrightarrow> Split p sep = [p]"
  by (induction p) auto

lemma Split_Join: "ps \<noteq> [] \<Longrightarrow> (\<And>p. p \<in> set ps \<Longrightarrow> sep \<notin> set p) \<Longrightarrow> Split (Join ps [sep]) sep = ps"
proof (induction ps rule: list_nonempty_induct)
  case (single p)
  then show ?case by (simp add: Split_single)
next
  case (cons p ps)
  then obtain q qs where "ps = q # qs" by (cases ps) auto
  with cons show ?case using Split_Cons_no_sep[of sep p "Join ps [sep]"] by simp
qed

lemma of_char_digit [simp]: "n < 10 \<Longrightarrow> of_char (char_of (48 + n) :: char) = (48 + n :: nat)"
  by simp

lemma digit_val_digit [simp]: "n < 10 \<Longrightarrow> digit_val (char_of (48 + n)) = Some (int n)"
  by (simp add: digit_val_def Let_def)

lemma digits_acc_append:
  "digits_acc acc (s @ t) = (case digits_acc acc s of None \<Rightarrow> None | Some a \<Rightarrow> digits_acc a t)"
  by (induction s arbitrary: acc) (auto split: option.splits)

lemma nat_digits_not_Nil [simp]: "nat_digits n \<noteq> []"
  by (subst nat_digits.simps) simp

lemma digits_acc_nat_digits: "digits_acc 0 (nat_digits n) = Some (int n)"
proof (induction n rule: nat_digits.induct)
  case (1 n)
  show ?case
    by (subst nat_digits.simps) (use 1 in \<open>auto simp: digits_acc_append zdiv_int zmod_int\<close>)
qed

lemma hd_nat_digits: "n < 10 \<or> hd (nat_digits n) \<noteq> CHR ''0''"
proof (induction n rule: nat_digits.induct)
  case (1 n)
  show ?case
  proof (cases "n < 10")
    case False
    have z: "hd (nat_digits m) \<noteq> CHR ''0''" if "0 < m" "m < 10" for m
    proof -
      have "of_char (char_of (48 + m) :: char) \<noteq> (48 :: nat)" using that by simp
      then have "char_of (48 + m) \<noteq> CHR ''0''" by fastforce
      then show ?thesis using that by (subst nat_digits.simps) simp
    qed
    have "hd (nat_digits (n div 10)) \<noteq> CHR ''0''"
      using 1 False z[of "n div 10"] by (cases "n div 10 < 10") auto
    then show ?thesis using False by (subst nat_digits.simps) simp
  qed simp
qed

lemma nat_digits_small: "n < 10 \<Longrightarrow> nat_digits n = [char_of (48 + n)]"
  by (subst nat_digits.simps) simp

lemma set_nat_digits: "c \<in> set (nat_digits n) \<Longrightarrow> digit_val c \<noteq> None"
proof (induction n rule: nat_digits.induct)
  case (1 n)
  show ?case
    using 1 by (subst (asm) (2) nat_digits.simps) (auto split: if_splits)
qed

lemma digit_plain: "digit_val c \<noteq> None \<Longrightarrow> c \<noteq> CHR ''-'' \<and> c \<noteq> CHR ''+''"
  by (auto simp: digit_val_def Let_def)

lemma Atoi_digits:
  assumes "ds \<noteq> []" and "digit_val (hd ds) \<noteq> None" and "digits_acc 0 ds = Some n" and "n \<le> int64_max" and "int64_min \<le> n"
  shows "Atoi ds = Some n"
  using assms digit_plain[of "hd ds"] by (cases ds) (auto simp: Atoi_def Let_def)

lemma hd_nat_digits_digit: "digit_val (hd (nat_digits n)) \<noteq> None"
  by (rule set_nat_digits[of _ n]) simp

lemma Atoi_FormatInt:
  assumes "int64_min \<le> n" and "n \<le> int64_max"
  shows "Atoi (FormatInt n) = Some n"
proof (cases "n < 0")
  case True
  then show ?thesis using assms digits_acc_nat_digits[of "nat (- n)"] by (simp add: FormatInt_def Atoi_def)
next
  case False
  then have "digits_acc 0 (FormatInt n) = Some n" using digits_acc_nat_digits[of "nat n"] by (simp add: FormatInt_def)
  moreover have "digit_val (hd (FormatInt n)) \<noteq> None" using False hd_nat_digits_digit by (simp add: FormatInt_def)
  ultimately show ?thesis using False assms by (intro Atoi_digits) (auto simp: FormatInt_def)
qed

section \<open>A concrete library for examples\<close>

text \<open>
  The examples at concrete inputs instantiate the external functions: lower-casing, floats and
  URIs that leave their argument alone, a digest and password hashes that are the identity.
\<close>

definition example_lib :: lib where
  "example_lib = \<lparr>unicode_ToLower = (\<lambda>s. s), sha256_Sum256 = (\<lambda>s. s), strconv_ParseFloat = (\<lambda>s. None),
    strconv_Quote = (\<lambda>s. [CHR 0x22] @ s @ [CHR 0x22]), fmt_Sprint_float = (\<lambda>f. []), float_to_int = (\<lambda>f. sint f), float_unix = (\<lambda>f. 0), url_ParseRequestURI = (\<lambda>s. Some s),
    mail_ParseAddress = (\<lambda>s. CHR 0x40 \<in> set s), bcrypt_Generate = (\<lambda>p. Inr p),
    bcrypt_Compare = (\<lambda>h p. h = p), pg_real = Some, pg_time = (\<lambda>t. t div 1000 * 1000),
    pg_interval = (\<lambda>w. w div 1000 * 1000), pg_text_ok = (\<lambda>s. CHR 0x00 \<notin> set s),
    pg_ilike = (\<lambda>s p. Contains (map ascii_lower s) (Trim (map ascii_lower p) [CHR 0x25])), pg_parse_time = (\<lambda>s. None)\<rparr>"

end
