(* ===== verification/Parser.thy ===== *)
theory Parser
  imports Prelude
begin

text \<open>
  The mail log parser (\<^verbatim>\<open>src/parser.go\<close>): the entry it produces.
\<close>

record LogEntry =
  le_TSUTC :: instant
  le_Host :: string
  le_Process :: string
  le_QueueID :: string
  le_MailFrom :: string
  le_MailTo :: string
  le_Status :: string
  le_Relay :: string
  le_Delay :: "float64 option"
  le_Delays :: string
  le_DSN :: string
  le_MessageID :: string
  le_SizeBytes :: "int option"
  le_QueuedAs :: string
  le_MailID :: string
  le_Subject :: string
  le_Hits :: "float64 option"
  le_Helo :: string
  le_AmavisOrigin :: string
  le_IsJunk :: bool
  le_SpamScore :: "float64 option"
  le_Raw :: string
  le_RawHash :: string

text \<open>The zero value of the struct.\<close>

definition LogEntry_zero :: LogEntry where
  "LogEntry_zero = \<lparr>le_TSUTC = 0, le_Host = [], le_Process = [], le_QueueID = [], le_MailFrom = [],
    le_MailTo = [], le_Status = [], le_Relay = [], le_Delay = None, le_Delays = [], le_DSN = [],
    le_MessageID = [], le_SizeBytes = None, le_QueuedAs = [], le_MailID = [], le_Subject = [],
    le_Hits = None, le_Helo = [], le_AmavisOrigin = [], le_IsJunk = False, le_SpamScore = None,
    le_Raw = [], le_RawHash = []\<rparr>"

end
