(* ===== verification/Schema.thy ===== *)
theory Schema
  imports Parser
begin

text \<open>
  The PostgreSQL tables of \<^verbatim>\<open>src/db.go\<close> (\<^verbatim>\<open>EnsureSchema\<close>) as lists of rows, and the SQL
  idioms the program uses on them: selection by primary key, \<^verbatim>\<open>UPDATE ... WHERE\<close>, and
  \<^verbatim>\<open>INSERT ... ON CONFLICT(key) DO UPDATE\<close>. A BIGSERIAL column is an id field and a sequence
  counter. The database server is an external service: every statement the program sends may
  fail, which is decided by a fault oracle (a statement name to an error), an argument of
  every definition that talks to the database.
\<close>

section \<open>Statements and faults\<close>

datatype stmt = Begin | Commit | InsertRaw | LockQueue | UpdateTransaction | InsertTransaction
  | EvictTransactions | SaveCheckpoint | LoadCheckpoint
  | InsertNginxEvent | UpsertStreak | ResetStreak | CountAuthFailures | FlagOffender
  | CountAdmins | InsertUser | DeleteExpiredSessions | SelectUser | InsertSession | DeleteSession
  | SelectSession | SelectUsers | CountLogs | SelectLogs
  | ExpireBlocks | SelectOffenders | CountFlagged | CountBlocked | CountAttempts
  | UpsertBlock | ReleaseBlock | InsertAudit | DismissOffender

type_synonym faults = "stmt \<Rightarrow> err option"

definition no_faults :: faults where
  "no_faults st = None"

section \<open>Rows\<close>

record maillog_row = LogEntry +
  ml_id :: int

record tx_row =
  tr_id :: int
  tr_arrival_ts_utc :: instant
  tr_last_ts_utc :: instant
  tr_queue_id :: string
  tr_host :: string
  tr_process :: string
  tr_mail_from :: string
  tr_mail_to :: string
  tr_status :: string
  tr_relay :: string
  tr_delay :: "float64 option"
  tr_delays :: string
  tr_dsn :: string
  tr_message_id :: string
  tr_size_bytes :: "int option"
  tr_queued_as :: string
  tr_mail_id :: string
  tr_subject :: string
  tr_hits :: "float64 option"
  tr_helo :: string
  tr_amavis_origin :: string
  tr_is_junk :: bool
  tr_spam_score :: "float64 option"
  tr_raw :: string
  tr_terminal :: bool
  tr_timed_out :: bool
  tr_updated_at :: instant

record ingest_row =
  ir_key :: string
  ir_offset_bytes :: int
  ir_inode :: int
  ir_updated_at :: instant

record nginx_event_row =
  nr_id :: int
  nr_ts_utc :: instant
  nr_remote_ip :: string
  nr_method :: string
  nr_path :: string
  nr_status :: int
  nr_user_agent :: string
  nr_raw :: string
  nr_raw_hash :: string

record detection_row =
  dr_remote_ip :: string
  dr_consecutive_404 :: int
  dr_streak_started_at :: "instant option"
  dr_last_seen_at :: instant
  dr_last_status :: int

record offender_row =
  or_remote_ip :: string
  or_reason :: string
  or_first_seen_at :: instant
  or_last_seen_at :: instant
  or_attempt_count :: int
  or_last_path :: string
  or_flagged :: bool
  or_dismissed_at :: "instant option"
  or_updated_at :: instant

record block_row =
  br_remote_ip :: string
  br_active :: bool
  br_blocked_at :: "instant option"
  br_expires_at :: "instant option"
  br_blocked_by :: "int option"
  br_last_error :: string
  br_updated_at :: instant

record audit_row =
  ar_id :: int
  ar_ts_utc :: instant
  ar_actor_user_id :: "int option"
  ar_action :: string
  ar_remote_ip :: string
  ar_detail :: string
  ar_success :: bool

record user_row =
  ur_id :: int
  ur_email :: string
  ur_password_hash :: string
  ur_role :: string
  ur_created_at :: instant

record session_row =
  sr_token_hash :: string
  sr_user_id :: int
  sr_expires_at :: instant
  sr_created_at :: instant

section \<open>The database\<close>

record db =
  maillog_entries :: "maillog_row list"
  maillog_entries_seq :: int
  mail_transactions :: "tx_row list"
  mail_transactions_seq :: int
  ingest_state_tbl :: "ingest_row list"
  nginx_security_events :: "nginx_event_row list"
  nginx_security_events_seq :: int
  nginx_ip_detection_state :: "detection_row list"
  security_offenders :: "offender_row list"
  firewall_blocks :: "block_row list"
  security_audit_log :: "audit_row list"
  security_audit_log_seq :: int
  dashboard_users :: "user_row list"
  dashboard_users_seq :: int
  dashboard_sessions :: "session_row list"

definition empty_db :: db where
  "empty_db = \<lparr>maillog_entries = [], maillog_entries_seq = 1, mail_transactions = [],
    mail_transactions_seq = 1, ingest_state_tbl = [], nginx_security_events = [],
    nginx_security_events_seq = 1, nginx_ip_detection_state = [], security_offenders = [],
    firewall_blocks = [], security_audit_log = [], security_audit_log_seq = 1, dashboard_users = [], dashboard_users_seq = 1,
    dashboard_sessions = []\<rparr>"

section \<open>SQL idioms on a table with a primary key\<close>

definition select_by :: "('r \<Rightarrow> 'k) \<Rightarrow> 'k \<Rightarrow> 'r list \<Rightarrow> 'r option" where
  "select_by key k tbl = find (\<lambda>r. key r = k) tbl"

definition update_where :: "('r \<Rightarrow> bool) \<Rightarrow> ('r \<Rightarrow> 'r) \<Rightarrow> 'r list \<Rightarrow> 'r list" where
  "update_where p f tbl = map (\<lambda>r. if p r then f r else r) tbl"

definition upsert :: "('r \<Rightarrow> 'k) \<Rightarrow> 'r \<Rightarrow> ('r \<Rightarrow> 'r) \<Rightarrow> 'r list \<Rightarrow> 'r list" where
  "upsert key new f tbl =
    (if \<exists>r \<in> set tbl. key r = key new then update_where (\<lambda>r. key r = key new) f tbl else tbl @ [new])"

definition pk_ok :: "('r \<Rightarrow> 'k) \<Rightarrow> 'r list \<Rightarrow> bool" where
  "pk_ok key tbl \<longleftrightarrow> distinct (map key tbl)"

lemma select_by_simps [simp]:
  "select_by key k [] = None"
  "select_by key k (r # tbl) = (if key r = k then Some r else select_by key k tbl)"
  by (simp_all add: select_by_def)

lemma select_by_key: "select_by key k tbl = Some r \<Longrightarrow> key r = k \<and> r \<in> set tbl"
  by (auto simp: select_by_def find_Some_iff)

lemma select_by_None: "select_by key k tbl = None \<longleftrightarrow> (\<forall>r \<in> set tbl. key r \<noteq> k)"
  by (induction tbl) auto

lemma select_by_unique: "pk_ok key tbl \<Longrightarrow> r \<in> set tbl \<Longrightarrow> select_by key (key r) tbl = Some r"
  by (induction tbl) (auto simp: pk_ok_def)

lemma select_by_append [simp]:
  "select_by key k (tbl @ tbl') = (case select_by key k tbl of None \<Rightarrow> select_by key k tbl' | Some r \<Rightarrow> Some r)"
  by (induction tbl) auto

lemma select_by_update_where:
  assumes "\<And>r. key (f r) = key r"
  shows "select_by key k (update_where p f tbl) =
    map_option (\<lambda>r. if p r then f r else r) (select_by key k tbl)"
  by (induction tbl) (auto simp: update_where_def assms)

lemma select_by_update_key:
  assumes "\<And>r. key (f r) = key r"
  shows "select_by key k (update_where (\<lambda>r. key r = k') f tbl) =
    (if k = k' then map_option f (select_by key k tbl) else select_by key k tbl)"
  by (cases "select_by key k tbl") (auto simp: select_by_update_where assms dest: select_by_key)

lemma map_key_update_where: "(\<And>r. key (f r) = key r) \<Longrightarrow> map key (update_where p f tbl) = map key tbl"
  by (induction tbl) (auto simp: update_where_def)

lemma pk_ok_update_where: "(\<And>r. key (f r) = key r) \<Longrightarrow> pk_ok key tbl \<Longrightarrow> pk_ok key (update_where p f tbl)"
  by (simp add: pk_ok_def map_key_update_where)

lemma pk_ok_upsert:
  assumes "\<And>r. key (f r) = key r" and "pk_ok key tbl"
  shows "pk_ok key (upsert key new f tbl)"
proof (cases "\<exists>r \<in> set tbl. key r = key new")
  case True
  then show ?thesis using assms by (simp add: upsert_def pk_ok_update_where)
next
  case False
  then have "key new \<notin> set (map key tbl)" by auto
  then show ?thesis using False assms(2) by (auto simp: upsert_def pk_ok_def)
qed

text \<open>An upsert stores the new row or updates the old one, and touches no other key.\<close>

lemma select_by_upsert:
  assumes "\<And>r. key (f r) = key r"
  shows "select_by key k (upsert key new f tbl) =
    (if k = key new then Some (case select_by key k tbl of None \<Rightarrow> new | Some r \<Rightarrow> f r)
     else select_by key k tbl)"
proof (cases "\<exists>r \<in> set tbl. key r = key new")
  case True
  then obtain r where r: "select_by key (key new) tbl = Some r"
    by (cases "select_by key (key new) tbl") (auto simp: select_by_None)
  have "map_option (\<lambda>r. if key r = key new then f r else r) (select_by key k tbl) =
      (if k = key new then map_option f (select_by key k tbl) else select_by key k tbl)"
    by (cases "select_by key k tbl") (auto dest: select_by_key)
  then show ?thesis using True r by (auto simp: upsert_def select_by_update_where assms)
next
  case False
  then have "select_by key (key new) tbl = None" by (simp add: select_by_None)
  then show ?thesis using False by (auto simp: upsert_def split: option.splits)
qed

end
