(* ===== verification/Timestamps.thy ===== *)
theory Timestamps
  imports Prelude "HOL-Library.Monad_Syntax"
begin

text \<open>
  Calendar dates and the parts of Go's package \<^verbatim>\<open>time\<close> the program uses: the layouts it parses
  with \<^verbatim>\<open>time.Parse\<close>, \<^verbatim>\<open>time.Date\<close> and \<^verbatim>\<open>Time.Year\<close> in a location, and \<^verbatim>\<open>Format\<close> with RFC 3339.
  The instants are nanoseconds since the Unix epoch. Then the year inference for syslog
  timestamps (\<^verbatim>\<open>src/parser.go\<close>).
\<close>

section \<open>The calendar\<close>

definition is_leap :: "int \<Rightarrow> bool" where
  "is_leap y \<longleftrightarrow> y mod 4 = 0 \<and> (y mod 100 \<noteq> 0 \<or> y mod 400 = 0)"

definition days_in :: "int \<Rightarrow> int \<Rightarrow> int" where
  "days_in m y = (if m = 2 then (if is_leap y then 29 else 28) else if m \<in> {4, 6, 9, 11} then 30 else 31)"

text \<open>
  Days from 1970-01-01 to a date in the proleptic Gregorian calendar, in years that begin in
  March; linear in the day, so a day beyond the end of its month runs on into the next one, as
  \<^verbatim>\<open>time.Date\<close> normalises it.
\<close>

definition days_before_march :: "int \<Rightarrow> int" where
  "days_before_march y = 365 * y + y div 4 - y div 100 + y div 400"

definition days_from_civil :: "int \<Rightarrow> int \<Rightarrow> int \<Rightarrow> int" where
  "days_from_civil y m d =
    (let yy = (if m \<le> 2 then y - 1 else y); mm = (if m \<le> 2 then m + 9 else m - 3)
     in days_before_march yy + (153 * mm + 2) div 5 + d - 1 - 719468)"

text \<open>The date of a day number, by the 400-year cycle.\<close>

definition civil_from_days :: "int \<Rightarrow> int \<times> int \<times> int" where
  "civil_from_days z0 =
    (let z = z0 + 719468; era = z div 146097; doe = z - era * 146097;
         yoe = (doe - doe div 1460 + doe div 36524 - doe div 146096) div 365;
         doy = doe - (365 * yoe + yoe div 4 - yoe div 100);
         mp = (5 * doy + 2) div 153; d = doy - (153 * mp + 2) div 5 + 1;
         m = (if mp < 10 then mp + 3 else mp - 9)
     in (yoe + era * 400 + (if m \<le> 2 then 1 else 0), m, d))"

section \<open>Parsing with a layout\<close>

definition is_digit :: "char \<Rightarrow> bool" where
  "is_digit c \<longleftrightarrow> digit_val c \<noteq> None"

definition dval :: "char \<Rightarrow> int" where
  "dval c = (case digit_val c of Some d \<Rightarrow> d | None \<Rightarrow> 0)"

text \<open>\<^verbatim>\<open>getnum\<close>: two digits, or one when the layout allows it.\<close>

fun getnum :: "bool \<Rightarrow> string \<Rightarrow> (int \<times> string) option" where
  "getnum fixed [] = None"
| "getnum fixed (a # s) =
    (if \<not> is_digit a then None
     else case s of [] \<Rightarrow> if fixed then None else Some (dval a, s)
          | b # t \<Rightarrow> if is_digit b then Some (10 * dval a + dval b, t)
                    else if fixed then None else Some (dval a, s))"

definition in_range :: "int \<Rightarrow> int \<Rightarrow> int \<times> string \<Rightarrow> (int \<times> string) option" where
  "in_range lo hi r = (if lo \<le> fst r \<and> fst r \<le> hi then Some r else None)"

definition get_year :: "string \<Rightarrow> (int \<times> string) option" where
  "get_year s = (if length s \<ge> 4 \<and> list_all is_digit (take 4 s)
     then Some (foldl (\<lambda>n c. 10 * n + dval c) 0 (take 4 s), drop 4 s) else None)"

fun skip_char :: "char \<Rightarrow> string \<Rightarrow> string option" where
  "skip_char c [] = None"
| "skip_char c (x # s) = (if x = c then Some s else None)"

text \<open>A space of the layout matches a run of spaces, or the end of the value.\<close>

definition skip_space :: "string \<Rightarrow> string option" where
  "skip_space s = (if s \<noteq> [] \<and> hd s \<noteq> CHR '' '' then None else Some (dropWhile (\<lambda>c. c = CHR '' '') s))"

definition month_names :: "string list" where
  "month_names = [''jan'', ''feb'', ''mar'', ''apr'', ''may'', ''jun'', ''jul'', ''aug'', ''sep'', ''oct'', ''nov'', ''dec'']"

text \<open>The month names match in any letter case.\<close>

definition get_month :: "string \<Rightarrow> (int \<times> string) option" where
  "get_month s =
    (case find (\<lambda>(i, nm). map ascii_lower (take 3 s) = nm) (zip [1..12] month_names) of
       None \<Rightarrow> None | Some (i, nm) \<Rightarrow> Some (i, drop 3 s))"

text \<open>Fractional seconds after the seconds, of at most nine digits that count.\<close>

definition get_frac :: "string \<Rightarrow> int \<times> string" where
  "get_frac s =
    (case s of c # d # t \<Rightarrow>
       if (c = CHR ''.'' \<or> c = CHR '','') \<and> is_digit d then
         (let ds = takeWhile is_digit (d # t); nine = take 9 (ds @ replicate 9 (CHR ''0''))
          in (foldl (\<lambda>n c. 10 * n + dval c) 0 nine, dropWhile is_digit (d # t)))
       else (0, s)
     | _ \<Rightarrow> (0, s))"

text \<open>A numeric zone, with or without the colon: its offset in seconds.\<close>

definition get_zone :: "bool \<Rightarrow> string \<Rightarrow> (int \<times> string) option" where
  "get_zone colon s =
    (if length s < (if colon then 6 else 5) \<or> (colon \<and> s ! 3 \<noteq> CHR '':'') then None
     else do {
       (hr, _) \<leftarrow> getnum True (take 2 (drop 1 s)) \<bind> in_range 0 24;
       (mm, _) \<leftarrow> getnum True (take 2 (drop (if colon then 4 else 3) s)) \<bind> in_range 0 60;
       let off = (hr * 60 + mm) * 60;
       let rest = drop (if colon then 6 else 5) s;
       if hd s = CHR ''+'' then Some (off, rest)
       else if hd s = CHR ''-'' then Some (- off, rest) else None })"

definition get_iso_zone :: "string \<Rightarrow> (int \<times> string) option" where
  "get_iso_zone s = (if s \<noteq> [] \<and> hd s = CHR ''Z'' then Some (0, tl s) else get_zone True s)"

definition get_clock :: "string \<Rightarrow> ((int \<times> int \<times> int \<times> int) \<times> string) option" where
  "get_clock s = do {
     (h, s) \<leftarrow> getnum False s \<bind> in_range 0 23;
     s \<leftarrow> skip_char (CHR '':'') s;
     (m, s) \<leftarrow> getnum True s \<bind> in_range 0 59;
     s \<leftarrow> skip_char (CHR '':'') s;
     (sec, s) \<leftarrow> getnum True s \<bind> in_range 0 59;
     let (ns, s) = get_frac s;
     Some ((h, m, sec, ns), s) }"

definition unix_of :: "int \<Rightarrow> int \<Rightarrow> int \<Rightarrow> int \<Rightarrow> int \<Rightarrow> int \<Rightarrow> int" where
  "unix_of y m d h mi sec = days_from_civil y m d * 86400 + h * 3600 + mi * 60 + sec"

definition instant_of :: "int \<Rightarrow> int \<Rightarrow> int \<Rightarrow> int \<times> int \<times> int \<times> int \<Rightarrow> int \<Rightarrow> instant option" where
  "instant_of y m d clock off =
    (case clock of (h, mi, sec, ns) \<Rightarrow>
       if 1 \<le> d \<and> d \<le> days_in m y then Some ((unix_of y m d h mi sec - off) * 1000000000 + ns) else None)"

definition get_ymd :: "string \<Rightarrow> ((int \<times> int \<times> int) \<times> string) option" where
  "get_ymd s = do {
     (y, s) \<leftarrow> get_year s;
     s \<leftarrow> skip_char (CHR ''-'') s;
     (m, s) \<leftarrow> getnum True s \<bind> in_range 1 12;
     s \<leftarrow> skip_char (CHR ''-'') s;
     (d, s) \<leftarrow> getnum True s;
     Some ((y, m, d), s) }"

text \<open>\<^verbatim>\<open>time.Parse\<close> with \<^verbatim>\<open>time.RFC3339\<close> and \<^verbatim>\<open>time.RFC3339Nano\<close>, which accept the same values.\<close>

definition parse_RFC3339 :: "string \<Rightarrow> instant option" where
  "parse_RFC3339 s = do {
     ((y, m, d), s) \<leftarrow> get_ymd s;
     s \<leftarrow> skip_char (CHR ''T'') s;
     (clock, s) \<leftarrow> get_clock s;
     (off, s) \<leftarrow> get_iso_zone s;
     if s = [] then instant_of y m d clock off else None }"

text \<open>The layout \<^verbatim>\<open>02/Jan/2006:15:04:05 -0700\<close>.\<close>

definition parse_nginx_time :: "string \<Rightarrow> instant option" where
  "parse_nginx_time s = do {
     (d, s) \<leftarrow> getnum True s;
     s \<leftarrow> skip_char (CHR ''/'') s;
     (m, s) \<leftarrow> get_month s;
     s \<leftarrow> skip_char (CHR ''/'') s;
     (y, s) \<leftarrow> get_year s;
     s \<leftarrow> skip_char (CHR '':'') s;
     (clock, s) \<leftarrow> get_clock s;
     s \<leftarrow> skip_space s;
     (off, s) \<leftarrow> get_zone False s;
     if s = [] then instant_of y m d clock off else None }"

text \<open>The layout \<^verbatim>\<open>2006-01-02 15:04:05\<close>.\<close>

definition parse_sql_time :: "string \<Rightarrow> instant option" where
  "parse_sql_time s = do {
     ((y, m, d), s) \<leftarrow> get_ymd s;
     s \<leftarrow> skip_space s;
     (clock, s) \<leftarrow> get_clock s;
     if s = [] then instant_of y m d clock 0 else None }"

text \<open>The layouts \<^verbatim>\<open>Jan\<close> and \<^verbatim>\<open>15:04:05\<close>.\<close>

definition parse_month :: "string \<Rightarrow> int option" where
  "parse_month s = do { (m, s) \<leftarrow> get_month s; if s = [] then Some m else None }"

definition parse_clock :: "string \<Rightarrow> (int \<times> int \<times> int) option" where
  "parse_clock s = do { ((h, m, sec, ns), s) \<leftarrow> get_clock s; if s = [] then Some (h, m, sec) else None }"

section \<open>Locations\<close>

text \<open>
  A location (\<^verbatim>\<open>*time.Location\<close>) is its \<^verbatim>\<open>lookup\<close>: for a Unix second, the offset east of UTC in
  force there and the bounds of the period in which it is.
\<close>

type_synonym location = "int \<Rightarrow> int \<times> int \<times> int"

definition UTC :: location where
  "UTC t = (0, int64_min, int64_max)"

definition offset_at :: "location \<Rightarrow> int \<Rightarrow> int" where
  "offset_at loc t = fst (loc t)"

definition time_Year :: "location \<Rightarrow> instant \<Rightarrow> int" where
  "time_Year loc t = (let sec = t div 1000000000 in fst (civil_from_days ((sec + offset_at loc sec) div 86400)))"

definition time_Date :: "int \<Rightarrow> int \<Rightarrow> int \<Rightarrow> int \<Rightarrow> int \<Rightarrow> int \<Rightarrow> location \<Rightarrow> instant" where
  "time_Date y m d h mi sec loc =
    (let unix = unix_of y m d h mi sec
     in case loc unix of (off, start, stop) \<Rightarrow>
          (if off \<noteq> 0 then
             (let utc = unix - off; off' = (if utc < start \<or> utc \<ge> stop then offset_at loc utc else off)
              in unix - off')
           else unix) * 1000000000)"

definition pad :: "nat \<Rightarrow> int \<Rightarrow> string" where
  "pad w n = (let s = FormatInt n in replicate (w - length s) (CHR ''0'') @ s)"

text \<open>\<^verbatim>\<open>UTC().Format(time.RFC3339)\<close> for the years 0 to 9999.\<close>

definition format_RFC3339 :: "instant \<Rightarrow> string" where
  "format_RFC3339 t =
    (let sec = t div 1000000000; r = sec mod 86400
     in case civil_from_days (sec div 86400) of (y, m, d) \<Rightarrow>
          pad 4 y @ ''-'' @ pad 2 m @ ''-'' @ pad 2 d @ ''T'' @ pad 2 (r div 3600) @ '':'' @ pad 2 (r div 60 mod 60)
          @ '':'' @ pad 2 (r mod 60) @ ''Z'')"

section \<open>Inferring the year of a syslog timestamp\<close>

text \<open>Negating the smallest int64 wraps around to itself.\<close>

definition absDuration :: "duration \<Rightarrow> duration" where
  "absDuration v = (if v < 0 then (if v = int64_min then int64_min else - v) else v)"

definition closer :: "instant \<Rightarrow> instant \<Rightarrow> instant \<Rightarrow> instant" where
  "closer now best candidate =
    (if absDuration (time_Sub candidate now) < absDuration (time_Sub best now) then candidate else best)"

definition inferLegacyTimestamp :: "instant \<Rightarrow> location \<Rightarrow> int \<Rightarrow> int \<Rightarrow> int \<times> int \<times> int \<Rightarrow> instant" where
  "inferLegacyTimestamp now loc month day clock =
    (case clock of (h, mi, sec) \<Rightarrow>
       let y = time_Year loc now; at = (\<lambda>yr. time_Date yr month day h mi sec loc)
       in fold (\<lambda>yr best. closer now best (at yr)) [y - 1, y + 1] (at y))"

section \<open>When the inferred year is right\<close>


lemma div_step: "0 < n \<Longrightarrow> (k + 1) div n = k div n + (if n dvd k + 1 then 1 else 0)" for k n :: int
proof -
  assume n: "0 < n"
  have k: "k = n * (k div n) + k mod n" by simp
  show ?thesis
  proof (cases "k mod n = n - 1")
    case True
    then have "k + 1 = n * (k div n) + n" using k by linarith
    then have "k + 1 = n * (k div n + 1)" by (simp add: algebra_simps)
    then show ?thesis using n by (metis dvd_triv_left nonzero_mult_div_cancel_left order_less_irrefl)
  next
    case False
    then have lt: "k mod n + 1 < n" "0 \<le> k mod n" using n pos_mod_bound[OF n, of k] pos_mod_sign[OF n, of k] by linarith+
    have eq: "k + 1 = n * (k div n) + (k mod n + 1)" using k by simp
    have "(k + 1) div n = k div n" by (rule int_div_pos_eq[OF eq]) (use lt in auto)
    moreover have "(k + 1) mod n = k mod n + 1" by (rule int_mod_pos_eq[OF eq]) (use lt in auto)
    then have "\<not> n dvd k + 1" using lt by (simp add: dvd_eq_mod_eq_0)
    ultimately show ?thesis by simp
  qed
qed

lemma year_length: "days_before_march (k + 1) - days_before_march k \<in> {365, 366}"
proof -
  have "400 dvd k + 1 \<Longrightarrow> 100 dvd k + 1" "100 dvd k + 1 \<Longrightarrow> 4 dvd k + 1"
    by (auto elim: dvd_trans[rotated])
  then show ?thesis by (auto simp: days_before_march_def div_step)
qed

lemma next_year: "days_from_civil (y + 1) m d - days_from_civil y m d \<in> {365, 366}"
  using year_length[of y] year_length[of "y - 1"] by (auto simp: days_from_civil_def Let_def)

definition bounded_zone :: "location \<Rightarrow> bool" where
  "bounded_zone loc \<longleftrightarrow> (\<forall>t. \<bar>offset_at loc t\<bar> \<le> 86400)"

lemma time_Date_offset:
  assumes "bounded_zone loc"
  shows "\<exists>u. \<bar>u\<bar> \<le> 86400 \<and> time_Date y m d h mi sec loc = (unix_of y m d h mi sec - u) * 1000000000"
proof -
  let ?u = "unix_of y m d h mi sec"
  obtain off st en where l: "loc ?u = (off, st, en)" by (cases "loc ?u") auto
  have "\<bar>off\<bar> \<le> 86400" "\<bar>offset_at loc (?u - off)\<bar> \<le> 86400"
    using assms l unfolding bounded_zone_def offset_at_def by (metis fst_conv)+
  then show ?thesis using l by (auto simp: time_Date_def Let_def intro: exI[of _ 0])
qed

text \<open>The same date a year later is 363 to 368 days later, whatever the zone does.\<close>

lemma date_next_year:
  assumes "bounded_zone loc"
  shows "363 * 86400 * 1000000000 \<le> time_Date (y + 1) m d h mi sec loc - time_Date y m d h mi sec loc"
    and "time_Date (y + 1) m d h mi sec loc - time_Date y m d h mi sec loc \<le> 368 * 86400 * 1000000000"
proof -
  obtain a b where "\<bar>a\<bar> \<le> 86400" "\<bar>b\<bar> \<le> 86400"
    and "time_Date (y + 1) m d h mi sec loc = (unix_of (y + 1) m d h mi sec - a) * 1000000000"
    and "time_Date y m d h mi sec loc = (unix_of y m d h mi sec - b) * 1000000000"
    using time_Date_offset[OF assms] by metis
  then show "363 * 86400 * 1000000000 \<le> time_Date (y + 1) m d h mi sec loc - time_Date y m d h mi sec loc"
    and "time_Date (y + 1) m d h mi sec loc - time_Date y m d h mi sec loc \<le> 368 * 86400 * 1000000000"
    using next_year[of y m d] by (auto simp: unix_of_def)
qed

lemma closer_eq:
  assumes "\<bar>best - now\<bar> \<le> 1000 * 86400 * 1000000000" and "\<bar>cand - now\<bar> \<le> 1000 * 86400 * 1000000000"
  shows "closer now best cand = (if \<bar>cand - now\<bar> < \<bar>best - now\<bar> then cand else best)"
  using assms by (auto simp: closer_def absDuration_def time_Sub_def int64_defs)

text \<open>
  C20. The year of a syslog line is inferred correctly when the line is less than half a year
  old. In a location whose offsets are below a day, for a line written at a date of the local
  year of now, the one before or the one after, and less than 181 days away from now,
  \<^verbatim>\<open>inferLegacyTimestamp\<close> gives the very instant the line was written at, at the turn of the year
  and around 29 February too.
\<close>

theorem year_inference_exact:
  assumes "bounded_zone loc" and "y = time_Year loc now" and "Y \<in> {y - 1, y, y + 1}"
    and "t = time_Date Y m d h mi sec loc" and "\<bar>t - now\<bar> < 181 * 24 * Hour"
  shows "inferLegacyTimestamp now loc m d (h, mi, sec) = t"
proof -
  define P Q R where "P = time_Date (y - 1) m d h mi sec loc" and "Q = time_Date y m d h mi sec loc"
    and "R = time_Date (y + 1) m d h mi sec loc"
  have step: "363 * 86400 * 1000000000 \<le> Q - P" "Q - P \<le> 368 * 86400 * 1000000000"
      "363 * 86400 * 1000000000 \<le> R - Q" "R - Q \<le> 368 * 86400 * 1000000000"
    using date_next_year[OF assms(1), of "y - 1" m d h mi sec] date_next_year[OF assms(1), of y m d h mi sec]
    by (simp_all add: P_def Q_def R_def)
  have t: "\<bar>t - now\<bar> < 181 * 86400 * 1000000000" using assms(5) by (simp add: duration_defs)
  have in3: "t \<in> {P, Q, R}" using assms(3,4) by (auto simp: P_def Q_def R_def)
  have near: "\<bar>P - now\<bar> \<le> 1000 * 86400 * 1000000000" "\<bar>Q - now\<bar> \<le> 1000 * 86400 * 1000000000"
      "\<bar>R - now\<bar> \<le> 1000 * 86400 * 1000000000"
    using in3 t step by auto
  have "inferLegacyTimestamp now loc m d (h, mi, sec) = closer now (closer now Q P) R"
    using assms(2) by (simp add: inferLegacyTimestamp_def Let_def P_def Q_def R_def)
  also have "\<dots> = t"
    using in3 t step near by (auto simp: closer_eq)
  finally show ?thesis .
qed

theorem year_inference_exact_witness:
  "inferLegacyTimestamp 1767229200000000000 UTC 12 31 (23, 59, 0) = 1767225540000000000"
proof -
  have z: "bounded_zone UTC" by (simp add: bounded_zone_def offset_at_def UTC_def)
  have y: "2026 = time_Year UTC 1767229200000000000"
    by code_simp
  have d: "1767225540000000000 = time_Date 2025 12 31 23 59 0 UTC"
    by code_simp
  show ?thesis by (rule year_inference_exact[OF z y _ d]) (simp_all add: duration_defs)
qed

end
