(* ===== verification/IPaddr.thy ===== *)
theory IPaddr
  imports Prelude
begin

unbundle bit_operations_syntax

text \<open>
  IP addresses and networks: the functions of Go's package \<^verbatim>\<open>net\<close> (on top of \<^verbatim>\<open>net/netip\<close>)
  the program calls, and the two checks of the program that are built directly on them. A
  \<^verbatim>\<open>net.IP\<close> is a byte slice; \<^verbatim>\<open>ParseIP\<close> always gives 16 bytes, with IPv4 addresses in the form
  \<^verbatim>\<open>::ffff:a.b.c.d\<close>.
\<close>

section \<open>Types\<close>

type_synonym byte = "8 word"
type_synonym ip = "byte list"

record IPNet =
  net_IP :: ip
  net_Mask :: "byte list"

datatype addr = Addr4 ip | Addr6 ip

definition v4InV6Prefix :: ip where
  "v4InV6Prefix = replicate 10 0 @ [0xff, 0xff]"

fun As16 :: "addr \<Rightarrow> ip" where
  "As16 (Addr4 b) = v4InV6Prefix @ b"
| "As16 (Addr6 b) = b"

definition To4 :: "ip \<Rightarrow> ip option" where
  "To4 p = (if length p = 4 then Some p
            else if length p = 16 \<and> take 12 p = v4InV6Prefix then Some (drop 12 p) else None)"

section \<open>Parsing\<close>

text \<open>One decimal field of an IPv4 address: one to three digits, no leading zero, at most 255.\<close>

definition parse_octet :: "string \<Rightarrow> byte option" where
  "parse_octet s =
    (if s = [] \<or> (length s > 1 \<and> hd s = CHR ''0'') then None
     else case digits_acc 0 s of None \<Rightarrow> None
          | Some n \<Rightarrow> if n > 255 then None else Some (word_of_int n))"

definition parseIPv4Fields :: "string \<Rightarrow> ip option" where
  "parseIPv4Fields s =
    (case map parse_octet (Split s (CHR ''.'')) of
       [Some a, Some b, Some c, Some d] \<Rightarrow> Some [a, b, c, d]
     | _ \<Rightarrow> None)"

definition hex_val :: "char \<Rightarrow> nat option" where
  "hex_val c = (let n = of_char c :: nat in
     if 48 \<le> n \<and> n \<le> 57 then Some (n - 48)
     else if 97 \<le> n \<and> n \<le> 102 then Some (n - 87)
     else if 65 \<le> n \<and> n \<le> 70 then Some (n - 55) else None)"

fun hex_acc :: "nat \<Rightarrow> string \<Rightarrow> nat" where
  "hex_acc acc [] = acc"
| "hex_acc acc (c # s) = hex_acc (16 * acc + (case hex_val c of Some d \<Rightarrow> d | None \<Rightarrow> 0)) s"

definition is_hex :: "char \<Rightarrow> bool" where
  "is_hex c \<longleftrightarrow> hex_val c \<noteq> None"

text \<open>
  The loop of \<^verbatim>\<open>parseIPv6\<close>: it runs while fewer than 16 bytes are filled, so the number of groups
  still to fill, starting at 8, bounds it. The result is the bytes, the position of the
  ellipsis and the unread rest of the string.
\<close>

fun v6_loop :: "nat \<Rightarrow> ip \<Rightarrow> nat option \<Rightarrow> string \<Rightarrow> (ip \<times> nat option \<times> string) option" where
  "v6_loop 0 bs ell s = Some (bs, ell, s)"
| "v6_loop (Suc n) bs ell s =
    (let ds = takeWhile is_hex s; rest = dropWhile is_hex s; g = hex_acc 0 ds;
         bs' = bs @ [of_nat (g div 256), of_nat (g mod 256)]
     in if length ds > 4 \<or> ds = [] then None
        else if rest \<noteq> [] \<and> hd rest = CHR ''.'' then
          (if ell = None \<and> length bs \<noteq> 12 then None
           else if length bs + 4 > 16 then None
           else case parseIPv4Fields s of None \<Rightarrow> None | Some v4 \<Rightarrow> Some (bs @ v4, ell, []))
        else if rest = [] then Some (bs', ell, [])
        else if hd rest \<noteq> CHR '':'' then None
        else if tl rest = [] then None
        else if hd (tl rest) = CHR '':'' then
          (if ell \<noteq> None then None
           else if tl (tl rest) = [] then Some (bs', Some (length bs'), [])
           else v6_loop n bs' (Some (length bs')) (tl (tl rest)))
        else v6_loop n bs' ell (tl rest))"

definition parseIPv6 :: "string \<Rightarrow> ip option" where
  "parseIPv6 s =
    (let (ell, s1) = (if prefix ''::'' s then (Some 0, drop 2 s) else (None, s))
     in if ell = Some 0 \<and> s1 = [] then Some (replicate 16 0)
        else case v6_loop 8 [] ell s1 of
          None \<Rightarrow> None
        | Some (bs, e, rest) \<Rightarrow>
            if rest \<noteq> [] then None
            else if length bs < 16 then
              (case e of None \<Rightarrow> None
               | Some k \<Rightarrow> Some (take k bs @ replicate (16 - length bs) 0 @ drop k bs))
            else if e \<noteq> None then None else Some bs)"

text \<open>
  \<^verbatim>\<open>netip.ParseAddr\<close> dispatches on the first dot, colon or percent sign; an address with a zone
  is refused by every caller, so a percent sign anywhere is a failure here.
\<close>

definition ParseAddr :: "string \<Rightarrow> addr option" where
  "ParseAddr s =
    (case find (\<lambda>c. c = CHR ''.'' \<or> c = CHR '':'' \<or> c = CHR 0x25) s of
       None \<Rightarrow> None
     | Some c \<Rightarrow>
         if c = CHR ''.'' then map_option Addr4 (parseIPv4Fields s)
         else if c = CHR '':'' then (if CHR 0x25 \<in> set s then None else map_option Addr6 (parseIPv6 s))
         else None)"

definition ParseIP :: "string \<Rightarrow> ip option" where
  "ParseIP s = map_option As16 (ParseAddr s)"

section \<open>Printing\<close>

fun hex_digits :: "nat \<Rightarrow> string" where
  "hex_digits n = (if n < 16 then [hex_digit n] else hex_digits (n div 16) @ [hex_digit (n mod 16)])"

declare hex_digits.simps [simp del]

fun groups :: "ip \<Rightarrow> nat list" where
  "groups (a # b # p) = (256 * unat a + unat b) # groups p"
| "groups _ = []"

text \<open>The longest run of at least two zero groups, the first one of that length.\<close>

definition zero_run :: "nat list \<Rightarrow> nat \<Rightarrow> nat" where
  "zero_run gs i = length (takeWhile (\<lambda>g. g = 0) (drop i gs))"

definition best_run :: "nat list \<Rightarrow> nat \<times> nat" where
  "best_run gs = fold (\<lambda>i (s, l). if zero_run gs i \<ge> 2 \<and> zero_run gs i > l then (i, zero_run gs i) else (s, l))
     [0..<length gs] (0, 0)"

definition string6 :: "ip \<Rightarrow> string" where
  "string6 p =
    (let gs = groups p; (s, l) = best_run gs; hx = (\<lambda>gs. Join (map hex_digits gs) '':'')
     in if l = 0 then hx gs else hx (take s gs) @ ''::'' @ hx (drop (s + l) gs))"

definition string4 :: "ip \<Rightarrow> string" where
  "string4 p = Join (map (\<lambda>b. nat_digits (unat b)) p) ''.''"

definition IP_String :: "ip \<Rightarrow> string" where
  "IP_String p = (case To4 p of Some p4 \<Rightarrow> string4 p4 | None \<Rightarrow> string6 p)"

section \<open>Classification and networks\<close>

definition IP_Equal :: "ip \<Rightarrow> ip \<Rightarrow> bool" where
  "IP_Equal p q \<longleftrightarrow>
    (if length p = length q then p = q
     else if length p = 4 \<and> length q = 16 then take 12 q = v4InV6Prefix \<and> p = drop 12 q
     else if length p = 16 \<and> length q = 4 then take 12 p = v4InV6Prefix \<and> drop 12 p = q
     else False)"

definition IsUnspecified :: "ip \<Rightarrow> bool" where
  "IsUnspecified p \<longleftrightarrow> IP_Equal p (v4InV6Prefix @ [0, 0, 0, 0]) \<or> IP_Equal p (replicate 16 0)"

definition IsLoopback :: "ip \<Rightarrow> bool" where
  "IsLoopback p = (case To4 p of Some p4 \<Rightarrow> hd p4 = 127 | None \<Rightarrow> IP_Equal p (replicate 15 0 @ [1]))"

definition IsMulticast :: "ip \<Rightarrow> bool" where
  "IsMulticast p = (case To4 p of Some p4 \<Rightarrow> hd p4 AND 0xf0 = 0xe0 | None \<Rightarrow> length p = 16 \<and> hd p = 0xff)"

definition CIDRMask :: "nat \<Rightarrow> nat \<Rightarrow> byte list" where
  "CIDRMask ones bits = map (\<lambda>i. of_nat (256 - 2 ^ (8 - min 8 (ones - 8 * i)))) [0..<bits div 8]"

definition IP_Mask :: "ip \<Rightarrow> byte list \<Rightarrow> ip option" where
  "IP_Mask p m =
    (let m1 = (if length m = 16 \<and> length p = 4 \<and> list_all (\<lambda>b. b = 0xff) (take 12 m) then drop 12 m else m);
         p1 = (if length m1 = 4 \<and> length p = 16 \<and> take 12 p = v4InV6Prefix then drop 12 p else p)
     in if length p1 \<noteq> length m1 then None else Some (map2 (AND) p1 m1))"

fun dtoi :: "nat \<Rightarrow> string \<Rightarrow> nat option" where
  "dtoi n [] = Some n"
| "dtoi n (c # s) =
    (case digit_val c of None \<Rightarrow> None
     | Some d \<Rightarrow> (let n' = n * 10 + nat d in if n' \<ge> 0xFFFFFF then None else dtoi n' s))"

definition ParseCIDR :: "string \<Rightarrow> IPNet result" where
  "ParseCIDR s =
    (let e = Inl (''invalid CIDR address: '' @ s); parts = Split s (CHR ''/'')
     in if tl parts = [] then e
        else let mask = drop (Suc (length (hd parts))) s
        in case ParseAddr (hd parts) of
             None \<Rightarrow> e
           | Some a \<Rightarrow>
              let bits = (case a of Addr4 _ \<Rightarrow> 32 | Addr6 _ \<Rightarrow> 128)
              in (case (if mask = [] then None else dtoi 0 mask) of
                    None \<Rightarrow> e
                  | Some n \<Rightarrow>
                      if n > bits then e
                      else let m = CIDRMask n bits
                           in Inr \<lparr>net_IP = (case IP_Mask (As16 a) m of None \<Rightarrow> [] | Some p \<Rightarrow> p), net_Mask = m\<rparr>))"

definition networkNumberAndMask :: "IPNet \<Rightarrow> (ip \<times> byte list) option" where
  "networkNumberAndMask n =
    (case (case To4 (net_IP n) of Some p \<Rightarrow> Some p | None \<Rightarrow> if length (net_IP n) = 16 then Some (net_IP n) else None) of
       None \<Rightarrow> None
     | Some p \<Rightarrow>
         if length (net_Mask n) = 4 then (if length p \<noteq> 4 then None else Some (p, net_Mask n))
         else if length (net_Mask n) = 16 then Some (p, if length p = 4 then drop 12 (net_Mask n) else net_Mask n)
         else None)"

definition Contains_IP :: "IPNet \<Rightarrow> ip \<Rightarrow> bool" where
  "Contains_IP n p =
    (let q = (case To4 p of Some p4 \<Rightarrow> p4 | None \<Rightarrow> p)
     in case networkNumberAndMask n of
          None \<Rightarrow> q = []
        | Some (nn, m) \<Rightarrow> length q = length nn \<and> list_all (\<lambda>(x, y, k). x AND k = y AND k) (zip nn (zip q m)))"

text \<open>
  The loop over networks is written three times in the program (\<^verbatim>\<open>isTrustedProxy\<close>, \<^verbatim>\<open>containsIP\<close>,
  and in \<^verbatim>\<open>validateBlockTarget\<close>), the parser of a network list twice (\<^verbatim>\<open>parseCIDRs\<close>, \<^verbatim>\<open>parseNetworks\<close>).
\<close>

fun containsIP :: "IPNet list \<Rightarrow> ip \<Rightarrow> bool" where
  "containsIP [] p = False"
| "containsIP (n # ns) p = (if Contains_IP n p then True else containsIP ns p)"

fun parse_networks_loop :: "string list \<Rightarrow> IPNet list result" where
  "parse_networks_loop [] = Inr []"
| "parse_networks_loop (item # items) =
    (let t = TrimSpace item
     in if t = [] then parse_networks_loop items
        else case ParseCIDR t of Inl x \<Rightarrow> Inl x
             | Inr n \<Rightarrow> (case parse_networks_loop items of Inl x \<Rightarrow> Inl x | Inr ns \<Rightarrow> Inr (n # ns)))"

definition parseNetworks :: "string \<Rightarrow> IPNet list result" where
  "parseNetworks v = parse_networks_loop (Split v (CHR '',''))"

end
