(* ===== verification/Networks.thy ===== *)
theory Networks
  imports IPaddr
begin

unbundle bit_operations_syntax

text \<open>
  What the address functions of \<^verbatim>\<open>IPaddr\<close> guarantee: the printed form of an address parses back
  to the same address (IPv4, IPv6 with and without an elided run of zeros), and a list of
  networks contains an address exactly when the address agrees with one of the listed networks on
  its prefix bits.
\<close>

section \<open>Textual form of IPv4 addresses\<close>

lemma parse_octet_nat_digits: "n < 256 \<Longrightarrow> parse_octet (nat_digits n) = Some (of_nat n)"
  using hd_nat_digits[of n] by (auto simp: parse_octet_def digits_acc_nat_digits nat_digits_small)

lemma digit_chars: "digit_val c \<noteq> None \<Longrightarrow> c \<noteq> CHR ''.'' \<and> c \<noteq> CHR '':'' \<and> c \<noteq> CHR 0x25"
  by (auto simp: digit_val_def)

lemma Join4: "Join [a, b, c, d] sep = a @ sep @ b @ sep @ c @ sep @ d"
  by simp

lemma find_app: "(\<And>c. c \<in> set s \<Longrightarrow> \<not> P c) \<Longrightarrow> find P (s @ t) = find P t"
  by (induction s) auto

lemma ParseAddr_string4:
  assumes "length b = 4"
  shows "ParseAddr (string4 b) = Some (Addr4 b)"
proof -
  obtain w x y z where b: "b = [w, x, y, z]"
    using assms by (auto simp: length_Suc_conv eval_nat_numeral)
  let ?d = "\<lambda>b :: byte. nat_digits (unat b)"
  have nodot: "CHR ''.'' \<notin> set (?d v)" for v
    using set_nat_digits digit_chars by blast
  have sp: "Split (string4 b) (CHR ''.'') = [?d w, ?d x, ?d y, ?d z]"
    unfolding string4_def b by (subst Split_Join) (use nodot in auto)
  have oct: "parse_octet (?d v) = Some v" for v
    using parse_octet_nat_digits[of "unat v"] unsigned_less[of v] by simp
  have "find (\<lambda>c. c = CHR ''.'' \<or> c = CHR '':'' \<or> c = CHR 0x25) (string4 b) = Some (CHR ''.'')"
    unfolding string4_def b using digit_chars set_nat_digits
    by (simp only: list.map Join4, subst find_app) auto
  then show ?thesis by (simp add: ParseAddr_def parseIPv4Fields_def sp oct) (simp add: b)
qed

section \<open>Hexadecimal groups\<close>

lemma hex_val_digit [simp]: "n < 16 \<Longrightarrow> hex_val (hex_digit n) = Some n"
  by (auto simp: hex_val_def hex_digit_def Let_def)

lemma hex_digits_not_Nil [simp]: "hex_digits n \<noteq> []"
  by (subst hex_digits.simps) simp

lemma set_hex_digits: "c \<in> set (hex_digits n) \<Longrightarrow> is_hex c"
proof (induction n rule: hex_digits.induct)
  case (1 n)
  show ?case using 1 by (subst (asm) (2) hex_digits.simps) (auto simp: is_hex_def split: if_splits)
qed

lemma hex_acc_append: "hex_acc a (s @ t) = hex_acc (hex_acc a s) t"
  by (induction s arbitrary: a) auto

lemma hex_acc_hex_digits: "hex_acc 0 (hex_digits n) = n"
proof (induction n rule: hex_digits.induct)
  case (1 n)
  show ?case by (subst hex_digits.simps) (use 1 in \<open>auto simp: hex_acc_append\<close>)
qed

lemma length_hex_digits: "n < 16 ^ Suc k \<Longrightarrow> length (hex_digits n) \<le> Suc k"
proof (induction k arbitrary: n)
  case 0
  then show ?case by (subst hex_digits.simps) simp
next
  case (Suc k)
  have "n div 16 < 16 ^ Suc k" using Suc.prems by (simp add: div_less_iff_less_mult)
  then show ?case using Suc.IH[of "n div 16"] by (subst hex_digits.simps) auto
qed

lemma not_hex: "\<not> is_hex (CHR '':'')" "\<not> is_hex (CHR ''.'')" "\<not> is_hex (CHR 0x25)"
  by (simp_all add: is_hex_def hex_val_def)

definition hexes :: "nat list \<Rightarrow> string" where
  "hexes gs = Join (map hex_digits gs) '':''"

definition bytes_of :: "nat list \<Rightarrow> ip" where
  "bytes_of gs = concat (map (\<lambda>g. [of_nat (g div 256), of_nat (g mod 256)]) gs)"

lemma hexes_simps [simp]:
  "hexes [] = []" "hexes [g] = hex_digits g"
  "hexes (g # h # gs) = hex_digits g @ CHR '':'' # hexes (h # gs)"
  by (simp_all add: hexes_def)

lemma bytes_of_simps [simp]:
  "bytes_of [] = []" "bytes_of (g # gs) = of_nat (g div 256) # of_nat (g mod 256) # bytes_of gs"
  "bytes_of (gs @ hs) = bytes_of gs @ bytes_of hs"
  by (simp_all add: bytes_of_def)

lemma length_bytes_of [simp]: "length (bytes_of gs) = 2 * length gs"
  by (induction gs) auto

lemma hexes_hd: "gs \<noteq> [] \<Longrightarrow> hexes gs \<noteq> [] \<and> is_hex (hd (hexes gs))"
  using set_hex_digits[OF hd_in_set[OF hex_digits_not_Nil]]
  by (cases gs rule: list.exhaust; cases "tl gs") (auto simp: hd_append)

lemma hexes_eq_Nil [simp]: "hexes gs = [] \<longleftrightarrow> gs = []"
  using hexes_hd[of gs] by auto

lemma take_group:
  assumes "s = [] \<or> hd s = CHR '':''"
  shows "takeWhile is_hex (hex_digits g @ s) = hex_digits g" "dropWhile is_hex (hex_digits g @ s) = s"
  using assms set_hex_digits[of _ g] not_hex(1)
  by (cases s; auto simp: takeWhile_append dropWhile_append)+

text \<open>One turn of the loop on a group followed by the end of the text or by a colon.\<close>

lemma v6_loop_group:
  assumes "g < 65536" and "s = [] \<or> hd s = CHR '':''"
  shows "v6_loop (Suc n) bs ell (hex_digits g @ s) =
    (let bs' = bs @ bytes_of [g]
     in if s = [] then Some (bs', ell, [])
        else if tl s = [] then None
        else if hd (tl s) = CHR '':'' then
          (if ell \<noteq> None then None
           else if tl (tl s) = [] then Some (bs', Some (length bs'), [])
           else v6_loop n bs' (Some (length bs')) (tl (tl s)))
        else v6_loop n bs' ell (tl s))"
proof -
  have "length (hex_digits g) \<le> 4" using length_hex_digits[of g 3] assms(1) by simp
  then show ?thesis using assms(2)
    unfolding v6_loop.simps Let_def take_group[OF assms(2)] hex_acc_hex_digits by auto
qed

lemma v6_loop_groups:
  "gs \<noteq> [] \<Longrightarrow> length gs \<le> n \<Longrightarrow> (\<And>g. g \<in> set gs \<Longrightarrow> g < 65536) \<Longrightarrow>
   v6_loop n bs ell (hexes gs) = Some (bs @ bytes_of gs, ell, [])"
proof (induction gs arbitrary: n bs rule: list_nonempty_induct)
  case (single g)
  then obtain m where "n = Suc m" by (cases n) auto
  with single v6_loop_group[of g "[]" m bs ell] show ?case by (simp del: v6_loop.simps)
next
  case (cons g gs)
  then obtain m h hs where nm: "n = Suc m" "gs = h # hs" by (cases n; cases gs) auto
  have "hexes gs \<noteq> []" "hd (hexes gs) \<noteq> CHR '':''" using hexes_hd[OF cons(1)] not_hex(1) by auto
  with cons nm v6_loop_group[of g "CHR '':'' # hexes gs" m bs ell] show ?case
    by (simp add: Let_def del: v6_loop.simps)
qed

lemma v6_loop_ellipsis:
  "gs \<noteq> [] \<Longrightarrow> length gs + length hs \<le> n \<Longrightarrow> (\<And>g. g \<in> set (gs @ hs) \<Longrightarrow> g < 65536) \<Longrightarrow>
   v6_loop n bs None (hexes gs @ ''::'' @ hexes hs) =
     Some (bs @ bytes_of gs @ bytes_of hs, Some (length bs + 2 * length gs), [])"
proof (induction gs arbitrary: n bs rule: list_nonempty_induct)
  case (single g)
  then obtain m where m: "n = Suc m" by (cases n) auto
  show ?case
  proof (cases "hs = []")
    case True
    with m single v6_loop_group[of g "''::''" m bs None] show ?thesis
      by (simp add: Let_def del: v6_loop.simps)
  next
    case False
    with m single v6_loop_group[of g "''::'' @ hexes hs" m bs None]
      v6_loop_groups[of hs m "bs @ bytes_of [g]" "Some (length bs + 2)"] show ?thesis
      by (simp add: Let_def del: v6_loop.simps)
  qed
next
  case (cons g gs)
  then obtain m k ks where nm: "n = Suc m" "gs = k # ks" by (cases n; cases gs) auto
  have "hexes gs \<noteq> []" "hd (hexes gs @ ''::'' @ hexes hs) \<noteq> CHR '':''"
    using hexes_hd[OF cons(1)] not_hex(1) by auto
  with cons nm v6_loop_group[of g "CHR '':'' # hexes gs @ ''::'' @ hexes hs" m bs None] show ?case
    by (simp add: Let_def del: v6_loop.simps)
qed


section \<open>Runs of zero groups\<close>

lemma length_groups: "length (groups p) = length p div 2"
  by (induction p rule: groups.induct) auto

lemma groups_less: "g \<in> set (groups p) \<Longrightarrow> g < 65536"
proof (induction p rule: groups.induct)
  case (1 a b p)
  have "unat a < 256" "unat b < 256" using unsigned_less[of a] unsigned_less[of b] by simp_all
  then have "256 * unat a + unat b < 65536" by linarith
  then show ?case using 1 by auto
qed auto

lemma bytes_of_groups: "even (length p) \<Longrightarrow> bytes_of (groups p) = p"
proof (induction p rule: groups.induct)
  case (1 a b p)
  have "unat b < 256" using unsigned_less[of b] by simp
  then show ?case using 1 by simp
qed (auto simp: bytes_of_def)

lemma zero_run_replicate: "take (zero_run gs i) (drop i gs) = replicate (zero_run gs i) 0"
proof -
  have "takeWhile (\<lambda>g. g = 0) xs = replicate (length (takeWhile (\<lambda>g. g = 0) xs)) (0 :: nat)" for xs
    by (induction xs) auto
  then show ?thesis by (simp add: zero_run_def flip: takeWhile_eq_take)
qed

lemma zero_run_le: "i \<le> length gs \<Longrightarrow> i + zero_run gs i \<le> length gs"
  unfolding zero_run_def using length_takeWhile_le[of "\<lambda>g. g = 0" "drop i gs"] by simp

lemma best_run_cases:
  assumes "best_run gs = (s, l)"
  shows "l = 0 \<or> (2 \<le> l \<and> s + l \<le> length gs \<and> gs = take s gs @ replicate l 0 @ drop (s + l) gs)"
proof -
  let ?Q = "\<lambda>(s, l). l = 0 \<or> 2 \<le> l \<and> l = zero_run gs s \<and> s \<le> length gs"
  let ?step = "\<lambda>i (s, l). if zero_run gs i \<ge> 2 \<and> zero_run gs i > l then (i, zero_run gs i) else (s, l)"
  have "?Q (fold ?step is a)" if "\<forall>i \<in> set is. i \<le> length gs" "?Q a" for "is" a
    using that
  proof (induction "is" arbitrary: a)
    case (Cons i "is")
    have "?Q (?step i a)" using Cons.prems by (cases a) auto
    then show ?case using Cons by simp
  qed simp
  from this[of "[0..<length gs]" "(0, 0)"] assms
  have "l = 0 \<or> 2 \<le> l \<and> l = zero_run gs s \<and> s \<le> length gs" by (simp add: best_run_def)
  then show ?thesis using zero_run_replicate[of gs s] zero_run_le[of s gs]
    by (metis append_take_drop_id drop_drop add.commute)
qed

lemma bytes_of_replicate: "bytes_of (replicate n 0) = replicate (2 * n) 0"
  by (induction n) auto

section \<open>Textual form of IPv6 addresses\<close>

lemma string6_hexes:
  "string6 p = (let gs = groups p; (s, l) = best_run gs
     in if l = 0 then hexes gs else hexes (take s gs) @ ''::'' @ hexes (drop (s + l) gs))"
  by (simp add: string6_def hexes_def Let_def split: prod.splits)

lemma not_prefix_ellipsis: "gs \<noteq> [] \<Longrightarrow> \<not> prefix ''::'' (hexes gs @ t)"
  using hexes_hd[of gs] not_hex(1) by (cases "hexes gs") (auto simp: prefix_def)

lemma parseIPv6_string6:
  assumes "length p = 16"
  shows "parseIPv6 (string6 p) = Some p"
proof -
  define gs where "gs = groups p"
  obtain s l where sl: "best_run gs = (s, l)" by fastforce
  have len: "length gs = 8" and ps: "bytes_of gs = p" and less: "\<And>g. g \<in> set gs \<Longrightarrow> g < 65536"
    unfolding gs_def using assms by (simp_all add: length_groups bytes_of_groups groups_less)
  have str: "string6 p = (if l = 0 then hexes gs else hexes (take s gs) @ ''::'' @ hexes (drop (s + l) gs))"
    by (simp add: string6_hexes flip: gs_def) (simp add: sl)
  show ?thesis
  proof (cases "l = 0")
    case True
    have "gs \<noteq> []" using len by auto
    then show ?thesis using True str not_prefix_ellipsis[of gs "[]"] v6_loop_groups[of gs 8 "[]" None] len less assms
      by (simp add: parseIPv6_def ps del: v6_loop.simps)
  next
    case False
    define as where "as = take s gs"
    define bs where "bs = drop (s + l) gs"
    have gs: "gs = as @ replicate l 0 @ bs" and l: "2 \<le> l" "s + l \<le> 8"
      using best_run_cases[OF sl] False len by (simp_all add: as_def bs_def)
    have ab: "length as = s" "length bs = 8 - (s + l)" using l len by (simp_all add: as_def bs_def)
    have p: "p = bytes_of as @ replicate (2 * l) 0 @ bytes_of bs"
      using ps gs by (simp add: bytes_of_replicate)
    have str: "string6 p = hexes as @ ''::'' @ hexes bs" using str False by (simp add: as_def bs_def)
    have small: "g \<in> set (as @ bs) \<Longrightarrow> g < 65536" for g using less gs by auto
    show ?thesis
    proof (cases "as = []")
      case True
      show ?thesis
      proof (cases "bs = []")
        case True
        then show ?thesis using \<open>as = []\<close> str p ab l by (simp add: parseIPv6_def)
      next
        case False
        then show ?thesis using \<open>as = []\<close> str p ab l v6_loop_groups[of bs 8 "[]" "Some 0"] small
          by (simp add: parseIPv6_def del: v6_loop.simps)
      qed
    next
      case False
      have run: "v6_loop 8 [] None (string6 p) = Some (bytes_of as @ bytes_of bs, Some (2 * s), [])"
        using v6_loop_ellipsis[OF False, of bs 8 "[]"] small ab l by (simp add: str del: v6_loop.simps)
      have "\<not> prefix ''::'' (string6 p)" using not_prefix_ellipsis[OF False] by (simp add: str)
      moreover have "length bs < 8 - s" "16 - 2 * (s + length bs) = 2 * l" using l ab by auto
      ultimately show ?thesis using run ab p by (simp add: parseIPv6_def del: v6_loop.simps)
    qed
  qed
qed

lemma set_hexes: "c \<in> set (hexes gs) \<Longrightarrow> is_hex c \<or> c = CHR '':''"
proof (induction gs)
  case (Cons g gs)
  then show ?case using set_hex_digits[of c g] by (cases gs) auto
qed simp

lemma colon_in_hexes: "2 \<le> length gs \<Longrightarrow> CHR '':'' \<in> set (hexes gs)"
  by (cases gs; cases "tl gs") auto

lemma find_unique: "x \<in> set s \<Longrightarrow> P x \<Longrightarrow> (\<And>c. c \<in> set s \<Longrightarrow> P c \<Longrightarrow> c = x) \<Longrightarrow> find P s = Some x"
  by (metis find_None_iff find_Some_iff nth_mem option.exhaust)

lemma string6_cases:
  obtains "string6 p = hexes (groups p)" | as bs where "string6 p = hexes as @ ''::'' @ hexes bs"
proof (cases "best_run (groups p)")
  case (Pair s l)
  then have "string6 p = (if l = 0 then hexes (groups p)
      else hexes (take s (groups p)) @ ''::'' @ hexes (drop (s + l) (groups p)))"
    by (simp add: string6_hexes Let_def)
  with that show ?thesis by metis
qed

lemma ParseAddr_string6:
  assumes "length p = 16"
  shows "ParseAddr (string6 p) = Some (Addr6 p)"
proof -
  have "c \<in> set (string6 p) \<Longrightarrow> is_hex c \<or> c = CHR '':''" for c
    by (cases p rule: string6_cases) (auto dest: set_hexes)
  then have no: "CHR ''.'' \<notin> set (string6 p)" "CHR 0x25 \<notin> set (string6 p)" using not_hex by auto
  have colon: "CHR '':'' \<in> set (string6 p)"
    using colon_in_hexes[of "groups p"] assms by (cases p rule: string6_cases) (simp_all add: length_groups)
  have "find (\<lambda>c. c = CHR ''.'' \<or> c = CHR '':'' \<or> c = CHR 0x25) (string6 p) = Some (CHR '':'')"
    by (rule find_unique) (use colon no in auto)
  then show ?thesis using no parseIPv6_string6[OF assms] by (simp add: ParseAddr_def)
qed

lemma ParseIP_IP_String:
  assumes "length p = 16"
  shows "ParseIP (IP_String p) = Some p"
proof (cases "To4 p")
  case None
  then show ?thesis using ParseAddr_string6[OF assms] by (simp add: ParseIP_def IP_String_def)
next
  case (Some b)
  then have "length b = 4" "p = v4InV6Prefix @ b"
    using assms by (auto simp: To4_def split: if_splits) (metis append_take_drop_id)
  then show ?thesis using Some ParseAddr_string4 by (simp add: ParseIP_def IP_String_def)
qed

text \<open>The text of an address has no space in it and is ASCII.\<close>

lemma is_hex_plain: "is_hex c \<Longrightarrow> plain c"
  by (auto simp: is_hex_def hex_val_def plain_def is_ascii_def ascii_space_def Let_def split: if_splits)

lemma digit_hex: "digit_val c \<noteq> None \<Longrightarrow> is_hex c"
  by (auto simp: digit_val_def is_hex_def hex_val_def Let_def split: if_splits)

lemma plain_separators: "plain (CHR ''.'')" "plain (CHR '':'')"
  by (simp_all add: plain_def is_ascii_def ascii_space_def)

lemma IP_String_chars: "c \<in> set (IP_String p) \<Longrightarrow> is_hex c \<or> c = CHR '':'' \<or> c = CHR ''.''"
proof (cases "To4 p")
  case None
  assume "c \<in> set (IP_String p)"
  then have "c = CHR '':'' \<or> (\<exists>gs. c \<in> set (Join (map hex_digits gs) '':''))"
    using None by (auto simp: IP_String_def string6_def Let_def split: prod.splits if_splits)
  then show ?thesis by (auto dest!: set_Join set_hex_digits)
next
  case (Some b)
  assume "c \<in> set (IP_String p)"
  then have "c \<in> set ''.'' \<or> (\<exists>s \<in> set (map (\<lambda>b. nat_digits (unat b)) b). c \<in> set s)"
    using Some by (intro set_Join) (simp add: IP_String_def string4_def)
  then show ?thesis using set_nat_digits digit_hex by auto
qed

lemma IP_String_plain: "c \<in> set (IP_String p) \<Longrightarrow> plain c"
  by (auto dest!: IP_String_chars simp: is_hex_plain plain_separators)

lemma TrimSpace_IP_String: "TrimSpace (IP_String p) = IP_String p"
  by (rule TrimSpace_plain) (use IP_String_plain[of _ p] in \<open>cases "IP_String p"; auto\<close>)

section \<open>Networks as bit prefixes\<close>

definition byte_bits :: "byte \<Rightarrow> bool list" where
  "byte_bits b = map (\<lambda>i. bit b (7 - i)) [0..<8]"

definition bits_of :: "ip \<Rightarrow> bool list" where
  "bits_of p = concat (map byte_bits p)"

definition mask_byte :: "nat \<Rightarrow> byte" where
  "mask_byte k = of_nat (256 - 2 ^ (8 - min 8 k))"

lemma length_byte_bits [simp]: "length (byte_bits b) = 8"
  by (simp add: byte_bits_def)

lemma bits_of_simps [simp]:
  "bits_of [] = []" "bits_of (b # p) = byte_bits b @ bits_of p" "bits_of (p @ q) = bits_of p @ bits_of q"
  by (simp_all add: bits_of_def)

lemma length_bits_of [simp]: "length (bits_of p) = 8 * length p"
  by (induction p) auto

lemma take_bits_of: "take (8 * k) (bits_of p) = bits_of (take k p)"
proof (induction p arbitrary: k)
  case (Cons b p)
  then show ?case by (cases k) auto
qed simp

lemma byte_bits_inj: "byte_bits a = byte_bits b \<longleftrightarrow> a = b"
proof
  assume "byte_bits a = byte_bits b"
  then have "bit a i = bit b i" if "i < 8" for i
    using that by (auto simp: byte_bits_def dest: bspec[of _ _ "7 - i"])
  then show "a = b" by (intro bit_word_eqI) simp
qed simp

lemma bits_of_inj: "length p = length q \<Longrightarrow> bits_of p = bits_of q \<longleftrightarrow> p = q"
  by (induction p q rule: list_induct2) (simp_all add: byte_bits_inj)

lemma CIDRMask_Suc: "CIDRMask n (8 * Suc k) = mask_byte n # CIDRMask (n - 8) (8 * k)"
proof -
  have "CIDRMask n (8 * Suc k) = map (\<lambda>i. mask_byte (n - 8 * i)) (0 # map Suc [0..<k])"
    unfolding CIDRMask_def mask_byte_def by (subst upt_conv_Cons[symmetric] map_Suc_upt)+ (simp_all add: map_Suc_upt)
  then show ?thesis by (simp add: CIDRMask_def mask_byte_def)
qed

lemma length_CIDRMask [simp]: "length (CIDRMask n bits) = bits div 8"
  by (simp add: CIDRMask_def)

lemma bit_mask_byte: "bit (mask_byte k) i \<longleftrightarrow> i < 8 \<and> 8 \<le> i + k"
proof -
  have *: "bit (mask_byte k :: byte) i \<longleftrightarrow> i < 8 \<and> 8 \<le> i + k" if "k \<in> {0, 1, 2, 3, 4, 5, 6, 7, 8}" "i \<in> {0, 1, 2, 3, 4, 5, 6, 7}" for k i
    using that by (auto simp: mask_byte_def bit_simps)
  have eight: "mask_byte k = mask_byte 8" if "8 \<le> k" using that by (simp add: mask_byte_def)
  show ?thesis
  proof (cases "i < 8")
    case True
    then have "i \<in> {0, 1, 2, 3, 4, 5, 6, 7}" by auto
    moreover have "k < 8 \<Longrightarrow> k \<in> {0, 1, 2, 3, 4, 5, 6, 7, 8}" by auto
    ultimately show ?thesis using *[of k i] *[of 8 i] eight by (cases "k < 8") auto
  next
    case False
    then show ?thesis by (simp add: bit_eq_iff impossible_bit)
  qed
qed

lemma and_mask_byte: "x AND mask_byte k = y AND mask_byte k \<longleftrightarrow> take k (byte_bits x) = take k (byte_bits y)"
proof
  assume eq: "x AND mask_byte k = y AND mask_byte k"
  have "bit x (7 - i) = bit y (7 - i)" if "i < k" "i < 8" for i
  proof -
    have "bit (x AND mask_byte k) (7 - i) = bit (y AND mask_byte k) (7 - i)" by (simp add: eq)
    moreover have "7 - i < 8" "8 \<le> 7 - i + k" using that by auto
    ultimately show ?thesis by (simp only: bit_and_iff bit_mask_byte) simp
  qed
  then show "take k (byte_bits x) = take k (byte_bits y)"
    by (intro nth_equalityI) (auto simp: byte_bits_def)
next
  assume eq: "take k (byte_bits x) = take k (byte_bits y)"
  have "bit x i = bit y i" if "i < 8" "8 \<le> i + k" for i
    using that arg_cong[OF eq, of "\<lambda>l. l ! (7 - i)"] nth_upt[of 0 "7 - i" 8] by (simp add: byte_bits_def)
  then show "x AND mask_byte k = y AND mask_byte k"
    by (intro bit_word_eqI) (auto simp: bit_and_iff bit_mask_byte)
qed

definition masked_eq :: "ip \<Rightarrow> ip \<Rightarrow> byte list \<Rightarrow> bool" where
  "masked_eq p q m = list_all (\<lambda>(x, y, k). x AND k = y AND k) (zip p (zip q m))"

lemma masked_eq_CIDRMask:
  "length p = length q \<Longrightarrow>
   masked_eq (map2 (AND) p (CIDRMask n (8 * length p))) q (CIDRMask n (8 * length p)) \<longleftrightarrow>
   take n (bits_of p) = take n (bits_of q)"
proof (induction p q arbitrary: n rule: list_induct2)
  case (Cons x xs y ys)
  have "masked_eq (map2 (AND) xs (CIDRMask (n - 8) (8 * length xs))) ys (CIDRMask (n - 8) (8 * length xs)) \<longleftrightarrow>
      take (n - 8) (bits_of xs) = take (n - 8) (bits_of ys)" by (rule Cons.IH)
  then show ?case
    using and_mask_byte[of x n y]
    by (simp add: masked_eq_def CIDRMask_Suc and.assoc del: mult_Suc_right)
qed (simp add: masked_eq_def)


section \<open>What a parsed network contains\<close>

definition is_v4 :: "ip \<Rightarrow> bool" where
  "is_v4 p \<longleftrightarrow> To4 p \<noteq> None"

text \<open>
  The meaning of an address with a prefix length: the address agrees with it on that many leading
  bits of the 16-byte form (an IPv4 prefix comes after the 96 bits of the mapping), and an IPv4
  address only belongs to networks whose prefix covers the mapping.
\<close>

definition in_prefix :: "addr \<Rightarrow> nat \<Rightarrow> ip \<Rightarrow> bool" where
  "in_prefix a n p =
    (let k = (case a of Addr4 _ \<Rightarrow> 96 + n | Addr6 _ \<Rightarrow> n)
     in take k (bits_of (As16 a)) = take k (bits_of p) \<and> (is_v4 p \<longrightarrow> 96 \<le> k))"

lemma length_v4InV6Prefix [simp]: "length v4InV6Prefix = 12"
  by (simp add: v4InV6Prefix_def)

lemma is_v4_split: "length p = 16 \<Longrightarrow> is_v4 p \<Longrightarrow> p = v4InV6Prefix @ drop 12 p \<and> To4 p = Some (drop 12 p)"
  by (auto simp: is_v4_def To4_def split: if_splits) (metis append_take_drop_id)

lemma To4_not_v4: "\<not> is_v4 p \<Longrightarrow> To4 p = None"
  by (simp add: is_v4_def)

lemma take_96_agree:
  assumes "take k (bits_of p) = take k (bits_of q)" and "96 \<le> k" and "12 \<le> length p" and "12 \<le> length q"
  shows "take 12 p = take 12 q"
proof -
  have "bits_of (take 12 p) = take 96 (take k (bits_of p))" using assms(2) take_bits_of[of 12 p] by simp
  also have "\<dots> = bits_of (take 12 q)" using assms(1,2) take_bits_of[of 12 q] by simp
  finally show ?thesis using assms(3,4) by (subst (asm) bits_of_inj) auto
qed

lemma Contains_prefix4:
  assumes "length b = 4" and "n \<le> 32" and "length p = 16"
  shows "Contains_IP \<lparr>net_IP = map2 (AND) b (CIDRMask n 32), net_Mask = CIDRMask n 32\<rparr> p
    \<longleftrightarrow> in_prefix (Addr4 b) n p"
proof (cases "is_v4 p")
  case True
  note sp = is_v4_split[OF assms(3) True]
  have "take (96 + n) (bits_of (v4InV6Prefix @ b)) = take (96 + n) (bits_of (v4InV6Prefix @ drop 12 p)) \<longleftrightarrow>
      take n (bits_of b) = take n (bits_of (drop 12 p))" by simp
  then have "in_prefix (Addr4 b) n p \<longleftrightarrow> take n (bits_of b) = take n (bits_of (drop 12 p))"
    using True sp by (simp add: in_prefix_def Let_def)
  moreover have "masked_eq (map2 (AND) b (CIDRMask n 32)) (drop 12 p) (CIDRMask n 32)
      \<longleftrightarrow> take n (bits_of b) = take n (bits_of (drop 12 p))"
    using masked_eq_CIDRMask[of b "drop 12 p" n] assms by simp
  ultimately show ?thesis using sp assms
    by (simp add: Contains_IP_def networkNumberAndMask_def To4_def masked_eq_def)
next
  case False
  have "take (96 + n) (bits_of (v4InV6Prefix @ b)) \<noteq> take (96 + n) (bits_of p)"
    using take_96_agree[of "96 + n" "v4InV6Prefix @ b" p] False assms by (auto simp: is_v4_def To4_def)
  then have "\<not> in_prefix (Addr4 b) n p" by (auto simp: in_prefix_def Let_def)
  then show ?thesis using To4_not_v4[OF False] assms
    by (simp add: Contains_IP_def networkNumberAndMask_def To4_def)
qed


lemma CIDRMask_nth: "i < bits div 8 \<Longrightarrow> CIDRMask n bits ! i = mask_byte (n - 8 * i)"
  by (simp add: CIDRMask_def mask_byte_def)

lemma mask_byte_full: "8 \<le> k \<Longrightarrow> x AND mask_byte k = x"
  by (rule bit_word_eqI) (auto simp: bit_and_iff bit_mask_byte)

text \<open>A masked 16-byte network is in IPv4 form exactly when the prefix covers the mapping.\<close>

lemma masked_v4:
  assumes "length b = 16"
  shows "is_v4 (map2 (AND) b (CIDRMask n 128)) \<longleftrightarrow> 96 \<le> n \<and> is_v4 b"
proof -
  let ?r = "map2 (AND) b (CIDRMask n 128)"
  have len: "length ?r = 16" using assms by simp
  have at: "?r ! i = b ! i AND mask_byte (n - 8 * i)" if "i < 16" for i
    using that assms by (simp add: CIDRMask_nth)
  show ?thesis
  proof (cases "96 \<le> n")
    case True
    have "take 12 ?r = take 12 b"
    proof (rule nth_equalityI)
      fix i assume "i < length (take 12 ?r)"
      then have "i < 12" by simp
      then have "8 \<le> n - 8 * i" using True by linarith
      then show "take 12 ?r ! i = take 12 b ! i" using at[of i] \<open>i < 12\<close> by (simp add: mask_byte_full)
    qed (use assms in simp)
    then show ?thesis using True assms by (simp add: is_v4_def To4_def)
  next
    case False
    have "take 12 ?r ! 11 \<noteq> v4InV6Prefix ! 11"
    proof -
      have "\<not> bit (?r ! 11) 0" using at[of 11] False by (simp add: bit_and_iff bit_mask_byte) linarith
      moreover have "bit (v4InV6Prefix ! 11) 0" by (simp add: v4InV6Prefix_def eval_nat_numeral)
      ultimately show ?thesis by (auto simp: nth_take)
    qed
    then have "take 12 ?r \<noteq> v4InV6Prefix" by metis
    then show ?thesis using False len by (simp add: is_v4_def To4_def)
  qed
qed

lemma masked_eq_append:
  "length p = length q \<Longrightarrow> length q = length m \<Longrightarrow>
   masked_eq (p @ p') (q @ q') (m @ m') \<longleftrightarrow> masked_eq p q m \<and> masked_eq p' q' m'"
  by (simp add: masked_eq_def)

lemma masked_eq_refl: "masked_eq p p m"
  by (auto simp: masked_eq_def list_all_iff set_zip)


lemma Contains_prefix6:
  assumes "length b = 16" and "n \<le> 128" and "length p = 16"
  shows "Contains_IP \<lparr>net_IP = map2 (AND) b (CIDRMask n 128), net_Mask = CIDRMask n 128\<rparr> p
    \<longleftrightarrow> in_prefix (Addr6 b) n p"
proof -
  let ?m = "CIDRMask n 128" and ?r = "map2 (AND) b (CIDRMask n 128)"
  have len: "length ?r = 16" "length ?m = 16" using assms by simp_all
  have bits: "masked_eq ?r p ?m \<longleftrightarrow> take n (bits_of b) = take n (bits_of p)"
    using masked_eq_CIDRMask[of b p n] assms by simp
  have spec: "in_prefix (Addr6 b) n p \<longleftrightarrow> masked_eq ?r p ?m \<and> (is_v4 p \<longrightarrow> 96 \<le> n)"
    by (simp add: in_prefix_def bits)
  show ?thesis
  proof (cases "is_v4 ?r")
    case True
    then have n: "96 \<le> n" and b: "is_v4 b" using masked_v4[OF assms(1), of n] by simp_all
    note r = is_v4_split[OF len(1) True]
    show ?thesis
    proof (cases "is_v4 p")
      case p: True
      note q = is_v4_split[OF assms(3) p]
      have "masked_eq ?r p ?m \<longleftrightarrow> masked_eq (v4InV6Prefix @ drop 12 ?r) (v4InV6Prefix @ drop 12 p) (take 12 ?m @ drop 12 ?m)"
        using r q by simp
      also have "\<dots> \<longleftrightarrow> masked_eq (drop 12 ?r) (drop 12 p) (drop 12 ?m)"
        using len masked_eq_refl by (subst masked_eq_append) auto
      finally show ?thesis using r q spec n len assms
        by (simp add: Contains_IP_def networkNumberAndMask_def masked_eq_def)
    next
      case False
      have "take n (bits_of b) \<noteq> take n (bits_of p)"
        using take_96_agree[of n b p] False b n assms by (auto simp: is_v4_def To4_def split: if_splits)
      then show ?thesis using r spec bits len assms To4_not_v4[OF False]
        by (simp add: Contains_IP_def networkNumberAndMask_def)
    qed
  next
    case False
    note r = To4_not_v4[OF False]
    have nn: "networkNumberAndMask \<lparr>net_IP = ?r, net_Mask = ?m\<rparr> = Some (?r, ?m)"
      using r len by (simp add: networkNumberAndMask_def)
    show ?thesis
    proof (cases "is_v4 p")
      case p: True
      have "\<not> in_prefix (Addr6 b) n p"
      proof
        assume "in_prefix (Addr6 b) n p"
        then have "96 \<le> n" "take n (bits_of b) = take n (bits_of p)" using p by (simp_all add: in_prefix_def)
        then have "is_v4 b" using take_96_agree[of n b p] p assms by (auto simp: is_v4_def To4_def split: if_splits)
        then show False using \<open>96 \<le> n\<close> False masked_v4[OF assms(1), of n] by simp
      qed
      then show ?thesis using is_v4_split[OF assms(3) p] nn len assms by (simp add: Contains_IP_def)
    next
      case p: False
      then show ?thesis using To4_not_v4[OF p] nn spec len assms by (simp add: Contains_IP_def masked_eq_def)
    qed
  qed
qed

text \<open>The meaning of one item of a network list.\<close>

definition in_cidr :: "string \<Rightarrow> ip \<Rightarrow> bool" where
  "in_cidr s p =
    (let host = hd (Split s (CHR ''/'')); mask = drop (Suc (length host)) s
     in case (ParseAddr host, dtoi 0 mask) of
          (Some a, Some n) \<Rightarrow> in_prefix a n p
        | _ \<Rightarrow> False)"

lemma length_parseIPv4Fields: "parseIPv4Fields s = Some b \<Longrightarrow> length b = 4"
  by (auto simp: parseIPv4Fields_def split: list.splits option.splits)

lemma v6_loop_length:
  "v6_loop n bs ell s = Some (bs', e, r) \<Longrightarrow> length bs + 2 * n = 16 \<Longrightarrow>
   (\<forall>k. ell = Some k \<longrightarrow> k \<le> length bs) \<Longrightarrow> length bs' \<le> 16 \<and> (\<forall>k. e = Some k \<longrightarrow> k \<le> length bs')"
proof (induction n arbitrary: bs ell s)
  case (Suc n)
  let ?ds = "takeWhile is_hex s" and ?rest = "dropWhile is_hex s"
  let ?bs = "bs @ [of_nat (hex_acc 0 ?ds div 256), of_nat (hex_acc 0 ?ds mod 256)]"
  from Suc.prems(1) consider v4 where "parseIPv4Fields s = Some v4" "bs' = bs @ v4" "e = ell" "length bs + 4 \<le> 16"
    | "bs' = ?bs" "e = ell" | "bs' = ?bs" "e = Some (length ?bs)"
    | "v6_loop n ?bs (Some (length ?bs)) (tl (tl ?rest)) = Some (bs', e, r)"
    | "v6_loop n ?bs ell (tl ?rest) = Some (bs', e, r)"
    unfolding v6_loop.simps Let_def by (simp split: if_splits option.splits)
  then show ?case
  proof cases
    case 1
    then show ?thesis using length_parseIPv4Fields[OF 1(1)] Suc.prems by auto
  next
    case 4
    from Suc.IH[OF 4] Suc.prems show ?thesis by simp
  next
    case 5
    from Suc.IH[OF 5] Suc.prems show ?thesis by fastforce
  qed (use Suc.prems in auto)
qed auto

lemma length_parseIPv6:
  assumes "parseIPv6 s = Some b"
  shows "length b = 16"
proof (cases "prefix ''::'' s \<and> drop 2 s = []")
  case True
  then show ?thesis using assms by (auto simp: parseIPv6_def)
next
  case False
  then obtain ell t bs e where run: "v6_loop 8 [] ell t = Some (bs, e, [])" "\<forall>k. ell = Some k \<longrightarrow> k = 0"
    and b: "if length bs < 16 then e \<noteq> None \<and> b = take (the e) bs @ replicate (16 - length bs) 0 @ drop (the e) bs
      else b = bs"
    using assms by (auto simp: parseIPv6_def Let_def simp del: v6_loop.simps split: if_splits option.splits prod.splits)
  have "length bs \<le> 16 \<and> (\<forall>k. e = Some k \<longrightarrow> k \<le> length bs)"
    using v6_loop_length[OF run(1)] run(2) by simp
  then show ?thesis using b by (cases e) (auto split: if_splits)
qed

lemma ParseAddr_length: "ParseAddr s = Some a \<Longrightarrow> (case a of Addr4 b \<Rightarrow> length b = 4 | Addr6 b \<Rightarrow> length b = 16)"
  by (auto simp: ParseAddr_def split: option.splits if_splits dest: length_parseIPv4Fields length_parseIPv6)

lemma ParseIP_length: "ParseIP s = Some p \<Longrightarrow> length p = 16"
  by (auto simp: ParseIP_def dest!: ParseAddr_length split: addr.splits)

lemma ParseCIDR_Contains:
  assumes "ParseCIDR s = Inr net" and "length p = 16"
  shows "Contains_IP net p \<longleftrightarrow> in_cidr s p"
proof -
  let ?h = "hd (Split s (CHR ''/''))"
  obtain a n where a: "ParseAddr ?h = Some a" and n: "dtoi 0 (drop (Suc (length ?h)) s) = Some n"
    and le: "n \<le> (case a of Addr4 _ \<Rightarrow> 32 | Addr6 _ \<Rightarrow> 128)"
    and net: "net = \<lparr>net_IP = (case IP_Mask (As16 a) (CIDRMask n (case a of Addr4 _ \<Rightarrow> 32 | Addr6 _ \<Rightarrow> 128)) of None \<Rightarrow> [] | Some p \<Rightarrow> p),
      net_Mask = CIDRMask n (case a of Addr4 _ \<Rightarrow> 32 | Addr6 _ \<Rightarrow> 128)\<rparr>"
    using assms(1) by (auto simp: ParseCIDR_def Let_def split: if_splits option.splits)
  have spec: "in_cidr s p = in_prefix a n p" by (simp add: in_cidr_def a n)
  show ?thesis
  proof (cases a)
    case (Addr4 b)
    then have "length b = 4" using ParseAddr_length[OF a] by simp
    then show ?thesis using Addr4 net spec Contains_prefix4[of b n p] le assms(2) by (simp add: IP_Mask_def)
  next
    case (Addr6 b)
    then have "length b = 16" using ParseAddr_length[OF a] by simp
    then show ?thesis using Addr6 net spec Contains_prefix6[of b n p] le assms(2) by (simp add: IP_Mask_def)
  qed
qed

lemma containsIP_ex: "containsIP ns p \<longleftrightarrow> (\<exists>n \<in> set ns. Contains_IP n p)"
  by (induction ns) auto

lemma parse_networks_loop_contains:
  "parse_networks_loop items = Inr ns \<Longrightarrow> length p = 16 \<Longrightarrow>
   containsIP ns p \<longleftrightarrow> (\<exists>item \<in> set items. TrimSpace item \<noteq> [] \<and> in_cidr (TrimSpace item) p)"
proof (induction items arbitrary: ns)
  case (Cons item items)
  then show ?case
    by (auto simp: Let_def ParseCIDR_Contains split: if_splits sum.splits)
qed simp

lemma parse_networks_loop_error:
  "(\<exists>x. parse_networks_loop items = Inl x) \<longleftrightarrow>
   (\<exists>item \<in> set items. TrimSpace item \<noteq> [] \<and> (\<exists>x. ParseCIDR (TrimSpace item) = Inl x))"
  by (induction items) (auto simp: Let_def split: if_splits sum.splits)

text \<open>
  C13. A parsed network list means what it says. When \<^verbatim>\<open>parseNetworks\<close> accepts the list,
  \<^verbatim>\<open>containsIP\<close> holds of an address exactly when one of the comma-separated, trimmed, non-empty
  items is an address with a prefix length whose leading bits the address has; and the list is
  refused exactly when one of those items is not a network.
\<close>

theorem allowlist_exact:
  assumes "ParseIP s = Some p"
  shows "case parseNetworks v of
      Inl x \<Rightarrow> \<exists>item \<in> set (Split v (CHR '','')). TrimSpace item \<noteq> [] \<and> (\<exists>y. ParseCIDR (TrimSpace item) = Inl y)
    | Inr ns \<Rightarrow> (\<forall>item \<in> set (Split v (CHR '','')). TrimSpace item \<noteq> [] \<longrightarrow> (\<exists>n. ParseCIDR (TrimSpace item) = Inr n))
        \<and> (containsIP ns p \<longleftrightarrow>
              (\<exists>item \<in> set (Split v (CHR '','')). TrimSpace item \<noteq> [] \<and> in_cidr (TrimSpace item) p))"
proof (cases "parseNetworks v")
  case (Inl x)
  then show ?thesis using parse_networks_loop_error[of "Split v (CHR '','')"] by (simp add: parseNetworks_def)
next
  case (Inr ns)
  then have "\<nexists>x. parse_networks_loop (Split v (CHR '','')) = Inl x" by (simp add: parseNetworks_def)
  then have "\<forall>item \<in> set (Split v (CHR '','')). TrimSpace item \<noteq> [] \<longrightarrow> (\<exists>n. ParseCIDR (TrimSpace item) = Inr n)"
    unfolding parse_networks_loop_error by (metis sum.exhaust)
  then show ?thesis using Inr parse_networks_loop_contains[OF _ ParseIP_length[OF assms]] by (simp add: parseNetworks_def)
qed

theorem allowlist_exact_witness:
  "containsIP [\<lparr>net_IP = [127, 0, 0, 0], net_Mask = [255, 0, 0, 0]\<rparr>] (v4InV6Prefix @ [127, 9, 9, 9]) \<longleftrightarrow>
    in_cidr ''127.0.0.0/8'' (v4InV6Prefix @ [127, 9, 9, 9])"
proof -
  have ip: "ParseIP ''127.9.9.9'' = Some (v4InV6Prefix @ [127, 9, 9, 9])"
    by (simp add: ParseIP_def ParseAddr_def parseIPv4Fields_def parse_octet_def digit_val_def)
  have net: "parseNetworks ''127.0.0.0/8'' = Inr [\<lparr>net_IP = [127, 0, 0, 0], net_Mask = [255, 0, 0, 0]\<rparr>]"
    by (simp add: parseNetworks_def plain_eval ParseCIDR_def ParseAddr_def parseIPv4Fields_def parse_octet_def
        digit_val_def IP_Mask_def v4InV6Prefix_def CIDRMask_def upt_rec Let_def)
  from allowlist_exact[OF ip, of "''127.0.0.0/8''"] show ?thesis
    by (simp add: net plain_eval)
qed

lemma example_ip: "ParseIP ''203.0.113.9'' = Some (v4InV6Prefix @ [203, 0, 113, 9])"
  by (simp add: ParseIP_def ParseAddr_def parseIPv4Fields_def parse_octet_def digit_val_def)

end
