(* ===== verification/Json.thy ===== *)
theory Json
  imports Prelude
begin

text \<open>
  Go's package \<^verbatim>\<open>encoding/json\<close> as the program uses it: the syntax of JSON texts with the decoder's
  treatment of escapes and of bytes that are not UTF-8, decoding into structs and into
  \<^verbatim>\<open>map[string]interface{}\<close>, and the encoder with its escaping of HTML characters. What the
  encoder writes the decoder reads back.
\<close>

section \<open>Values\<close>

text \<open>A number is kept as its literal: what becomes of it depends on where it is decoded to.\<close>

datatype json = JNull | JBool bool | JNum string | JStr string | JArr "json list" | JObj "(string \<times> json) list"

section \<open>UTF-8\<close>

abbreviation byte_val :: "char \<Rightarrow> nat" where
  "byte_val c \<equiv> of_char c"

definition byte_in :: "nat \<Rightarrow> nat \<Rightarrow> nat \<Rightarrow> string \<Rightarrow> bool" where
  "byte_in lo hi i s \<longleftrightarrow> i < length s \<and> lo \<le> byte_val (s ! i) \<and> byte_val (s ! i) \<le> hi"

text \<open>\<^verbatim>\<open>utf8.DecodeRune\<close>: the length of the encoding a string starts with, \<open>None\<close> when it is invalid.\<close>

definition utf8_len :: "string \<Rightarrow> nat option" where
  "utf8_len s =
    (let lead = (\<lambda>lo hi. byte_in lo hi 0 s); next = (\<lambda>lo hi. byte_in lo hi 1 s); cont = (\<lambda>i. byte_in 0x80 0xBF i s)
     in if lead 0x00 0x7F then Some 1
        else if lead 0xC2 0xDF \<and> cont 1 then Some 2
        else if (lead 0xE0 0xE0 \<and> next 0xA0 0xBF \<or> lead 0xE1 0xEC \<and> cont 1 \<or> lead 0xED 0xED \<and> next 0x80 0x9F
                 \<or> lead 0xEE 0xEF \<and> cont 1) \<and> cont 2 then Some 3
        else if (lead 0xF0 0xF0 \<and> next 0x90 0xBF \<or> lead 0xF1 0xF3 \<and> cont 1 \<or> lead 0xF4 0xF4 \<and> next 0x80 0x8F)
                 \<and> cont 2 \<and> cont 3 then Some 4
        else None)"

lemma utf8_len_bounds: "utf8_len s = Some n \<Longrightarrow> 0 < n \<and> n \<le> length s"
  by (auto simp: utf8_len_def byte_in_def Let_def Suc_le_eq split: if_splits)

lemma byte_in_append: "i < length s \<Longrightarrow> byte_in lo hi i (s @ t) = byte_in lo hi i s"
  by (auto simp: byte_in_def nth_append)

text \<open>Only the bytes of the encoding itself matter.\<close>

lemma utf8_len_take: "utf8_len s = Some n \<Longrightarrow> utf8_len (take n s @ t) = Some n"
proof -
  assume n: "utf8_len s = Some n"
  have "byte_in lo hi i (take n s @ t) = byte_in lo hi i s" if "i < n" for lo hi i
    using utf8_len_bounds[OF n] that by (simp add: byte_in_def nth_append)
  moreover have "n \<in> {1, 2, 3, 4}" using n by (auto simp: utf8_len_def Let_def split: if_splits)
  ultimately show ?thesis using n by (auto simp: utf8_len_def Let_def split: if_splits)
qed

function valid_utf8 :: "string \<Rightarrow> bool" where
  "valid_utf8 s = (if s = [] then True else case utf8_len s of None \<Rightarrow> False | Some n \<Rightarrow> valid_utf8 (drop n s))"
  by pat_completeness auto
termination by (relation "measure length") (auto dest: utf8_len_bounds)

declare valid_utf8.simps [simp del]

definition utf8_encode :: "nat \<Rightarrow> string" where
  "utf8_encode r =
    (if r < 0x80 then [char_of r]
     else if r < 0x800 then [char_of (0xC0 + r div 64), char_of (0x80 + r mod 64)]
     else if r < 0x10000 then [char_of (0xE0 + r div 4096), char_of (0x80 + r div 64 mod 64), char_of (0x80 + r mod 64)]
     else [char_of (0xF0 + r div 262144), char_of (0x80 + r div 4096 mod 64), char_of (0x80 + r div 64 mod 64), char_of (0x80 + r mod 64)])"

definition RuneError :: nat where "RuneError = 0xFFFD"

section \<open>Strings\<close>

definition hex_num :: "char \<Rightarrow> nat option" where
  "hex_num c = (let n = byte_val c in
     if 48 \<le> n \<and> n \<le> 57 then Some (n - 48)
     else if 97 \<le> n \<and> n \<le> 102 then Some (n - 87)
     else if 65 \<le> n \<and> n \<le> 70 then Some (n - 55) else None)"

text \<open>\<^verbatim>\<open>getu4\<close>: the number of the four hexadecimal digits a string starts with.\<close>

fun getu4 :: "string \<Rightarrow> nat option" where
  "getu4 (a # b # c # d # s) =
    (case (hex_num a, hex_num b, hex_num c, hex_num d) of
       (Some p, Some q, Some r, Some t) \<Rightarrow> Some (4096 * p + 256 * q + 16 * r + t)
     | _ \<Rightarrow> None)"
| "getu4 _ = None"

definition high_surrogate :: "nat \<Rightarrow> bool" where "high_surrogate r \<longleftrightarrow> 0xD800 \<le> r \<and> r < 0xDC00"
definition low_surrogate :: "nat \<Rightarrow> bool" where "low_surrogate r \<longleftrightarrow> 0xDC00 \<le> r \<and> r < 0xE000"

text \<open>
  The rune of an escape \<^verbatim>\<open>\uXXXX\<close> and the number of bytes after it that a second half of a
  surrogate pair takes; half a pair stands for the replacement character.
\<close>

definition escaped_rune :: "nat \<Rightarrow> string \<Rightarrow> nat \<times> nat" where
  "escaped_rune r s =
    (if high_surrogate r \<or> low_surrogate r then
       (case (if high_surrogate r \<and> prefix [CHR 0x5C, CHR ''u''] s then getu4 (drop 2 s) else None) of
          Some r2 \<Rightarrow> if low_surrogate r2 then (0x10000 + (r - 0xD800) * 0x400 + (r2 - 0xDC00), 6) else (RuneError, 0)
        | None \<Rightarrow> (RuneError, 0))
     else (r, 0))"

definition simple_escape :: "char \<Rightarrow> char option" where
  "simple_escape c =
    (if c \<in> {CHR 0x22, CHR 0x5C, CHR ''/''} then Some c
     else if c = CHR ''b'' then Some (CHR 0x08) else if c = CHR ''f'' then Some (CHR 0x0C)
     else if c = CHR ''n'' then Some (CHR 0x0A) else if c = CHR ''r'' then Some (CHR 0x0D)
     else if c = CHR ''t'' then Some (CHR 0x09) else None)"

definition prepend :: "'a list \<Rightarrow> ('a list \<times> 'b) option \<Rightarrow> ('a list \<times> 'b) option" where
  "prepend w r = (case r of None \<Rightarrow> None | Some (t, rest) \<Rightarrow> Some (w @ t, rest))"

text \<open>
  The rest of a string literal after its opening quote: its value and what follows the closing
  quote. A byte that starts no valid encoding becomes the replacement character.
\<close>

function unquote :: "string \<Rightarrow> (string \<times> string) option" where
  "unquote [] = None"
| "unquote (c # s) =
    (if c = CHR 0x22 then Some ([], s)
     else if c = CHR 0x5C then
       (case s of [] \<Rightarrow> None
        | e # t \<Rightarrow>
           if e = CHR ''u'' then
             (case getu4 t of None \<Rightarrow> None
              | Some r \<Rightarrow> (let u = drop 4 t; (rune, k) = escaped_rune r u
                          in prepend (utf8_encode rune) (unquote (drop k u))))
           else (case simple_escape e of None \<Rightarrow> None | Some x \<Rightarrow> prepend [x] (unquote t)))
     else if byte_val c < 0x20 then None
     else (case utf8_len (c # s) of
             Some n \<Rightarrow> prepend (take n (c # s)) (unquote (drop n (c # s)))
           | None \<Rightarrow> prepend (utf8_encode RuneError) (unquote s)))"
  by pat_completeness auto
termination
  by (relation "measure length") (auto dest: utf8_len_bounds split: prod.splits)

declare unquote.simps [simp del]

section \<open>Numbers\<close>

definition is_dig :: "char \<Rightarrow> bool" where
  "is_dig c \<longleftrightarrow> digit_val c \<noteq> None"

definition digits1 :: "string \<Rightarrow> (string \<times> string) option" where
  "digits1 s = (if takeWhile is_dig s = [] then None else Some (takeWhile is_dig s, dropWhile is_dig s))"

definition num_sign :: "string \<Rightarrow> string \<times> string" where
  "num_sign s = (if s \<noteq> [] \<and> hd s = CHR ''-'' then (''-'', tl s) else ([], s))"

definition num_int :: "string \<Rightarrow> (string \<times> string) option" where
  "num_int s = (if s \<noteq> [] \<and> hd s = CHR ''0'' then Some (''0'', tl s) else digits1 s)"

definition num_frac :: "string \<Rightarrow> (string \<times> string) option" where
  "num_frac s = (if s \<noteq> [] \<and> hd s = CHR ''.'' then prepend ''.'' (digits1 (tl s)) else Some ([], s))"

definition num_exp :: "string \<Rightarrow> (string \<times> string) option" where
  "num_exp s =
    (if s \<noteq> [] \<and> hd s \<in> {CHR ''e'', CHR ''E''} then
       (let t = tl s in
        if t \<noteq> [] \<and> hd t \<in> {CHR ''+'', CHR ''-''} then prepend [hd s, hd t] (digits1 (tl t)) else prepend [hd s] (digits1 t))
     else Some ([], s))"

definition parse_number :: "string \<Rightarrow> (string \<times> string) option" where
  "parse_number s =
    (case num_sign s of (sg, s1) \<Rightarrow>
      (case num_int s1 of None \<Rightarrow> None | Some (i, s2) \<Rightarrow>
      (case num_frac s2 of None \<Rightarrow> None | Some (f, s3) \<Rightarrow>
      (case num_exp s3 of None \<Rightarrow> None | Some (e, s4) \<Rightarrow> Some (sg @ i @ f @ e, s4)))))"

section \<open>Texts\<close>

definition json_space :: "char \<Rightarrow> bool" where
  "json_space c \<longleftrightarrow> c \<in> {CHR '' '', CHR 0x09, CHR 0x0A, CHR 0x0D}"

abbreviation skip_ws :: "string \<Rightarrow> string" where
  "skip_ws s \<equiv> dropWhile json_space s"

definition literal :: "string \<Rightarrow> json \<Rightarrow> string \<Rightarrow> (json \<times> string) option" where
  "literal w v s = (if prefix w s then Some (v, drop (length w) s) else None)"

definition max_depth :: nat where "max_depth = 10000"

text \<open>
  The value a text starts with and the rest of the text, \<open>None\<close> on a syntax error; the first argument bounds
  the recursion (at most two calls follow each character read, so twice the length of the text is
  enough), the second is the depth of the nesting, limited to 10000.
\<close>

fun parse_value :: "nat \<Rightarrow> nat \<Rightarrow> string \<Rightarrow> (json \<times> string) option"
  and parse_elements :: "nat \<Rightarrow> nat \<Rightarrow> string \<Rightarrow> (json list \<times> string) option"
  and parse_members :: "nat \<Rightarrow> nat \<Rightarrow> string \<Rightarrow> ((string \<times> json) list \<times> string) option" where
  "parse_value 0 k s = None"
| "parse_value (Suc n) k s =
    (case skip_ws s of [] \<Rightarrow> None
     | c # t \<Rightarrow>
        if c = CHR ''{'' then
          (if k \<ge> max_depth then None
           else case skip_ws t of [] \<Rightarrow> None
             | d # u \<Rightarrow> if d = CHR ''}'' then Some (JObj [], u) else map_option (apfst JObj) (parse_members n (Suc k) t))
        else if c = CHR ''['' then
          (if k \<ge> max_depth then None
           else case skip_ws t of [] \<Rightarrow> None
             | d # u \<Rightarrow> if d = CHR '']'' then Some (JArr [], u) else map_option (apfst JArr) (parse_elements n (Suc k) t))
        else if c = CHR 0x22 then map_option (apfst JStr) (unquote t)
        else if c = CHR ''t'' then literal ''true'' (JBool True) (c # t)
        else if c = CHR ''f'' then literal ''false'' (JBool False) (c # t)
        else if c = CHR ''n'' then literal ''null'' JNull (c # t)
        else map_option (apfst JNum) (parse_number (c # t)))"
| "parse_elements 0 k s = None"
| "parse_elements (Suc n) k s =
    (case parse_value n k s of None \<Rightarrow> None
     | Some (v, t) \<Rightarrow>
        (case skip_ws t of [] \<Rightarrow> None
         | d # u \<Rightarrow> if d = CHR '']'' then Some ([v], u)
                   else if d = CHR '','' then prepend [v] (parse_elements n k u) else None))"
| "parse_members 0 k s = None"
| "parse_members (Suc n) k s =
    (case skip_ws s of [] \<Rightarrow> None
     | c # t \<Rightarrow>
        if c \<noteq> CHR 0x22 then None
        else case unquote t of None \<Rightarrow> None
        | Some (key, u) \<Rightarrow>
           (case skip_ws u of [] \<Rightarrow> None
            | d # w \<Rightarrow>
               if d \<noteq> CHR '':'' then None
               else case parse_value n k w of None \<Rightarrow> None
               | Some (v, x) \<Rightarrow>
                  (case skip_ws x of [] \<Rightarrow> None
                   | e # y \<Rightarrow> if e = CHR ''}'' then Some ([(key, v)], y)
                             else if e = CHR '','' then prepend [(key, v)] (parse_members n k y) else None)))"

declare parse_value.simps(2) [simp del] parse_elements.simps(2) [simp del] parse_members.simps(2) [simp del]

definition parse_json :: "string \<Rightarrow> (json \<times> string) option" where
  "parse_json s = parse_value (2 * length s + 2) 0 s"

section \<open>The bound on the recursion\<close>

lemma prepend_Some: "prepend w r = Some (t, u) \<longleftrightarrow> (\<exists>t'. r = Some (t', u) \<and> t = w @ t')"
  by (auto simp: prepend_def split: option.splits)

lemma unquote_shorter: "unquote s = Some (w, t) \<Longrightarrow> length t < length s"
proof (induction s arbitrary: w rule: unquote.induct)
  case 1
  then show ?case by (simp add: unquote.simps)
next
  case (2 c s)
  have step: "length t < length (c # s)" if "unquote u = Some (w', t)" "length u \<le> length s"
    "unquote u = Some (w', t) \<Longrightarrow> length t < length u" for u w'
    using that by simp
  consider "c = CHR 0x22" | "c = CHR 0x5C" | "c \<noteq> CHR 0x22" "c \<noteq> CHR 0x5C" by blast
  then show ?case
  proof cases
    case 1
    then show ?thesis using 2 by (simp add: unquote.simps)
  next
    case esc: 2
    then obtain e u where s: "s = e # u" using "2.prems" by (auto simp: unquote.simps split: list.splits)
    show ?thesis
    proof (cases "e = CHR ''u''")
      case True
      then obtain r where r: "getu4 u = Some r" using "2.prems" esc s by (auto simp: unquote.simps split: option.splits)
      obtain rune k where k: "escaped_rune r (drop 4 u) = (rune, k)" by fastforce
      then obtain w' where "unquote (drop k (drop 4 u)) = Some (w', t)"
        using "2.prems" esc s True r by (auto simp: unquote.simps prepend_Some)
      then show ?thesis using "2.IH"(1)[OF _ esc s True r refl k[symmetric] refl] esc s by fastforce
    next
      case False
      then obtain x w' where x: "simple_escape e = Some x" "unquote u = Some (w', t)"
        using "2.prems" esc s by (auto simp: unquote.simps prepend_Some split: option.splits)
      then show ?thesis using "2.IH"(2)[OF _ esc s False x(1)] esc s by fastforce
    qed
  next
    case 3
    then have big: "\<not> byte_val c < 0x20" using "2.prems" by (auto simp: unquote.simps)
    show ?thesis
    proof (cases "utf8_len (c # s)")
      case None
      then obtain w' where "unquote s = Some (w', t)" using "2.prems" 3 big by (auto simp: unquote.simps prepend_Some)
      then show ?thesis using "2.IH"(3)[OF 3 big None] by fastforce
    next
      case (Some n)
      then obtain w' where "unquote (drop n (c # s)) = Some (w', t)" using "2.prems" 3 big by (auto simp: unquote.simps prepend_Some)
      then show ?thesis using "2.IH"(4)[OF 3 big Some] utf8_len_bounds[OF Some] by fastforce
    qed
  qed
qed

lemma length_dropWhile_lt: "takeWhile P s \<noteq> [] \<Longrightarrow> length (dropWhile P s) < length s"
  by (cases s) (auto simp: le_imp_less_Suc length_dropWhile_le split: if_splits)

lemma digits1_shorter: "digits1 s = Some (w, t) \<Longrightarrow> length t < length s"
  by (auto simp: digits1_def length_dropWhile_lt split: if_splits)

lemma num_int_shorter: "num_int s = Some (w, t) \<Longrightarrow> length t < length s"
  by (auto simp: num_int_def digits1_shorter split: if_splits)

lemma num_frac_shorter: "num_frac s = Some (w, t) \<Longrightarrow> length t \<le> length s"
  by (cases s) (auto simp: num_frac_def prepend_Some dest!: digits1_shorter split: if_splits)

lemma num_exp_shorter: "num_exp s = Some (w, t) \<Longrightarrow> length t \<le> length s"
  by (cases s; cases "tl s") (auto simp: num_exp_def Let_def prepend_Some dest!: digits1_shorter split: if_splits)

lemma num_sign_shorter: "num_sign s = (w, t) \<Longrightarrow> length t \<le> length s"
  by (auto simp: num_sign_def split: if_splits)

lemma parse_number_shorter: "parse_number s = Some (w, t) \<Longrightarrow> length t < length s"
  unfolding parse_number_def
  by (auto split: option.splits prod.splits dest!: num_sign_shorter num_int_shorter num_frac_shorter num_exp_shorter)

lemma literal_shorter: "literal w v s = Some (x, t) \<Longrightarrow> w \<noteq> [] \<Longrightarrow> length t < length s"
  by (auto simp: literal_def prefix_def split: if_splits)

lemma skip_ws_le: "skip_ws s = c # t \<Longrightarrow> length t < length s"
  using length_dropWhile_le[of json_space s] by simp

lemma parse_shorter:
  "parse_value n k s = Some (v, t) \<Longrightarrow> length t < length s"
  "parse_elements n k s = Some (vs, t) \<Longrightarrow> length t < length s"
  "parse_members n k s = Some (ms, t) \<Longrightarrow> length t < length s"
proof (induction n k s and n k s and n k s arbitrary: v t and vs t and ms t rule: parse_value_parse_elements_parse_members.induct)
  case (2 n k s)
  then obtain c u where c: "skip_ws s = c # u" by (auto simp: parse_value.simps split: list.splits)
  note le = skip_ws_le[OF c]
  show ?case
  proof (cases "c = CHR ''{'' \<or> c = CHR ''[''")
    case True
    then obtain d w where d: "skip_ws u = d # w" "\<not> max_depth \<le> k"
      using "2.prems" c by (cases "skip_ws u") (auto simp: parse_value.simps simp del: dropWhile_eq_Nil_conv split: if_splits)
    show ?thesis using "2.prems" "2.IH"[OF c] c d True le skip_ws_le[OF d(1)]
      by (fastforce simp: parse_value.simps split: if_splits)
  next
    case False
    then have "length t < length (c # u)" using "2.prems" c unquote_shorter[of u] literal_shorter[of _ _ "c # u"]
        parse_number_shorter[of "c # u"]
      by (fastforce simp: parse_value.simps split: if_splits)
    then show ?thesis using le by simp
  qed
next
  case (4 n k s)
  then obtain v u where v: "parse_value n k s = Some (v, u)" by (auto simp: parse_elements.simps split: option.splits)
  then obtain d w where d: "skip_ws u = d # w" using 4 by (auto simp: parse_elements.simps split: list.splits)
  have "length w < length s" using "4.IH"(1)[OF v] skip_ws_le[OF d] by simp
  moreover have "length t \<le> length w" using "4.prems" "4.IH"(2)[OF v refl d] v d
    by (fastforce simp: parse_elements.simps prepend_Some split: if_splits)
  ultimately show ?case by simp
next
  case (6 n k s)
  then obtain u where c: "skip_ws s = CHR 0x22 # u" by (auto simp: parse_members.simps split: list.splits if_splits)
  then obtain key w where w: "unquote u = Some (key, w)" using 6 by (auto simp: parse_members.simps split: option.splits)
  then obtain x where x: "skip_ws w = CHR '':'' # x" using 6 c by (auto simp: parse_members.simps split: list.splits if_splits)
  then obtain v y where v: "parse_value n k x = Some (v, y)" using 6 c w by (auto simp: parse_members.simps split: option.splits)
  then obtain d z where d: "skip_ws y = d # z" using 6 c w x by (auto simp: parse_members.simps split: list.splits)
  have "length y < length x" using "6.IH"(1)[OF c _ w refl x _ v] by simp
  then have "length z < length s" using skip_ws_le[OF c] unquote_shorter[OF w] skip_ws_le[OF x] skip_ws_le[OF d] by simp
  moreover have "length t \<le> length z" using "6.prems" "6.IH"(2)[OF c _ w refl x _ v refl d] c w x v d
    by (fastforce simp: parse_members.simps prepend_Some split: if_splits)
  ultimately show ?case by simp
qed simp_all

declare dropWhile_eq_Nil_conv [simp del]

text \<open>With more fuel than twice the length of the text the result no longer depends on it.\<close>

lemma parse_fuel:
  "2 * length s < n \<Longrightarrow> parse_value (Suc n) k s = parse_value n k s"
  "2 * length s + 1 < n \<Longrightarrow> parse_elements (Suc n) k s = parse_elements n k s"
  "2 * length s < n \<Longrightarrow> parse_members (Suc n) k s = parse_members n k s"
proof (induction n k s and n k s and n k s rule: parse_value_parse_elements_parse_members.induct)
  case (2 n k s)
  show ?case
  proof (cases "skip_ws s")
    case (Cons c t)
    have fuel: "2 * length t + 1 < n" "2 * length t < n" using "2.prems" skip_ws_le[OF Cons] by simp_all
    have "parse_elements (Suc n) (Suc k) t = parse_elements n (Suc k) t"
      if "c = CHR ''[''" "\<not> max_depth \<le> k" "skip_ws t = d # u" "d \<noteq> CHR '']''" for d u
      using "2.IH"(2)[OF Cons] that fuel by simp
    moreover have "parse_members (Suc n) (Suc k) t = parse_members n (Suc k) t"
      if "c = CHR ''{''" "\<not> max_depth \<le> k" "skip_ws t = d # u" "d \<noteq> CHR ''}''" for d u
      using "2.IH"(1)[OF Cons] that fuel by simp
    ultimately show ?thesis using Cons
      by (auto simp: parse_value.simps(2)[of "Suc n"] parse_value.simps(2)[of n] split: list.splits)
  qed (simp add: parse_value.simps)
next
  case (4 n k s)
  then have v: "parse_value (Suc n) k s = parse_value n k s" by simp
  have "parse_elements (Suc n) k w = parse_elements n k w" if "parse_value n k s = Some (x, u)" "skip_ws u = CHR '','' # w" for x u w
    using "4.IH"(2)[OF that(1) refl that(2)] "4.prems" parse_shorter(1)[OF that(1)] skip_ws_le[OF that(2)] by simp
  then show ?case
    by (auto simp: parse_elements.simps(2)[of "Suc n"] parse_elements.simps(2)[of n] v split: list.splits option.splits)
next
  case (6 n k s)
  show ?case
  proof (cases "skip_ws s")
    case (Cons c u)
    show ?thesis
    proof (cases "c = CHR 0x22 \<and> unquote u \<noteq> None")
      case True
      then obtain key w where w: "unquote u = Some (key, w)" and c: "\<not> c \<noteq> CHR 0x22" by auto
      show ?thesis
      proof (cases "\<exists>x. skip_ws w = CHR '':'' # x")
        case True
        then obtain x where x: "skip_ws w = CHR '':'' # x" by blast
        have len: "length x < length s" using skip_ws_le[OF Cons] unquote_shorter[OF w] skip_ws_le[OF x] by simp
        have v: "parse_value (Suc n) k x = parse_value n k x"
          using "6.IH"(1)[OF Cons c w refl x] "6.prems" len by simp
        have m: "parse_members (Suc n) k z = parse_members n k z"
          if "parse_value n k x = Some (vv, y)" "skip_ws y = CHR '','' # z" for vv y z
          using "6.IH"(2)[OF Cons c w refl x _ that(1) refl that(2)] "6.prems" len
            parse_shorter(1)[OF that(1)] skip_ws_le[OF that(2)] by simp
        show ?thesis using Cons c w x v m
          by (cases "parse_value n k x")
            (auto simp: parse_members.simps(2)[of "Suc n"] parse_members.simps(2)[of n] split: list.split)
      next
        case False
        then show ?thesis using Cons c w by (auto simp: parse_members.simps split: list.splits)
      qed
    next
      case False
      then show ?thesis using Cons by (cases "unquote u") (auto simp: parse_members.simps)
    qed
  qed (simp add: parse_members.simps)
qed simp_all

lemma parse_value_fuel: "2 * length s + 1 \<le> n \<Longrightarrow> parse_value n k s = parse_value (2 * length s + 1) k s"
  by (induction n rule: dec_induct) (simp_all add: parse_fuel(1))

section \<open>The encoder\<close>

text \<open>
  \<^verbatim>\<open>json.Encoder\<close> with its default of escaping HTML. A byte that starts no valid encoding is written as
  the escape of the replacement character; U+2028 and U+2029 are escaped.
\<close>

definition u_escape :: "nat \<Rightarrow> string" where
  "u_escape n = [CHR 0x5C, CHR ''u'', hex_digit (n div 4096), hex_digit (n div 256 mod 16), hex_digit (n div 16 mod 16), hex_digit (n mod 16)]"

definition escape_ascii :: "char \<Rightarrow> string" where
  "escape_ascii c =
    (if c \<in> {CHR 0x22, CHR 0x5C} then [CHR 0x5C, c]
     else if c = CHR 0x08 then [CHR 0x5C, CHR ''b''] else if c = CHR 0x0C then [CHR 0x5C, CHR ''f'']
     else if c = CHR 0x0A then [CHR 0x5C, CHR ''n''] else if c = CHR 0x0D then [CHR 0x5C, CHR ''r'']
     else if c = CHR 0x09 then [CHR 0x5C, CHR ''t'']
     else if byte_val c < 0x20 \<or> c \<in> {CHR ''<'', CHR ''>'', CHR 0x26} then u_escape (byte_val c)
     else [c])"

function escape :: "string \<Rightarrow> string" where
  "escape [] = []"
| "escape (c # s) =
    (if byte_val c < 0x80 then escape_ascii c @ escape s
     else case utf8_len (c # s) of
       None \<Rightarrow> u_escape RuneError @ escape s
     | Some n \<Rightarrow> (let w = take n (c # s)
                 in (if w = utf8_encode 0x2028 then u_escape 0x2028 else if w = utf8_encode 0x2029 then u_escape 0x2029 else w)
                    @ escape (drop n (c # s))))"
  by pat_completeness auto
termination by (relation "measure length") (auto dest: utf8_len_bounds)

declare escape.simps(2) [simp del]

definition quote :: "string \<Rightarrow> string" where
  "quote s = CHR 0x22 # escape s @ [CHR 0x22]"

fun encode :: "json \<Rightarrow> string" where
  "encode JNull = ''null''"
| "encode (JBool b) = (if b then ''true'' else ''false'')"
| "encode (JNum w) = w"
| "encode (JStr s) = quote s"
| "encode (JArr vs) = CHR ''['' # Join (map encode vs) '','' @ '']''"
| "encode (JObj ms) = CHR ''{'' # Join (map (\<lambda>(k, v). quote k @ '':'' @ encode v) ms) '','' @ ''}''"

section \<open>What the encoder writes the decoder reads\<close>

lemma hex_num_hex_digit [simp]: "n < 16 \<Longrightarrow> hex_num (hex_digit n) = Some n"
  by (auto simp: hex_num_def hex_digit_def Let_def)

lemma unquote_u_escape:
  assumes "n < 65536" and "\<not> high_surrogate n" and "\<not> low_surrogate n"
  shows "unquote (u_escape n @ t) = prepend (utf8_encode n) (unquote t)"
proof -
  have d: "n div 4096 < 16" using assms(1) by simp
  have "4096 * (n div 4096) + 256 * (n div 256 mod 16) + 16 * (n div 16 mod 16) + n mod 16
      = 16 * (16 * (16 * (n div 16 div 16 div 16) + n div 16 div 16 mod 16) + n div 16 mod 16) + n mod 16"
    by (simp add: div_mult2_eq[symmetric])
  also have "\<dots> = n" by (simp only: mult_div_mod_eq)
  finally have "4096 * (n div 4096) + 256 * (n div 256 mod 16) + 16 * (n div 16 mod 16) + n mod 16 = n" .
  then have "getu4 (drop 2 (u_escape n @ t)) = Some n" using d by (simp add: u_escape_def)
  then show ?thesis using assms(2,3) by (simp add: u_escape_def unquote.simps escaped_rune_def)
qed

lemma utf8_len_ascii: "byte_val c < 0x80 \<Longrightarrow> utf8_len (c # s) = Some 1"
  by (simp add: utf8_len_def byte_in_def)

lemma unquote_escape_ascii:
  assumes "byte_val c < 0x80"
  shows "unquote (escape_ascii c @ t) = prepend [c] (unquote t)"
proof -
  have u: "unquote (u_escape (byte_val c) @ t) = prepend [c] (unquote t)"
    using assms unquote_u_escape[of "byte_val c" t] by (simp add: high_surrogate_def low_surrogate_def utf8_encode_def)
  have p: "unquote (c # t) = prepend [c] (unquote t)" if "\<not> byte_val c < 0x20" "c \<noteq> CHR 0x22" "c \<noteq> CHR 0x5C"
    using that assms by (simp add: unquote.simps utf8_len_ascii)
  have "c \<in> {CHR 0x22, CHR 0x5C, CHR 0x08, CHR 0x0C, CHR 0x0A, CHR 0x0D, CHR 0x09}
      \<or> c \<notin> {CHR 0x22, CHR 0x5C, CHR 0x08, CHR 0x0C, CHR 0x0A, CHR 0x0D, CHR 0x09}" by blast
  then show ?thesis
  proof
    assume "c \<in> {CHR 0x22, CHR 0x5C, CHR 0x08, CHR 0x0C, CHR 0x0A, CHR 0x0D, CHR 0x09}"
    then show ?thesis by (auto simp: escape_ascii_def unquote.simps simple_escape_def)
  next
    assume "c \<notin> {CHR 0x22, CHR 0x5C, CHR 0x08, CHR 0x0C, CHR 0x0A, CHR 0x0D, CHR 0x09}"
    then show ?thesis using u p by (auto simp: escape_ascii_def)
  qed
qed

text \<open>What is left of a string: bytes that are not UTF-8 have become the replacement character.\<close>

function sanitize :: "string \<Rightarrow> string" where
  "sanitize [] = []"
| "sanitize (c # s) =
    (case utf8_len (c # s) of None \<Rightarrow> utf8_encode RuneError @ sanitize s
     | Some n \<Rightarrow> take n (c # s) @ sanitize (drop n (c # s)))"
  by pat_completeness auto
termination by (relation "measure length") (auto dest: utf8_len_bounds)

declare sanitize.simps(2) [simp del]

lemma sanitize_valid [simp]: "valid_utf8 s \<Longrightarrow> sanitize s = s"
proof (induction s rule: sanitize.induct)
  case (2 c s)
  then obtain n where "utf8_len (c # s) = Some n" "valid_utf8 (drop n (c # s))"
    using valid_utf8.simps[of "c # s"] by (auto split: option.splits)
  then show ?case using 2 append_take_drop_id[of n "c # s"] by (simp add: sanitize.simps)
qed simp

lemma unquote_copy:
  assumes "utf8_len (c # s) = Some n" and "\<not> byte_val c < 0x80"
  shows "unquote (take n (c # s) @ r) = prepend (take n (c # s)) (unquote r)"
proof -
  obtain v where v: "take n (c # s) = c # v" using utf8_len_bounds[OF assms(1)] by (cases n) auto
  have "length (c # v) = n" using utf8_len_bounds[OF assms(1)] arg_cong[OF v, of length] by simp
  then have "take n (c # v @ r) = c # v" "drop n (c # v @ r) = r" by auto
  moreover have "utf8_len (c # v @ r) = Some n" using utf8_len_take[OF assms(1), of r] v by simp
  moreover have "\<not> byte_val c < 0x20 \<and> c \<noteq> CHR 0x22 \<and> c \<noteq> CHR 0x5C" using assms(2) by auto
  ultimately show ?thesis using v by (simp add: unquote.simps(2) del: take_Cons_numeral)
qed

lemma unquote_escape: "unquote (escape s @ CHR 0x22 # t) = Some (sanitize s, t)"
proof (induction s rule: escape.induct)
  case 1
  then show ?case by (simp add: unquote.simps)
next
  case (2 c s)
  have esc: "unquote (u_escape n @ r) = prepend (utf8_encode n) (unquote r)" if "n \<in> {0x2028, 0x2029, RuneError}" for n r
    by (rule unquote_u_escape) (use that in \<open>auto simp: high_surrogate_def low_surrogate_def RuneError_def\<close>)
  show ?case
  proof (cases "byte_val c < 0x80")
    case True
    then show ?thesis using 2 by (simp add: escape.simps sanitize.simps unquote_escape_ascii utf8_len_ascii prepend_def)
  next
    case False
    show ?thesis
    proof (cases "utf8_len (c # s)")
      case None
      then show ?thesis using 2 False esc by (simp add: escape.simps sanitize.simps prepend_def)
    next
      case (Some n)
      define w where "w = take n (c # s)"
      have "unquote (w @ r) = prepend w (unquote r)" for r unfolding w_def by (rule unquote_copy[OF Some False])
      then have "unquote ((if w = utf8_encode 0x2028 then u_escape 0x2028 else if w = utf8_encode 0x2029 then u_escape 0x2029 else w) @ r)
          = prepend w (unquote r)" for r using esc by simp
      moreover have "unquote (escape (drop n (c # s)) @ CHR 0x22 # t) = Some (sanitize (drop n (c # s)), t)"
        using 2(3)[OF False Some] w_def by simp
      ultimately show ?thesis using False Some by (simp add: escape.simps sanitize.simps Let_def w_def[symmetric] prepend_def)
    qed
  qed
qed

definition num_end :: "string \<Rightarrow> bool" where
  "num_end t \<longleftrightarrow> t = [] \<or> (\<not> is_dig (hd t) \<and> hd t \<notin> {CHR ''.'', CHR ''e'', CHR ''E''})"

lemma digits1_append:
  assumes "digits1 s = Some (w, r)" and "r \<noteq> [] \<or> num_end t"
  shows "digits1 (s @ t) = Some (w, r @ t)"
proof -
  have w: "takeWhile is_dig s = w" "dropWhile is_dig s = r" "w \<noteq> []" using assms(1) by (auto simp: digits1_def split: if_splits)
  show ?thesis
  proof (cases "r = []")
    case True
    then have all: "\<forall>x \<in> set s. is_dig x" using w(2) by (simp add: dropWhile_eq_Nil_conv)
    then have "s = w" using w(1) by (simp add: takeWhile_eq_all_conv[THEN iffD2])
    moreover have "takeWhile is_dig t = []" "dropWhile is_dig t = t" using True assms(2) by (cases t; auto simp: num_end_def)+
    ultimately show ?thesis using True w(3) all by (auto simp: digits1_def takeWhile_append2 dropWhile_append2)
  next
    case False
    then obtain x where x: "x \<in> set s" "\<not> is_dig x" using w(2) by (metis dropWhile_eq_Nil_conv)
    then have "takeWhile is_dig (s @ t) = w" "dropWhile is_dig (s @ t) = r @ t"
      using w by (simp_all add: takeWhile_append1[OF x(1)] dropWhile_append1[OF x(1)])
    then show ?thesis using w(3) by (simp add: digits1_def)
  qed
qed

lemma num_end_dig: "num_end t \<Longrightarrow> t \<noteq> [] \<Longrightarrow> \<not> is_dig (hd t) \<and> hd t \<noteq> CHR ''.'' \<and> hd t \<noteq> CHR ''e'' \<and> hd t \<noteq> CHR ''E''"
  by (simp add: num_end_def)

lemma num_int_append: "num_int s = Some (w, r) \<Longrightarrow> r \<noteq> [] \<or> num_end t \<Longrightarrow> num_int (s @ t) = Some (w, r @ t)"
  using digits1_append[of s w r t] by (cases s) (auto simp: num_int_def digits1_def split: if_splits)

lemma num_frac_append: "num_frac s = Some (w, r) \<Longrightarrow> r \<noteq> [] \<or> num_end t \<Longrightarrow> num_frac (s @ t) = Some (w, r @ t)"
proof (cases s)
  case (Cons c u)
  then show "num_frac s = Some (w, r) \<Longrightarrow> r \<noteq> [] \<or> num_end t \<Longrightarrow> num_frac (s @ t) = Some (w, r @ t)"
    using digits1_append[of u _ r t] by (auto simp: num_frac_def prepend_Some split: if_splits)
qed (auto simp: num_frac_def dest: num_end_dig)

lemma num_exp_append: "num_exp s = Some (w, r) \<Longrightarrow> r \<noteq> [] \<or> num_end t \<Longrightarrow> num_exp (s @ t) = Some (w, r @ t)"
proof (cases s)
  case (Cons c u)
  show "num_exp s = Some (w, r) \<Longrightarrow> r \<noteq> [] \<or> num_end t \<Longrightarrow> num_exp (s @ t) = Some (w, r @ t)"
  proof (cases u)
    case Nil
    then show "num_exp s = Some (w, r) \<Longrightarrow> r \<noteq> [] \<or> num_end t \<Longrightarrow> num_exp (s @ t) = Some (w, r @ t)"
      using Cons by (auto simp: num_exp_def Let_def digits1_def prepend_Some split: if_splits)
  next
    case u: (Cons d x)
    show "num_exp s = Some (w, r) \<Longrightarrow> r \<noteq> [] \<or> num_end t \<Longrightarrow> num_exp (s @ t) = Some (w, r @ t)"
      using Cons u digits1_append[of u _ r t] digits1_append[of x _ r t]
      by (auto simp: num_exp_def Let_def prepend_Some split: if_splits)
  qed
qed (auto simp: num_exp_def dest: num_end_dig)

lemma num_frac_rest: "num_frac s = Some (w, r) \<Longrightarrow> s = w @ r"
  by (cases s) (auto simp: num_frac_def prepend_Some digits1_def split: if_splits)

lemma num_exp_rest: "num_exp s = Some (w, r) \<Longrightarrow> s = w @ r"
  by (cases s; cases "tl s") (auto simp: num_exp_def Let_def prepend_Some digits1_def split: if_splits)

lemma parse_number_append:
  assumes "parse_number w = Some (w, [])" and "num_end t"
  shows "parse_number (w @ t) = Some (w, t)"
proof -
  obtain sg s1 where sg: "num_sign w = (sg, s1)" by fastforce
  obtain i s2 where i: "num_int s1 = Some (i, s2)" using assms(1) sg by (auto simp: parse_number_def split: option.splits)
  obtain f s3 where f: "num_frac s2 = Some (f, s3)" using assms(1) sg i by (auto simp: parse_number_def split: option.splits)
  obtain e where e: "num_exp s3 = Some (e, [])" and w: "w = sg @ i @ f @ e"
    using assms(1) sg i f by (auto simp: parse_number_def split: option.splits)
  have "num_sign (w @ t) = (sg, s1 @ t)" using sg i by (cases w) (auto simp: num_sign_def num_int_def digits1_def split: if_splits)
  moreover have "num_int (s1 @ t) = Some (i, s2 @ t)" by (rule num_int_append[OF i]) (use assms(2) in simp)
  moreover have "num_frac (s2 @ t) = Some (f, s3 @ t)" by (rule num_frac_append[OF f]) (use assms(2) in simp)
  moreover have "num_exp (s3 @ t) = Some (e, [] @ t)" by (rule num_exp_append[OF e]) (use assms(2) in simp)
  ultimately show ?thesis using w by (simp add: parse_number_def)
qed

lemma parse_number_hd: "parse_number w = Some r \<Longrightarrow> w \<noteq> [] \<and> (hd w = CHR ''-'' \<or> is_dig (hd w))"
  by (cases w) (auto simp: parse_number_def num_sign_def num_int_def digits1_def is_dig_def digit_val_def split: if_splits option.splits prod.splits)

text \<open>
  Values the encoder can be given: number literals and nesting within the limit. The decoder reads
  them back up to the sanitized strings.
\<close>

fun json_ok :: "nat \<Rightarrow> json \<Rightarrow> bool" where
  "json_ok k JNull = True"
| "json_ok k (JBool b) = True"
| "json_ok k (JNum w) = (parse_number w = Some (w, []))"
| "json_ok k (JStr s) = True"
| "json_ok k (JArr vs) = (k < max_depth \<and> list_all (json_ok (Suc k)) vs)"
| "json_ok k (JObj ms) = (k < max_depth \<and> list_all (\<lambda>(key, v). json_ok (Suc k) v) ms)"

fun clean :: "json \<Rightarrow> json" where
  "clean (JStr s) = JStr (sanitize s)"
| "clean (JArr vs) = JArr (map clean vs)"
| "clean (JObj ms) = JObj (map (\<lambda>(key, v). (sanitize key, clean v)) ms)"
| "clean v = v"

lemma encode_hd: "json_ok k v \<Longrightarrow> \<exists>c s. encode v = c # s \<and> \<not> json_space c \<and> c \<noteq> CHR '']'' \<and> c \<noteq> CHR ''}''"
proof (cases v)
  case (JNum w)
  assume "json_ok k v"
  then have "w \<noteq> [] \<and> (hd w = CHR ''-'' \<or> is_dig (hd w))" using JNum parse_number_hd by simp
  then show ?thesis using JNum by (cases w) (auto simp: json_space_def is_dig_def digit_val_def)
qed (auto simp: quote_def json_space_def)

lemma skip_ws_encode: "json_ok k v \<Longrightarrow> skip_ws (encode v @ t) = encode v @ t"
  using encode_hd[of k v] by auto

abbreviation member :: "string \<times> json \<Rightarrow> string" where
  "member m \<equiv> (case m of (k, v) \<Rightarrow> quote k @ '':'' @ encode v)"

lemma num_end_sep [simp]:
  "num_end (CHR '','' # t)" "num_end (CHR '']'' # t)" "num_end (CHR ''}'' # t)" "num_end (CHR 0x0A # t)" "num_end []"
  by (simp_all add: num_end_def is_dig_def digit_val_def)

lemma not_json_space [simp]:
  "\<not> json_space (CHR '','')" "\<not> json_space (CHR '']'')" "\<not> json_space (CHR ''}'')" "\<not> json_space (CHR '':'')"
  "\<not> json_space (CHR 0x22)" "\<not> json_space (CHR ''['')" "\<not> json_space (CHR ''{'')"
  by (simp_all add: json_space_def)

lemma parse_elements_encode:
  assumes "vs \<noteq> []" and "\<And>v n t. v \<in> set vs \<Longrightarrow> num_end t \<Longrightarrow> 2 * length (encode v) < n \<Longrightarrow> parse_value n k (encode v @ t) = Some (clean v, t)"
    and "2 * length (Join (map encode vs) '','') + 1 < n"
  shows "parse_elements n k (Join (map encode vs) '','' @ '']'' @ t) = Some (map clean vs, t)"
  using assms
proof (induction vs arbitrary: n rule: list_nonempty_induct)
  case (single v)
  then obtain m where n: "n = Suc m" by (cases n) auto
  have "parse_value m k (encode v @ '']'' @ t) = Some (clean v, '']'' @ t)"
    by (rule single.prems(1)) (use single.prems(2) n in simp_all)
  then show ?case by (simp add: n parse_elements.simps)
next
  case (cons v vs)
  then obtain m where n: "n = Suc m" by (cases n) auto
  obtain w ws where vs: "vs = w # ws" using cons.hyps by (cases vs) auto
  let ?r = "Join (map encode vs) '','' @ '']'' @ t"
  have j: "Join (map encode (v # vs)) '','' = encode v @ '','' @ Join (map encode vs) '',''" by (simp add: vs)
  have "parse_value m k (encode v @ '','' @ ?r) = Some (clean v, '','' @ ?r)"
    by (rule cons.prems(1)) (use cons.prems(2) n j in simp_all)
  moreover have "parse_elements m k ?r = Some (map clean vs, t)" by (rule cons.IH) (use cons.prems n j in auto)
  ultimately show ?case unfolding j by (simp add: n parse_elements.simps prepend_def)
qed

lemma parse_members_encode:
  assumes "ms \<noteq> []"
    and "\<And>key v n t. (key, v) \<in> set ms \<Longrightarrow> num_end t \<Longrightarrow> 2 * length (encode v) < n \<Longrightarrow> parse_value n k (encode v @ t) = Some (clean v, t)"
    and "2 * length (Join (map member ms) '','') < n"
  shows "parse_members n k (Join (map member ms) '','' @ ''}'' @ t) = Some (map (\<lambda>(key, v). (sanitize key, clean v)) ms, t)"
  using assms
proof (induction ms arbitrary: n rule: list_nonempty_induct)
  case (single m)
  obtain key v where m: "m = (key, v)" by fastforce
  obtain l where n: "n = Suc l" using single by (cases n) auto
  have "parse_value l k (encode v @ ''}'' @ t) = Some (clean v, ''}'' @ t)"
    by (rule single.prems(1)[of key]) (use single.prems(2) n m in \<open>simp_all add: quote_def\<close>)
  then show ?case by (simp add: n m parse_members.simps quote_def unquote_escape)
next
  case (cons m ms)
  obtain key v where m: "m = (key, v)" by fastforce
  obtain l where n: "n = Suc l" using cons.prems by (cases n) auto
  obtain w ws where ms: "ms = w # ws" using cons.hyps by (cases ms) auto
  let ?r = "Join (map member ms) '','' @ ''}'' @ t"
  have j: "Join (map member (m # ms)) '','' = quote key @ '':'' @ encode v @ '','' @ Join (map member ms) '',''" by (simp add: ms m)
  have "parse_value l k (encode v @ '','' @ ?r) = Some (clean v, '','' @ ?r)"
    by (rule cons.prems(1)[of key]) (use cons.prems(2) n j m in simp_all)
  moreover have "parse_members l k ?r = Some (map (\<lambda>(key, v). (sanitize key, clean v)) ms, t)" by (rule cons.IH) (use cons.prems n j in auto)
  ultimately show ?case unfolding j by (simp add: n m parse_members.simps quote_def unquote_escape prepend_def)
qed

lemma parse_encode:
  "json_ok k v \<Longrightarrow> num_end t \<Longrightarrow> 2 * length (encode v) < n \<Longrightarrow> parse_value n k (encode v @ t) = Some (clean v, t)"
proof (induction v arbitrary: k n t)
  case (JNum w)
  obtain c s where w: "w = c # s" "c = CHR ''-'' \<or> is_dig c" using JNum.prems(1) parse_number_hd[of w] by (cases w) auto
  then have "\<not> json_space c" "c \<notin> {CHR ''{'', CHR ''['', CHR 0x22, CHR ''t'', CHR ''f'', CHR ''n''}"
    by (auto simp: json_space_def is_dig_def digit_val_def)
  then show ?case using JNum.prems w parse_number_append[of w t] by (cases n) (auto simp: parse_value.simps)
next
  case (JArr vs)
  then obtain m where n: "n = Suc m" by (cases n) auto
  have ok: "json_ok (Suc k) v" if "v \<in> set vs" for v using JArr.prems(1) that by (simp add: list_all_iff)
  show ?case
  proof (cases "vs = []")
    case False
    then obtain v ws where "vs = v # ws" by (cases vs) auto
    then obtain c s where c: "Join (map encode vs) '','' = c # s" "\<not> json_space c" "c \<noteq> CHR '']''"
      using encode_hd[OF ok[of v]] by (cases ws) auto
    have "parse_elements m (Suc k) (Join (map encode vs) '','' @ '']'' @ t) = Some (map clean vs, t)"
      by (rule parse_elements_encode[OF False]) (use JArr ok n in auto)
    then show ?thesis using JArr.prems(1) n c by (simp add: parse_value.simps)
  qed (use JArr.prems(1) n in \<open>simp add: parse_value.simps\<close>)
next
  case (JObj ms)
  then obtain m where n: "n = Suc m" by (cases n) auto
  have ok: "json_ok (Suc k) v" if "(key, v) \<in> set ms" for key v
    using JObj.prems(1) that by (auto simp: list_all_iff)
  show ?case
  proof (cases "ms = []")
    case False
    then obtain p ws where "ms = p # ws" by (cases ms) auto
    then obtain s where c: "Join (map member ms) '','' = CHR 0x22 # s" by (cases p; cases ws) (auto simp: quote_def)
    have "parse_members m (Suc k) (Join (map member ms) '','' @ ''}'' @ t) = Some (map (\<lambda>(key, v). (sanitize key, clean v)) ms, t)"
      by (rule parse_members_encode[OF False]) (use JObj ok n in \<open>auto simp: list_all_iff\<close>)
    then show ?thesis using JObj.prems(1) n c by (simp add: parse_value.simps json_space_def)
  qed (use JObj.prems(1) n in \<open>simp add: parse_value.simps\<close>)
next
  case (JStr s)
  then show ?case by (cases n) (auto simp: parse_value.simps quote_def unquote_escape)
next
  case JNull
  then show ?case by (cases n) (auto simp: parse_value.simps literal_def json_space_def)
next
  case (JBool b)
  then show ?case by (cases n) (auto simp: parse_value.simps literal_def json_space_def)
qed

lemma parse_json_encode: "json_ok 0 v \<Longrightarrow> num_end t \<Longrightarrow> parse_json (encode v @ t) = Some (clean v, t)"
  unfolding parse_json_def by (rule parse_encode) simp_all


section \<open>Decoding into Go values\<close>

text \<open>
  \<^verbatim>\<open>Decoder.Decode\<close> reads the first value of a stream and leaves the rest; \<^verbatim>\<open>json.Unmarshal\<close> accepts
  only white space after it.
\<close>

definition decode_first :: "string \<Rightarrow> json option" where
  "decode_first s = map_option fst (parse_json s)"

definition unmarshal :: "string \<Rightarrow> json option" where
  "unmarshal s = (case parse_json s of Some (v, t) \<Rightarrow> if skip_ws t = [] then Some v else None | None \<Rightarrow> None)"

text \<open>
  Reading from \<^verbatim>\<open>http.MaxBytesReader\<close>: after the limit the reader fails, so a value has to be complete
  before it; an object or array is complete at its bracket, another value at the byte that
  follows it.
\<close>

definition is_container :: "json \<Rightarrow> bool" where
  "is_container v = (case v of JArr _ \<Rightarrow> True | JObj _ \<Rightarrow> True | _ \<Rightarrow> False)"

definition decode_limited :: "nat \<Rightarrow> string \<Rightarrow> json option" where
  "decode_limited limit body =
    (if length body \<le> limit then decode_first body
     else case parse_json (take limit body) of None \<Rightarrow> None
          | Some (v, t) \<Rightarrow> if is_container v \<or> t \<noteq> [] then Some v else None)"

text \<open>
  Decoding an object into a struct: a key stands for the field whose JSON name it equals up to letter
  case, a later member overrides an earlier one, \<^verbatim>\<open>null\<close> leaves a field alone and a value of another
  type is an error. \<open>set_field\<close> gives the new struct, \<open>None\<close> on an error.
\<close>

definition is_field :: "string \<Rightarrow> string \<Rightarrow> bool" where
  "is_field name key \<longleftrightarrow> key = name \<or> EqualFold key name"

fun decode_members :: "(string \<Rightarrow> json \<Rightarrow> 'r \<Rightarrow> 'r option) \<Rightarrow> (string \<times> json) list \<Rightarrow> 'r \<Rightarrow> 'r option" where
  "decode_members set_field [] r = Some r"
| "decode_members set_field ((key, v) # ms) r =
    (case set_field key v r of None \<Rightarrow> None | Some r' \<Rightarrow> decode_members set_field ms r')"

fun decode_struct :: "(string \<Rightarrow> json \<Rightarrow> 'r \<Rightarrow> 'r option) \<Rightarrow> 'r \<Rightarrow> json \<Rightarrow> 'r option" where
  "decode_struct set_field zero (JObj ms) = decode_members set_field ms zero"
| "decode_struct set_field zero JNull = Some zero"
| "decode_struct set_field zero _ = None"

fun string_field :: "json \<Rightarrow> string \<Rightarrow> string option" where
  "string_field (JStr s) old = Some s"
| "string_field JNull old = Some old"
| "string_field _ old = None"

text \<open>An int64 field takes a number literal that \<^verbatim>\<open>strconv.ParseInt\<close> accepts.\<close>

fun int_field :: "json \<Rightarrow> int \<Rightarrow> int option" where
  "int_field (JNum w) old = Atoi w"
| "int_field JNull old = Some old"
| "int_field _ old = None"

fun bool_field :: "json \<Rightarrow> bool \<Rightarrow> bool option" where
  "bool_field (JBool b) old = Some b"
| "bool_field JNull old = Some old"
| "bool_field _ old = None"

lemma nat_digits_dig: "list_all is_dig (nat_digits n)"
  using set_nat_digits by (auto simp: list_all_iff is_dig_def)

lemma num_int_nat_digits: "num_int (nat_digits n) = Some (nat_digits n, [])"
proof (cases "hd (nat_digits n) = CHR ''0''")
  case True
  then have "n < 10" using hd_nat_digits by blast
  then show ?thesis using True by (simp add: nat_digits_small num_int_def)
next
  case False
  have "takeWhile is_dig (nat_digits n) = nat_digits n" "dropWhile is_dig (nat_digits n) = []"
    using nat_digits_dig[of n] by (simp_all add: list_all_iff takeWhile_eq_all_conv dropWhile_eq_Nil_conv)
  then show ?thesis using False by (simp add: num_int_def digits1_def del: takeWhile_eq_all_conv)
qed

lemma parse_number_FormatInt: "parse_number (FormatInt n) = Some (FormatInt n, [])"
proof -
  have "hd (nat_digits m) \<noteq> CHR ''-''" for m using digit_plain hd_nat_digits_digit by blast
  then show ?thesis
    by (simp add: FormatInt_def parse_number_def num_sign_def num_int_nat_digits num_frac_def num_exp_def)
qed

lemma decode_first_encode: "json_ok 0 v \<Longrightarrow> decode_first (encode v @ CHR 0x0A # t) = Some (clean v)"
  by (simp add: decode_first_def parse_json_encode)

lemma valid_utf8_ascii: "list_all (\<lambda>c. byte_val c < 0x80) s \<Longrightarrow> valid_utf8 s"
proof (induction s)
  case (Cons c s)
  then show ?case by (subst valid_utf8.simps) (simp add: utf8_len_ascii)
qed (simp add: valid_utf8.simps)

lemma decode_limited_encode: "json_ok 0 v \<Longrightarrow> length (encode v) \<le> limit \<Longrightarrow> decode_limited limit (encode v) = Some (clean v)"
  using parse_json_encode[of v "[]"] by (simp add: decode_limited_def decode_first_def)

lemmas encode_eval = quote_def escape.simps escape_ascii_def
lemmas field_eval = is_field_def EqualFold_def char_eval

end
