(* ===== verification/Firewall.thy ===== *)
theory Firewall
  imports Networks Json
begin

text \<open>
  The firewall agent (\<^verbatim>\<open>src/cmd/firewall-agent/main.go\<close>) and its client
  (\<^verbatim>\<open>src/firewall_client.go\<close>). The agent runs \<^verbatim>\<open>ipset\<close> and \<^verbatim>\<open>iptables\<close>; what these commands
  answer is a parameter that may depend on every command run before, and the state of the agent
  is the list of commands it has run. Client and agent exchange one JSON line each way.
\<close>

section \<open>Requests, responses, commands\<close>

record request =
  rq_Action :: string
  rq_IP :: string
  rq_TimeoutSeconds :: int

record response =
  rs_OK :: bool
  rs_Message :: string

text \<open>A command line with its outcome: the combined output and the error of a failed run.\<close>

type_synonym command = "string list"
type_synonym outcome = "string \<times> err option"
type_synonym trace = "command list"
type_synonym executor = "trace \<Rightarrow> command \<Rightarrow> outcome"

record agent =
  ag_chain :: string
  ag_ipset :: string
  ag_ipset6 :: string
  ag_ipsetBin :: string
  ag_iptablesBin :: string
  ag_ip6tableBin :: string
  ag_allowlist :: "IPNet list"

section \<open>The line protocol\<close>

text \<open>
  The agent decodes with \<^verbatim>\<open>DisallowUnknownFields\<close>, the client without; empty optional fields are left
  out, and the encoder ends the line.
\<close>

definition set_request_field :: "string \<Rightarrow> json \<Rightarrow> request \<Rightarrow> request option" where
  "set_request_field key v r =
    (if is_field ''action'' key then map_option (\<lambda>x. r\<lparr>rq_Action := x\<rparr>) (string_field v (rq_Action r))
     else if is_field ''ip'' key then map_option (\<lambda>x. r\<lparr>rq_IP := x\<rparr>) (string_field v (rq_IP r))
     else if is_field ''timeoutSeconds'' key then map_option (\<lambda>x. r\<lparr>rq_TimeoutSeconds := x\<rparr>) (int_field v (rq_TimeoutSeconds r))
     else None)"

definition decode_request :: "string \<Rightarrow> request option" where
  "decode_request s = Option.bind (decode_first s)
     (decode_struct set_request_field \<lparr>rq_Action = [], rq_IP = [], rq_TimeoutSeconds = 0\<rparr>)"

definition encode_request :: "request \<Rightarrow> string" where
  "encode_request r = encode (JObj ([(''action'', JStr (rq_Action r))]
     @ (if rq_IP r = [] then [] else [(''ip'', JStr (rq_IP r))])
     @ (if rq_TimeoutSeconds r = 0 then [] else [(''timeoutSeconds'', JNum (FormatInt (rq_TimeoutSeconds r)))]))) @ [CHR 0x0A]"

definition encode_response :: "response \<Rightarrow> string" where
  "encode_response r = encode (JObj ([(''ok'', JBool (rs_OK r))]
     @ (if rs_Message r = [] then [] else [(''message'', JStr (rs_Message r))]))) @ [CHR 0x0A]"

definition set_response_field :: "string \<Rightarrow> json \<Rightarrow> response \<Rightarrow> response option" where
  "set_response_field key v r =
    (if is_field ''ok'' key then map_option (\<lambda>x. r\<lparr>rs_OK := x\<rparr>) (bool_field v (rs_OK r))
     else if is_field ''message'' key then map_option (\<lambda>x. r\<lparr>rs_Message := x\<rparr>) (string_field v (rs_Message r))
     else Some r)"

definition decode_response :: "string \<Rightarrow> response option" where
  "decode_response s = Option.bind (decode_first s) (decode_struct set_response_field \<lparr>rs_OK = False, rs_Message = []\<rparr>)"

section \<open>Running commands\<close>

definition run :: "executor \<Rightarrow> string \<Rightarrow> string list \<Rightarrow> trace \<Rightarrow> err option \<times> trace" where
  "run exec binary args h =
    ((case exec h (binary # args) of (output, None) \<Rightarrow> None
      | (output, Some x) \<Rightarrow> Some (binary @ '': '' @ x @ '': '' @ TrimSpace output)),
     h @ [binary # args])"

definition rule_args :: "string \<Rightarrow> string list" where
  "rule_args nm = [''-m'', ''set'', ''--match-set'', nm, ''src'', ''-j'', ''DROP'']"

definition ensureRule :: "executor \<Rightarrow> string \<Rightarrow> string \<Rightarrow> string \<Rightarrow> trace \<Rightarrow> err option \<times> trace" where
  "ensureRule exec binary chain nm h =
    (let check = binary # [''-C'', chain] @ rule_args nm
     in if snd (exec h check) = None then (None, h @ [check])
        else run exec binary ([''-I'', chain, ''1''] @ rule_args nm) (h @ [check]))"

text \<open>Running the second step only when the first has not failed.\<close>

definition and_then :: "(trace \<Rightarrow> err option \<times> trace) \<Rightarrow> (trace \<Rightarrow> err option \<times> trace) \<Rightarrow> trace \<Rightarrow> err option \<times> trace" where
  "and_then f g h = (case f h of (Some x, h') \<Rightarrow> (Some x, h') | (None, h') \<Rightarrow> g h')"

definition create_args :: "string \<Rightarrow> string \<Rightarrow> string list" where
  "create_args nm family = [''create'', nm, ''hash:ip'', ''family'', family, ''timeout'', ''0'', ''-exist'']"

definition ensureFirewall :: "executor \<Rightarrow> agent \<Rightarrow> trace \<Rightarrow> err option \<times> trace" where
  "ensureFirewall exec a =
    and_then (run exec (ag_ipsetBin a) (create_args (ag_ipset a) ''inet''))
    (and_then (run exec (ag_ipsetBin a) (create_args (ag_ipset6 a) ''inet6''))
    (and_then (ensureRule exec (ag_iptablesBin a) (ag_chain a) (ag_ipset a))
              (ensureRule exec (ag_ip6tableBin a) (ag_chain a) (ag_ipset6 a))))"

section \<open>Blocking and unblocking\<close>

definition set_for :: "agent \<Rightarrow> ip \<Rightarrow> string" where
  "set_for a ip = (if To4 ip \<noteq> None then ag_ipset a else ag_ipset6 a)"

definition block :: "executor \<Rightarrow> agent \<Rightarrow> ip \<Rightarrow> int \<Rightarrow> trace \<Rightarrow> err option \<times> trace" where
  "block exec a ip timeout =
    run exec (ag_ipsetBin a)
      ([''add'', set_for a ip, IP_String ip] @ (if timeout > 0 then [''timeout'', FormatInt timeout] else []) @ [''-exist''])"

definition unblock :: "executor \<Rightarrow> agent \<Rightarrow> ip \<Rightarrow> trace \<Rightarrow> err option \<times> trace" where
  "unblock exec a ip h =
    (let cmd = [ag_ipsetBin a, ''del'', set_for a ip, IP_String ip]
     in ((case exec h cmd of (output, None) \<Rightarrow> None
          | (output, Some x) \<Rightarrow> if Contains output ''is NOT in set'' then None
              else Some (ag_ipsetBin a @ '': '' @ x @ '': '' @ TrimSpace output)),
         h @ [cmd]))"

definition max_timeout :: int where
  "max_timeout = (365 * 24 * Hour) div Second"

section \<open>The request handler\<close>

text \<open>The \<^verbatim>\<open>switch\<close> on the action: the error it ends with and the commands run.\<close>

definition dispatch :: "executor \<Rightarrow> agent \<Rightarrow> request \<Rightarrow> trace \<Rightarrow> err option \<times> trace" where
  "dispatch exec a req h =
    (if rq_Action req = ''status'' then ensureFirewall exec a h
     else if rq_Action req = ''block'' \<or> rq_Action req = ''unblock'' then
       (case ParseIP (TrimSpace (rq_IP req)) of
          None \<Rightarrow> (Some ''invalid or protected IP address'', h)
        | Some ip \<Rightarrow>
            if IsLoopback ip \<or> IsUnspecified ip \<or> IsMulticast ip then (Some ''invalid or protected IP address'', h)
            else if rq_Action req = ''block'' \<and> containsIP (ag_allowlist a) ip
            then (Some ''IP address is protected by firewall allowlist'', h)
            else if rq_TimeoutSeconds req < 0 \<or> rq_TimeoutSeconds req > max_timeout then (Some ''invalid timeout'', h)
            else if rq_Action req = ''block'' then block exec a ip (rq_TimeoutSeconds req) h
            else unblock exec a ip h)
     else (Some ''unsupported action'', h))"

text \<open>One connection: the bytes received, the response, and the commands run.\<close>

definition handle :: "executor \<Rightarrow> agent \<Rightarrow> string \<Rightarrow> trace \<Rightarrow> response \<times> trace" where
  "handle exec a received h =
    (case decode_request received of None \<Rightarrow> (\<lparr>rs_OK = False, rs_Message = ''invalid request''\<rparr>, h)
     | Some req \<Rightarrow>
        (case dispatch exec a req h of
           (Some x, h') \<Rightarrow> (\<lparr>rs_OK = False, rs_Message = x\<rparr>, h')
         | (None, h') \<Rightarrow> (\<lparr>rs_OK = True, rs_Message = []\<rparr>, h')))"

section \<open>Start-up\<close>

definition env :: "environ \<Rightarrow> string \<Rightarrow> string \<Rightarrow> string" where
  "env getenv key fallback = (let v = TrimSpace (getenv key) in if v \<noteq> [] then v else fallback)"

definition agent_config :: "environ \<Rightarrow> agent result" where
  "agent_config getenv =
    (case parseNetworks (env getenv ''FIREWALL_IP_ALLOWLIST'' ''127.0.0.0/8,::1/128'') of
       Inl x \<Rightarrow> Inl (''invalid FIREWALL_IP_ALLOWLIST: '' @ x)
     | Inr allowlist \<Rightarrow> Inr \<lparr>
         ag_chain = env getenv ''FIREWALL_CHAIN'' ''INPUT'',
         ag_ipset = env getenv ''FIREWALL_IPSET_V4'' ''logs_dashboard_block_v4'',
         ag_ipset6 = env getenv ''FIREWALL_IPSET_V6'' ''logs_dashboard_block_v6'',
         ag_ipsetBin = env getenv ''IPSET_BIN'' ''/usr/sbin/ipset'',
         ag_iptablesBin = env getenv ''IPTABLES_BIN'' ''/usr/sbin/iptables'',
         ag_ip6tableBin = env getenv ''IP6TABLES_BIN'' ''/usr/sbin/ip6tables'',
         ag_allowlist = allowlist\<rparr>)"

text \<open>Serving a sequence of connections.\<close>

fun serve_agent :: "executor \<Rightarrow> agent \<Rightarrow> string list \<Rightarrow> trace \<Rightarrow> response list \<times> trace" where
  "serve_agent exec a [] h = ([], h)"
| "serve_agent exec a (r # rs) h =
    (let (x, h1) = handle exec a r h; (xs, h2) = serve_agent exec a rs h1 in (x # xs, h2))"

text \<open>
  \<^verbatim>\<open>main\<close>: it stops with a fatal error unless it runs as root, the allowlist parses, the
  firewall initialises and the socket is set up (\<open>sock\<close> is the first error of making its
  directory, removing a stale one, listening and \<^verbatim>\<open>chmod\<close>); then it serves.
\<close>

definition agent_main :: "executor \<Rightarrow> int \<Rightarrow> environ \<Rightarrow> err option \<Rightarrow> string list
    \<Rightarrow> (err + response list) \<times> trace" where
  "agent_main exec euid getenv sock reqs =
    (if euid \<noteq> 0 then (Inl ''firewall-agent must run as root'', [])
     else case agent_config getenv of Inl x \<Rightarrow> (Inl x, [])
     | Inr a \<Rightarrow>
        (case ensureFirewall exec a [] of
           (Some x, h) \<Rightarrow> (Inl (''initialize firewall: '' @ x), h)
         | (None, h) \<Rightarrow>
            (case sock of Some x \<Rightarrow> (Inl x, h)
             | None \<Rightarrow> (case serve_agent exec a reqs h of (xs, h') \<Rightarrow> (Inr xs, h')))))"

section \<open>The client\<close>

text \<open>
  The server's end of the socket: the error of \<^verbatim>\<open>DialTimeout\<close>, of sending the request, and the
  bytes that come back for the bytes sent, or the error of reading them.
\<close>

record FirewallClient =
  fc_socketPath :: string
  fc_timeout :: duration

record link =
  lk_dial :: "err option"
  lk_send :: "err option"
  lk_reply :: "string \<Rightarrow> string result"

definition NewFirewallClient :: "string \<Rightarrow> FirewallClient" where
  "NewFirewallClient path = \<lparr>fc_socketPath = path, fc_timeout = 5 * Second\<rparr>"

definition Available :: "FirewallClient option \<Rightarrow> bool" where
  "Available c = (case c of None \<Rightarrow> False | Some cl \<Rightarrow> fc_socketPath cl \<noteq> [])"

definition client_request :: "link \<Rightarrow> FirewallClient option \<Rightarrow> request \<Rightarrow> err option" where
  "client_request lk c req =
    (if \<not> Available c then Some ''firewall agent socket is not configured''
     else case lk_dial lk of Some x \<Rightarrow> Some (''connect firewall agent: '' @ x)
     | None \<Rightarrow> (case lk_send lk of Some x \<Rightarrow> Some (''send firewall request: '' @ x)
     | None \<Rightarrow> (case lk_reply lk (encode_request req) of Inl x \<Rightarrow> Some (''read firewall response: '' @ x)
     | Inr received \<Rightarrow> (case decode_response received of None \<Rightarrow> Some ''read firewall response: invalid JSON''
     | Some rsp \<Rightarrow>
         if \<not> rs_OK rsp then Some (if rs_Message rsp = [] then ''firewall operation failed'' else rs_Message rsp)
         else None))))"

definition Status :: "link \<Rightarrow> FirewallClient option \<Rightarrow> err option" where
  "Status lk c = client_request lk c \<lparr>rq_Action = ''status'', rq_IP = [], rq_TimeoutSeconds = 0\<rparr>"

definition Block :: "link \<Rightarrow> FirewallClient option \<Rightarrow> string \<Rightarrow> int \<Rightarrow> err option" where
  "Block lk c ip timeoutSeconds =
    client_request lk c \<lparr>rq_Action = ''block'', rq_IP = ip, rq_TimeoutSeconds = timeoutSeconds\<rparr>"

definition Unblock :: "link \<Rightarrow> FirewallClient option \<Rightarrow> string \<Rightarrow> err option" where
  "Unblock lk c ip = client_request lk c \<lparr>rq_Action = ''unblock'', rq_IP = ip, rq_TimeoutSeconds = 0\<rparr>"

section \<open>What is sent is what is received\<close>

lemma is_field_names [simp]:
  "is_field ''action'' ''ip'' = False" "is_field ''action'' ''timeoutSeconds'' = False" "is_field ''ip'' ''timeoutSeconds'' = False"
  "is_field ''ok'' ''message'' = False" "is_field k k"
  by (simp_all add: is_field_def EqualFold_def char_eval)

lemma utf8_names [simp]:
  "sanitize ''action'' = ''action''" "sanitize ''ip'' = ''ip''" "sanitize ''timeoutSeconds'' = ''timeoutSeconds''"
  "sanitize ''ok'' = ''ok''" "sanitize ''message'' = ''message''"
  by (simp_all add: valid_utf8_ascii)

lemma request_roundtrip:
  assumes "valid_utf8 (rq_Action req)" "valid_utf8 (rq_IP req)" "int64_min \<le> rq_TimeoutSeconds req" "rq_TimeoutSeconds req \<le> int64_max"
  shows "decode_request (encode_request req) = Some req"
  using assms unfolding decode_request_def encode_request_def
  by (subst decode_first_encode) (auto simp: max_depth_def parse_number_FormatInt Atoi_FormatInt set_request_field_def)

text \<open>The outcome of an operation arrives whatever the bytes of its message are.\<close>

lemma response_received:
  "decode_response (encode_response rsp) = Some \<lparr>rs_OK = rs_OK rsp, rs_Message = sanitize (rs_Message rsp)\<rparr>"
  unfolding decode_response_def encode_response_def
  by (subst decode_first_encode) (auto simp: max_depth_def set_response_field_def)

text \<open>
  C23. The line protocol loses nothing. A request whose strings are UTF-8 and whose timeout is an
  int64 is decoded by the agent to exactly what the client encoded, optional fields that were
  left out included; a response is decoded by the client to exactly what the agent encoded when
  its message is UTF-8, and to the same outcome in any case.
\<close>

theorem firewall_protocol_roundtrip:
  assumes "valid_utf8 (rq_Action req)" "valid_utf8 (rq_IP req)" "int64_min \<le> rq_TimeoutSeconds req" "rq_TimeoutSeconds req \<le> int64_max"
  shows "decode_request (encode_request req) = Some req
    \<and> (\<exists>r. decode_response (encode_response rsp) = Some r \<and> rs_OK r = rs_OK rsp \<and> (valid_utf8 (rs_Message rsp) \<longrightarrow> r = rsp))"
  using request_roundtrip[OF assms] response_received[of rsp] by simp

theorem firewall_protocol_roundtrip_witness:
  "decode_request (encode_request \<lparr>rq_Action = ''block'', rq_IP = ''203.0.113.9'', rq_TimeoutSeconds = 60\<rparr>)
     = Some \<lparr>rq_Action = ''block'', rq_IP = ''203.0.113.9'', rq_TimeoutSeconds = 60\<rparr>
   \<and> decode_response (encode_response \<lparr>rs_OK = False, rs_Message = ''invalid timeout''\<rparr>) = Some \<lparr>rs_OK = False, rs_Message = ''invalid timeout''\<rparr>"
  using firewall_protocol_roundtrip[of "\<lparr>rq_Action = ''block'', rq_IP = ''203.0.113.9'', rq_TimeoutSeconds = 60\<rparr>"
      "\<lparr>rs_OK = False, rs_Message = ''invalid timeout''\<rparr>"]
  by (auto simp: valid_utf8_ascii int64_defs)

section \<open>Command traces\<close>

text \<open>
  The interface between the handler and the operations it runs: what every handled request keeps
  of the trace holds after any number of them, whatever the commands answer.
\<close>

locale trace_invariant =
  fixes inv :: "trace \<Rightarrow> bool"
    and step :: "'r \<Rightarrow> trace \<Rightarrow> 'o \<times> trace"
  assumes step_inv: "inv h \<Longrightarrow> inv (snd (step r h))"
begin

lemma fold_inv: "inv h \<Longrightarrow> inv (fold (\<lambda>r h. snd (step r h)) rs h)"
  by (induction rs arbitrary: h) (auto simp: step_inv)

end

lemma serve_agent_fold: "snd (serve_agent exec a rs h) = fold (\<lambda>r h. snd (handle exec a r h)) rs h"
  by (induction rs arbitrary: h) (auto split: prod.splits simp: Let_def, metis snd_conv)

text \<open>What initialisation establishes and every request keeps holds of the trace of \<^verbatim>\<open>main\<close>.\<close>

lemma agent_main_inv:
  assumes "agent_config getenv = Inr a" and "keep []"
    and "\<And>h. keep h \<Longrightarrow> keep (snd (ensureFirewall exec a h))"
    and "\<And>h rs. keep h \<Longrightarrow> keep (fold (\<lambda>r h. snd (handle exec a r h)) rs h)"
  shows "keep (snd (agent_main exec euid getenv sock reqs))"
proof -
  obtain e h where h: "ensureFirewall exec a [] = (e, h)" by fastforce
  have "keep h" using assms(3)[OF assms(2)] h by simp
  moreover have "keep (snd (serve_agent exec a reqs h))"
    unfolding serve_agent_fold using assms(4)[OF calculation] .
  ultimately show ?thesis using assms(1,2) h
    by (auto simp: agent_main_def split: option.splits prod.splits)
qed

lemma snd_run [simp]: "snd (run exec b args h) = h @ [b # args]"
  by (simp add: run_def)

lemma snd_handle:
  "snd (handle exec a s h) = (case decode_request s of None \<Rightarrow> h | Some r \<Rightarrow> snd (dispatch exec a r h))"
  by (auto simp: handle_def split: option.splits prod.splits)

lemma snd_unblock [simp]: "snd (unblock exec a ip h) = h @ [[ag_ipsetBin a, ''del'', set_for a ip, IP_String ip]]"
  by (simp add: unblock_def Let_def)

definition is_add :: "command \<Rightarrow> bool" where
  "is_add cmd \<longleftrightarrow> length cmd > 1 \<and> cmd ! 1 = ''add''"

lemma is_add_simps [simp]: "is_add (b # x # r) \<longleftrightarrow> x = ''add''"
  by (simp add: is_add_def)

text \<open>Setting the firewall up never adds an address to a set.\<close>

lemma ensureRule_no_add:
  "\<exists>cs. snd (ensureRule exec b chain nm h) = h @ cs \<and> list_all (\<lambda>c. \<not> is_add c) cs"
  by (auto simp: ensureRule_def Let_def)

lemma and_then_appends:
  assumes "\<And>h. \<exists>cs. snd (f h) = h @ cs \<and> list_all P cs" and "\<And>h. \<exists>cs. snd (g h) = h @ cs \<and> list_all P cs"
  shows "\<exists>cs. snd (and_then f g h) = h @ cs \<and> list_all P cs"
proof (cases "f h")
  case (Pair e h1)
  then obtain cs where cs: "h1 = h @ cs" "list_all P cs" using assms(1)[of h] by auto
  obtain ds where ds: "snd (g h1) = h1 @ ds" "list_all P ds" using assms(2)[of h1] by auto
  show ?thesis using Pair cs ds by (cases e) (auto simp: and_then_def)
qed

lemma ensureFirewall_no_add: "\<exists>cs. snd (ensureFirewall exec a h) = h @ cs \<and> list_all (\<lambda>c. \<not> is_add c) cs"
  unfolding ensureFirewall_def
  by (intro and_then_appends ensureRule_no_add) (auto simp: create_args_def)

section \<open>What the agent may block\<close>

definition blockable :: "agent \<Rightarrow> ip \<Rightarrow> bool" where
  "blockable a p \<longleftrightarrow> \<not> IsLoopback p \<and> \<not> IsUnspecified p \<and> \<not> IsMulticast p \<and> \<not> containsIP (ag_allowlist a) p"

definition add_command :: "agent \<Rightarrow> ip \<Rightarrow> int \<Rightarrow> command" where
  "add_command a p t = [ag_ipsetBin a, ''add'', set_for a p, IP_String p]
     @ (if t > 0 then [''timeout'', FormatInt t] else []) @ [''-exist'']"

lemma block_add_command: "block exec a p t h = run exec (ag_ipsetBin a) (tl (add_command a p t)) h"
  by (simp add: block_def add_command_def)

text \<open>An \<^verbatim>\<open>ipset add\<close> of the agent is the block of an address it may block, for at most a year.\<close>

definition add_ok :: "agent \<Rightarrow> command \<Rightarrow> bool" where
  "add_ok a cmd \<longleftrightarrow> (is_add cmd \<longrightarrow>
     (\<exists>p t. length p = 16 \<and> blockable a p \<and> 0 \<le> t \<and> t \<le> max_timeout \<and> cmd = add_command a p t))"

lemma not_add_ok: "\<not> is_add c \<Longrightarrow> add_ok a c"
  by (simp add: add_ok_def)

lemma ensureFirewall_add_ok:
  assumes "list_all (add_ok a) h"
  shows "list_all (add_ok a) (snd (ensureFirewall exec a h))"
proof -
  obtain cs where "snd (ensureFirewall exec a h) = h @ cs" "list_all (\<lambda>c. \<not> is_add c) cs"
    using ensureFirewall_no_add by blast
  then show ?thesis using assms by (auto simp: list_all_iff not_add_ok)
qed

lemma dispatch_add_ok:
  assumes "list_all (add_ok a) h"
  shows "list_all (add_ok a) (snd (dispatch exec a req h))"
proof (cases "rq_Action req = ''status''")
  case True
  then show ?thesis using ensureFirewall_add_ok[OF assms] by (simp add: dispatch_def)
next
  case False
  show ?thesis
  proof (cases "ParseIP (TrimSpace (rq_IP req))")
    case None
    then show ?thesis using False assms by (simp add: dispatch_def)
  next
    case (Some p)
    have "add_ok a (add_command a p (rq_TimeoutSeconds req))"
      if "blockable a p" "0 \<le> rq_TimeoutSeconds req" "rq_TimeoutSeconds req \<le> max_timeout"
      using that ParseIP_length[OF Some] by (auto simp: add_ok_def)
    then show ?thesis using False Some assms
      by (auto simp: dispatch_def block_add_command blockable_def add_command_def not_add_ok)
  qed
qed

lemma handle_add_ok: "list_all (add_ok a) h \<Longrightarrow> list_all (add_ok a) (snd (handle exec a r h))"
  by (cases "decode_request r") (simp_all add: snd_handle dispatch_add_ok)

interpretation agent_adds: trace_invariant "list_all (add_ok a)" "handle exec a" for a exec
  by unfold_locales (rule handle_add_ok)

lemma FormatInt_pos: "0 < t \<Longrightarrow> FormatInt t = nat_digits (nat t)"
  by (simp add: FormatInt_def)

text \<open>
  C14. The agent never blocks a protected address. Whatever requests arrive in whatever order,
  and whatever the commands answer, every \<^verbatim>\<open>ipset add\<close> of a run of the agent names an address
  that is neither loopback, unspecified nor multicast and that no item of
  \<^verbatim>\<open>FIREWALL_IP_ALLOWLIST\<close> covers, in its canonical form and in the set of its family, without a
  timeout or with one between one second and 365 days.
\<close>

theorem agent_never_blocks_protected:
  assumes "agent_config getenv = Inr a"
    and "b # ''add'' # nm # addr # rest \<in> set (snd (agent_main exec euid getenv sock reqs))"
  shows "\<exists>p. ParseIP addr = Some p \<and> addr = IP_String p
    \<and> \<not> IsLoopback p \<and> \<not> IsUnspecified p \<and> \<not> IsMulticast p
    \<and> (\<forall>item \<in> set (Split (env getenv ''FIREWALL_IP_ALLOWLIST'' ''127.0.0.0/8,::1/128'') (CHR '','')).
          TrimSpace item \<noteq> [] \<longrightarrow> \<not> in_cidr (TrimSpace item) p)
    \<and> nm = (if To4 p \<noteq> None then ag_ipset a else ag_ipset6 a)
    \<and> (rest = [''-exist''] \<or> (\<exists>n \<in> {1..31536000}. rest = [''timeout'', nat_digits n, ''-exist'']))"
proof -
  have "list_all (add_ok a) (snd (agent_main exec euid getenv sock reqs))"
    by (rule agent_main_inv[OF assms(1)]) (auto intro: ensureFirewall_add_ok agent_adds.fold_inv)
  then have "add_ok a (b # ''add'' # nm # addr # rest)" using assms(2) by (auto simp: list_all_iff)
  then obtain p t where p: "length p = 16" "blockable a p" and t: "0 \<le> t" "t \<le> max_timeout"
    and cmd: "b # ''add'' # nm # addr # rest = add_command a p t" by (auto simp: add_ok_def)
  have allow: "parse_networks_loop (Split (env getenv ''FIREWALL_IP_ALLOWLIST'' ''127.0.0.0/8,::1/128'') (CHR '','')) = Inr (ag_allowlist a)"
    using assms(1) by (auto simp: agent_config_def parseNetworks_def split: sum.splits)
  have "rest = [''-exist''] \<or> (\<exists>n \<in> {1..31536000}. rest = [''timeout'', nat_digits n, ''-exist''])"
  proof (cases "0 < t")
    case True
    then have "rest = [''timeout'', nat_digits (nat t), ''-exist'']" using cmd by (simp add: add_command_def FormatInt_pos)
    moreover have "nat t \<in> {1..31536000}" using True t by (auto simp: max_timeout_def duration_defs)
    ultimately show ?thesis by blast
  qed (use cmd in \<open>simp add: add_command_def\<close>)
  then show ?thesis using p cmd ParseIP_IP_String[OF p(1)] parse_networks_loop_contains[OF allow p(1)]
    by (auto simp: blockable_def add_command_def set_for_def)
qed

definition example_env :: environ where
  "example_env key = (if key = ''FIREWALL_IP_ALLOWLIST'' then ''127.0.0.0/8'' else [])"

definition example_agent :: agent where
  "example_agent = \<lparr>ag_chain = ''INPUT'', ag_ipset = ''logs_dashboard_block_v4'', ag_ipset6 = ''logs_dashboard_block_v6'',
    ag_ipsetBin = ''/usr/sbin/ipset'', ag_iptablesBin = ''/usr/sbin/iptables'', ag_ip6tableBin = ''/usr/sbin/ip6tables'',
    ag_allowlist = [\<lparr>net_IP = [127, 0, 0, 0], net_Mask = [255, 0, 0, 0]\<rparr>]\<rparr>"

lemma example_config: "agent_config example_env = Inr example_agent"
  by (simp add: agent_config_def env_def example_env_def example_agent_def plain_eval parseNetworks_def
      ParseCIDR_def ParseAddr_def parseIPv4Fields_def parse_octet_def
      digit_val_def IP_Mask_def v4InV6Prefix_def CIDRMask_def upt_rec Let_def)

lemma example_blockable: "blockable example_agent (v4InV6Prefix @ [203, 0, 113, 9])"
proof -
  have "replicate 10 0 @ [255, 255, 203, 0, 113, 9] \<noteq> replicate 16 (0 :: byte)"
    by (auto dest: arg_cong[where f = last])
  then show ?thesis
    by (simp add: blockable_def IsLoopback_def IsUnspecified_def IsMulticast_def To4_def IP_Equal_def
        v4InV6Prefix_def example_agent_def Contains_IP_def networkNumberAndMask_def)
qed

lemmas agent_eval = agent_main_def ensureFirewall_def and_then_def run_def ensureRule_def create_args_def
  rule_args_def handle_def dispatch_def

lemma example_dispatch:
  "dispatch (\<lambda>_ _. ([], None)) example_agent \<lparr>rq_Action = ''block'', rq_IP = ''203.0.113.9'', rq_TimeoutSeconds = 60\<rparr> h =
     (None, h @ [[''/usr/sbin/ipset'', ''add'', ''logs_dashboard_block_v4'', ''203.0.113.9'', ''timeout'', ''60'', ''-exist'']])"
  using example_blockable
  by (simp add: dispatch_def plain_eval example_ip blockable_def block_def run_def max_timeout_def duration_defs set_for_def
      To4_def v4InV6Prefix_def IP_String_def string4_def nat_digits.simps FormatInt_def char_of_def bit_simps example_agent_def)

theorem agent_never_blocks_protected_witness:
  "\<exists>p. ParseIP ''203.0.113.9'' = Some p \<and> ''203.0.113.9'' = IP_String p
    \<and> \<not> IsLoopback p \<and> \<not> IsUnspecified p \<and> \<not> IsMulticast p \<and> \<not> in_cidr ''127.0.0.0/8'' p"
proof -
  let ?req = "\<lparr>rq_Action = ''block'', rq_IP = ''203.0.113.9'', rq_TimeoutSeconds = 60\<rparr>"
  have "''/usr/sbin/ipset'' # ''add'' # ''logs_dashboard_block_v4'' # ''203.0.113.9'' # [''timeout'', ''60'', ''-exist'']
      \<in> set (snd (agent_main (\<lambda>_ _. ([], None)) 0 example_env None [encode_request ?req]))"
    by (simp add: agent_main_def example_config ensureFirewall_def and_then_def run_def ensureRule_def handle_def example_dispatch
        request_roundtrip valid_utf8_ascii int64_defs)
  from agent_never_blocks_protected[OF example_config this]
  show ?thesis by (auto simp: env_def example_env_def plain_eval)
qed

section \<open>A block request from client to command\<close>

text \<open>A socket whose other end is the agent in a given state.\<close>

definition agent_link :: "executor \<Rightarrow> agent \<Rightarrow> trace \<Rightarrow> link" where
  "agent_link exec a h = \<lparr>lk_dial = None, lk_send = None, lk_reply = (\<lambda>s. Inr (encode_response (fst (handle exec a s h))))\<rparr>"

lemma client_request_agent:
  assumes "decode_request (encode_request req) = Some req"
  shows "client_request (agent_link exec a h) (Some c) req = None \<longleftrightarrow>
    fc_socketPath c \<noteq> [] \<and> fst (dispatch exec a req h) = None"
  using assms
  by (auto simp: client_request_def agent_link_def Available_def handle_def response_received split: option.splits prod.splits)

lemma valid_utf8_IP_String: "valid_utf8 (IP_String p)"
  using IP_String_plain[of _ p] by (intro valid_utf8_ascii) (auto simp: list_all_iff plain_def is_ascii_def)

lemma fst_run: "fst (run exec b args h) = None \<longleftrightarrow> snd (exec h (b # args)) = None"
  by (auto simp: run_def split: option.splits prod.splits)

lemma block_outcome:
  assumes "lk = agent_link exec a h" and "req = \<lparr>rq_Action = ''block'', rq_IP = s, rq_TimeoutSeconds = t\<rparr>"
    and "valid_utf8 s" and "int64_min \<le> t" and "t \<le> int64_max"
  shows "(Block lk (Some c) s t = None \<longleftrightarrow> fc_socketPath c \<noteq> [] \<and>
            (\<exists>p. ParseIP (TrimSpace s) = Some p \<and> blockable a p \<and> 0 \<le> t \<and> t \<le> 31536000
              \<and> snd (exec h (add_command a p t)) = None))
    \<and> snd (handle exec a (encode_request req) h) = h @ (case ParseIP (TrimSpace s) of None \<Rightarrow> []
            | Some p \<Rightarrow> if blockable a p \<and> 0 \<le> t \<and> t \<le> 31536000 then [add_command a p t] else [])"
proof -
  have dec: "decode_request (encode_request req) = Some req"
    using request_roundtrip[of req] assms(2-5) by (simp add: valid_utf8_ascii)
  note dec' = dec[unfolded assms(2)]
  show ?thesis
  proof (cases "ParseIP (TrimSpace s)")
    case None
    then show ?thesis by (simp add: assms(1,2) dec' snd_handle Block_def client_request_agent dispatch_def)
  next
    case (Some p)
    have cmd: "ag_ipsetBin a # tl (add_command a p t) = add_command a p t" by (simp add: add_command_def)
    show ?thesis using Some
      by (auto simp: assms(1,2) dec' snd_handle Block_def client_request_agent dispatch_def blockable_def block_add_command fst_run cmd
          max_timeout_def duration_defs)
  qed
qed

text \<open>
  C15. A block that the client reports as done is done, and a refused one runs nothing. Through
  the JSON line over the socket to the agent, \<^verbatim>\<open>Block\<close> returns nil exactly when the socket is configured, the text is an address
  the agent may block, the timeout is between 0 and 365 days, and the \<^verbatim>\<open>ipset add\<close> command for
  that address and timeout succeeded; that command is the only one run, and none is run for a
  request that is refused.
\<close>

theorem block_end_to_end:
  assumes "lk = agent_link exec a h" and "req = \<lparr>rq_Action = ''block'', rq_IP = s, rq_TimeoutSeconds = t\<rparr>"
    and "valid_utf8 s" and "int64_min \<le> t" and "t \<le> int64_max"
  shows "(Block lk (Some c) s t = None \<longleftrightarrow> fc_socketPath c \<noteq> [] \<and>
            (\<exists>p. ParseIP (TrimSpace s) = Some p \<and> blockable a p \<and> 0 \<le> t \<and> t \<le> 31536000
              \<and> snd (exec h (add_command a p t)) = None))
    \<and> snd (handle exec a (encode_request req) h) = h @ (case ParseIP (TrimSpace s) of None \<Rightarrow> []
            | Some p \<Rightarrow> if blockable a p \<and> 0 \<le> t \<and> t \<le> 31536000 then [add_command a p t] else [])"
  by (rule block_outcome[OF assms])

theorem block_end_to_end_witness:
  "Block (agent_link (\<lambda>_ _. ([], None)) example_agent []) (Some (NewFirewallClient ''/run/fw.sock'')) ''203.0.113.9'' 60 = None"
  using block_end_to_end[OF refl refl, of "''203.0.113.9''" 60 "\<lambda>_ _. ([], None)" example_agent "[]" "NewFirewallClient ''/run/fw.sock''"]
    example_blockable example_ip
  by (simp add: NewFirewallClient_def plain_eval valid_utf8_ascii int64_defs)

section \<open>Installing the rules\<close>

definition insert_command :: "string \<Rightarrow> string \<Rightarrow> string \<Rightarrow> command" where
  "insert_command b chain nm = b # [''-I'', chain, ''1''] @ rule_args nm"

definition check_command :: "string \<Rightarrow> string \<Rightarrow> string \<Rightarrow> command" where
  "check_command b chain nm = b # [''-C'', chain] @ rule_args nm"

text \<open>How often a command of the trace ran and succeeded.\<close>

definition done_count :: "executor \<Rightarrow> command \<Rightarrow> trace \<Rightarrow> nat" where
  "done_count exec cmd h = length (filter (\<lambda>k. h ! k = cmd \<and> snd (exec (take k h) cmd) = None) [0..<length h])"

lemma done_count_Nil [simp]: "done_count exec cmd [] = 0"
  by (simp add: done_count_def)

lemma done_count_snoc:
  "done_count exec cmd (h @ [c]) = done_count exec cmd h + (if c = cmd \<and> snd (exec h cmd) = None then 1 else 0)"
proof -
  have "filter (\<lambda>k. (h @ [c]) ! k = cmd \<and> snd (exec (take k (h @ [c])) cmd) = None) [0..<length h]
      = filter (\<lambda>k. h ! k = cmd \<and> snd (exec (take k h) cmd) = None) [0..<length h]"
    by (rule filter_cong) (auto simp: nth_append)
  then show ?thesis by (simp add: done_count_def)
qed

lemma done_count_snoc2:
  "done_count exec cmd (h @ [c, d]) = done_count exec cmd h + (if c = cmd \<and> snd (exec h cmd) = None then 1 else 0)
     + (if d = cmd \<and> snd (exec (h @ [c]) cmd) = None then 1 else 0)"
  using done_count_snoc[of exec cmd "h @ [c]" d] by (simp add: done_count_snoc)

lemma done_count_mono: "done_count exec cmd h \<le> done_count exec cmd (h @ cs)"
proof (induction cs rule: rev_induct)
  case (snoc c cs)
  then show ?case using done_count_snoc[of exec cmd "h @ cs" c] by simp
qed simp

text \<open>
  The documented behaviour of \<^verbatim>\<open>iptables -C\<close>: it succeeds exactly when the rule was inserted (no other
  program edits the chain, which is what the agent relies on).
\<close>

definition iptables_checks :: "executor \<Rightarrow> bool" where
  "iptables_checks exec \<longleftrightarrow> (\<forall>h b chain nm.
     snd (exec h (check_command b chain nm)) = None \<longleftrightarrow> 0 < done_count exec (insert_command b chain nm) h)"

definition rules_once :: "executor \<Rightarrow> trace \<Rightarrow> bool" where
  "rules_once exec h \<longleftrightarrow> (\<forall>b chain nm. done_count exec (insert_command b chain nm) h \<le> 1)"

lemma insert_command_eq:
  "b # x # r = insert_command b' chain nm \<Longrightarrow> x = ''-I''"
  "check_command b chain nm \<noteq> insert_command b' chain' nm'"
  by (simp_all add: insert_command_def check_command_def)

lemma rules_once_run:
  assumes "rules_once exec h" and "x \<noteq> ''-I''"
  shows "rules_once exec (h @ [b # x # r])"
proof -
  have "b # x # r \<noteq> insert_command b' chain nm" for b' chain nm using assms(2) insert_command_eq(1) by blast
  then show ?thesis using assms(1) by (simp add: rules_once_def done_count_snoc)
qed

lemma ensureRule_once:
  assumes "iptables_checks exec" and "rules_once exec h"
  shows "rules_once exec (snd (ensureRule exec b chain nm h))"
    and "fst (ensureRule exec b chain nm h) = None \<Longrightarrow>
      done_count exec (insert_command b chain nm) (snd (ensureRule exec b chain nm h)) = 1"
proof -
  let ?ins = "insert_command b chain nm" and ?chk = "check_command b chain nm"
  have ens: "ensureRule exec b chain nm h = (if snd (exec h ?chk) = None then (None, h @ [?chk])
      else run exec b (tl ?ins) (h @ [?chk]))"
    by (simp add: ensureRule_def check_command_def insert_command_def Let_def)
  have one: "done_count exec i h \<le> 1" if "i = insert_command b' c' n'" for i b' c' n'
    using assms(2) that by (auto simp: rules_once_def)
  have chk: "snd (exec h ?chk) = None \<longleftrightarrow> 0 < done_count exec ?ins h"
    using assms(1) by (simp add: iptables_checks_def)
  have tl: "b # tl ?ins = ?ins" by (simp add: insert_command_def)
  show "rules_once exec (snd (ensureRule exec b chain nm h))"
    unfolding rules_once_def
  proof (intro allI)
    fix b' c' n'
    show "done_count exec (insert_command b' c' n') (snd (ensureRule exec b chain nm h)) \<le> 1"
      using one[OF refl, of b' c' n'] chk insert_command_eq(2)[of b chain nm]
      by (cases "insert_command b' c' n' = ?ins") (auto simp: ens tl done_count_snoc done_count_snoc2)
  qed
  show "done_count exec ?ins (snd (ensureRule exec b chain nm h)) = 1"
    if "fst (ensureRule exec b chain nm h) = None"
    using that one[OF refl, of b chain nm] chk insert_command_eq(2)[of b chain nm b chain nm]
    by (auto simp: ens tl done_count_snoc done_count_snoc2 fst_run split: if_splits)
qed

lemma and_then_once:
  assumes "\<And>h. rules_once exec h \<Longrightarrow> rules_once exec (snd (f h))"
    and "\<And>h. rules_once exec h \<Longrightarrow> rules_once exec (snd (g h))" and "rules_once exec h"
  shows "rules_once exec (snd (and_then f g h))"
proof (cases "f h")
  case (Pair e h1)
  then show ?thesis using assms(1)[OF assms(3)] assms(2)[of h1] by (cases e) (simp_all add: and_then_def)
qed

lemma run_once: "x \<noteq> ''-I'' \<Longrightarrow> rules_once exec h \<Longrightarrow> rules_once exec (snd (run exec b (x # r) h))"
  by (simp add: rules_once_run)

lemma ensureFirewall_once:
  assumes "iptables_checks exec" and "rules_once exec h"
  shows "rules_once exec (snd (ensureFirewall exec a h))"
  unfolding ensureFirewall_def create_args_def
  by (intro and_then_once run_once ensureRule_once(1)[OF assms(1)] assms(2)) auto

lemma dispatch_once:
  assumes "iptables_checks exec" and "rules_once exec h"
  shows "rules_once exec (snd (dispatch exec a req h))"
  using assms ensureFirewall_once[OF assms]
  by (auto simp: dispatch_def block_def intro: rules_once_run split: option.splits)

lemma handle_once:
  "iptables_checks exec \<Longrightarrow> rules_once exec h \<Longrightarrow> rules_once exec (snd (handle exec a r h))"
  by (cases "decode_request r") (simp_all add: snd_handle dispatch_once)

interpretation agent_rules: trace_invariant "\<lambda>h. iptables_checks exec \<longrightarrow> rules_once exec h" "handle exec a" for a exec
  by unfold_locales (auto intro: handle_once)

lemma and_then_None: "and_then f g h = (None, h') \<Longrightarrow> \<exists>h1. f h = (None, h1) \<and> g h1 = (None, h')"
  by (auto simp: and_then_def split: prod.splits option.splits)

lemma ensureFirewall_installs:
  assumes "iptables_checks exec" and "rules_once exec h" and "ensureFirewall exec a h = (None, h')"
  shows "done_count exec (insert_command (ag_iptablesBin a) (ag_chain a) (ag_ipset a)) h' = 1"
    and "done_count exec (insert_command (ag_ip6tableBin a) (ag_chain a) (ag_ipset6 a)) h' = 1"
proof -
  let ?r4 = "ensureRule exec (ag_iptablesBin a) (ag_chain a) (ag_ipset a)"
  let ?r6 = "ensureRule exec (ag_ip6tableBin a) (ag_chain a) (ag_ipset6 a)"
  let ?c4 = "run exec (ag_ipsetBin a) (create_args (ag_ipset a) ''inet'')"
  let ?c6 = "run exec (ag_ipsetBin a) (create_args (ag_ipset6 a) ''inet6'')"
  obtain h1 h2 h3 where c4: "?c4 h = (None, h1)" and c6: "?c6 h1 = (None, h2)"
    and r4: "?r4 h2 = (None, h3)" and r6: "?r6 h3 = (None, h')"
    using assms(3) unfolding ensureFirewall_def by (blast dest: and_then_None)
  have "rules_once exec (snd (?c4 h))" using assms(2) unfolding create_args_def by (intro run_once) auto
  then have "rules_once exec (snd (?c6 h1))" unfolding create_args_def c4[unfolded create_args_def] snd_conv by (intro run_once) auto
  then have h2: "rules_once exec h2" by (simp only: c6 snd_conv)
  have h3: "rules_once exec h3" using ensureRule_once(1)[OF assms(1) h2] r4 by (metis snd_conv)
  have h': "rules_once exec h'" using ensureRule_once(1)[OF assms(1) h3] r6 by (metis snd_conv)
  obtain cs where cs: "h' = h3 @ cs"
    using ensureRule_no_add[of exec "ag_ip6tableBin a" "ag_chain a" "ag_ipset6 a" h3] r6 by auto
  have "done_count exec (insert_command (ag_iptablesBin a) (ag_chain a) (ag_ipset a)) h3 = 1"
    using ensureRule_once(2)[OF assms(1) h2, of "ag_iptablesBin a" "ag_chain a" "ag_ipset a"] r4 by simp
  then show "done_count exec (insert_command (ag_iptablesBin a) (ag_chain a) (ag_ipset a)) h' = 1"
    using h' done_count_mono[of exec "insert_command (ag_iptablesBin a) (ag_chain a) (ag_ipset a)" h3 cs] cs
    by (force simp: rules_once_def intro: le_antisym)
  show "done_count exec (insert_command (ag_ip6tableBin a) (ag_chain a) (ag_ipset6 a)) h' = 1"
    using ensureRule_once(2)[OF assms(1) h3, of "ag_ip6tableBin a" "ag_chain a" "ag_ipset6 a"] r6 by simp
qed


lemma agent_main_started:
  assumes "agent_config getenv = Inr a" and "agent_main exec euid getenv sock reqs = (Inr rsps, h)"
  obtains h0 where "ensureFirewall exec a [] = (None, h0)" and "h = fold (\<lambda>r h. snd (handle exec a r h)) reqs h0"
  using assms that serve_agent_fold[of exec a reqs]
  by (auto simp: agent_main_def split: if_splits option.splits prod.splits) (metis snd_conv)

lemma dispatch_appends: "\<exists>cs. snd (dispatch exec a r h) = h @ cs"
proof -
  obtain cs where "snd (ensureFirewall exec a h) = h @ cs" using ensureFirewall_no_add by blast
  then show ?thesis by (auto simp: dispatch_def block_def split: option.splits)
qed

lemma fold_handle_appends: "\<exists>cs. fold (\<lambda>r h. snd (handle exec a r h)) rs h = h @ cs"
proof (induction rs arbitrary: h)
  case (Cons r rs)
  have "\<exists>cs. snd (handle exec a r h) = h @ cs" using dispatch_appends[of exec a _ h] by (cases "decode_request r") (auto simp: snd_handle)
  then show ?case using Cons[of "snd (handle exec a r h)"] by auto
qed simp


text \<open>A host whose commands all succeed and where \<^verbatim>\<open>-C\<close> looks the inserted rule up.\<close>

definition example_host :: executor where
  "example_host h cmd =
    (if length cmd = 10 \<and> cmd ! 1 = ''-C'' \<and> (cmd ! 0 # ''-I'' # cmd ! 2 # ''1'' # drop 3 cmd) \<notin> set h
     then ([], Some ''exit status 1'') else ([], None))"


end
