(* ===== verification/Http.thy ===== *)
theory Http
  imports Schema Timestamps Firewall
begin

text \<open>
  What the HTTP handlers work on: requests, responses with their headers and cookies, the values
  they answer with, and the context of a request. A handler maps a request and the database to a
  response and the database after it.
\<close>

section \<open>Values the handlers answer with\<close>

record authUser =
  au_ID :: int
  au_Email :: string
  au_Role :: string
  au_CreatedAt :: string

record logRecord =
  lg_ID :: int
  lg_TSUTC :: string
  lg_From :: string
  lg_To :: string
  lg_Status :: string
  lg_Host :: string
  lg_Process :: string
  lg_QueueID :: string
  lg_Relay :: string
  lg_Delay :: "float64 option"
  lg_Delays :: string
  lg_DSN :: string
  lg_MessageID :: string
  lg_SizeBytes :: "int option"
  lg_QueuedAs :: string
  lg_MailID :: string
  lg_Subject :: string
  lg_Hits :: "float64 option"
  lg_Helo :: string
  lg_AmavisOrigin :: string
  lg_IsJunk :: bool
  lg_SpamScore :: "float64 option"
  lg_TimedOut :: bool
  lg_Raw :: string

record securityOffender =
  so_IP :: string
  so_Reason :: string
  so_FirstSeenAt :: string
  so_LastSeenAt :: string
  so_AttemptCount :: int
  so_LastPath :: string
  so_Flagged :: bool
  so_Blocked :: bool
  so_BlockedAt :: "string option"
  so_ExpiresAt :: "string option"
  so_LastError :: string

record security_summary =
  su_flagged :: int
  su_blocked :: int
  su_attemptsToday :: int
  su_firewallHealthy :: bool

datatype body = NoBody | ErrorBody string | FieldsBody "(string \<times> string) list" | UserBody authUser
  | UsersBody "authUser list" | LogsBody int "logRecord list" | SecurityBody "securityOffender list" security_summary
  | TextBody string

section \<open>Requests and responses\<close>

text \<open>
  \<open>hr_Header\<close>, \<open>hr_Query\<close> and \<open>hr_Cookie\<close> are \<^verbatim>\<open>Header.Get\<close>, \<^verbatim>\<open>URL.Query().Get\<close> and \<^verbatim>\<open>Request.Cookie\<close>; the value a
  middleware puts into the request's context is \<open>hr_user\<close>. \<open>hp_Log\<close> are the lines a request writes to the log.
\<close>

record http_request =
  hr_Method :: string
  hr_Path :: string
  hr_Query :: "string \<Rightarrow> string"
  hr_Header :: "string \<Rightarrow> string"
  hr_Cookie :: "string \<Rightarrow> string option"
  hr_RemoteAddr :: string
  hr_TLS :: bool
  hr_Body :: string
  hr_user :: "authUser option"

record cookie =
  ck_Name :: string
  ck_Value :: string
  ck_Path :: string
  ck_Expires :: instant
  ck_MaxAge :: int
  ck_HttpOnly :: bool
  ck_SameSiteLax :: bool
  ck_Secure :: bool

record http_response =
  hp_Status :: int
  hp_Header :: "string \<rightharpoonup> string"
  hp_Cookies :: "cookie list"
  hp_Body :: body
  hp_Log :: "string list"

text \<open>
  What a request meets: the Go clock when it is read and again when the lifetime of a cookie is
  computed, the \<^verbatim>\<open>NOW()\<close> of the database and the start of its day, the bytes \<^verbatim>\<open>crypto/rand\<close> gives, the
  faults of the statements, and the order the database gives to the rows of an \<^verbatim>\<open>ORDER BY\<close>.
\<close>

record reqctx =
  cx_lib :: lib
  cx_now :: instant
  cx_until :: instant
  cx_dbnow :: instant
  cx_rand :: "string result"
  cx_faults :: faults
  cx_day :: instant
  cx_order_tx :: "tx_row list \<Rightarrow> tx_row list"
  cx_order_offenders :: "(offender_row \<times> block_row option) list \<Rightarrow> (offender_row \<times> block_row option) list"

type_synonym handler = "reqctx \<Rightarrow> http_request \<Rightarrow> db \<Rightarrow> http_response \<times> db"

definition writeJSON :: "int \<Rightarrow> body \<Rightarrow> http_response" where
  "writeJSON status b = \<lparr>hp_Status = status, hp_Header = [''Content-Type'' \<mapsto> ''application/json''], hp_Cookies = [], hp_Body = b, hp_Log = []\<rparr>"

definition writeError :: "int \<Rightarrow> err \<Rightarrow> http_response" where
  "writeError status e = writeJSON status (ErrorBody e)"

definition method_not_allowed :: http_response where
  "method_not_allowed = writeError 405 ''method not allowed''"

section \<open>The server and the address of a client\<close>

record Server =
  sv_allowedOrigins :: "string \<Rightarrow> bool"
  sv_firewall :: "FirewallClient option"
  sv_securityAllowlist :: "IPNet list"

text \<open>The host of \<^verbatim>\<open>net.SplitHostPort\<close>, \<open>None\<close> on an error.\<close>

definition split_host :: "string \<Rightarrow> string option" where
  "split_host s =
    (if s \<noteq> [] \<and> hd s = CHR ''['' then
       (let host = takeWhile (\<lambda>c. c \<noteq> CHR '']'') (tl s); rest = drop 1 (dropWhile (\<lambda>c. c \<noteq> CHR '']'') (tl s))
        in if CHR '']'' \<in> set s \<and> rest \<noteq> [] \<and> hd rest = CHR '':'' \<and> CHR '':'' \<notin> set (tl rest)
              \<and> CHR ''['' \<notin> set (tl s) \<and> CHR '']'' \<notin> set rest
           then Some host else None)
     else
       (let host = takeWhile (\<lambda>c. c \<noteq> CHR '':'') s; rest = drop 1 (dropWhile (\<lambda>c. c \<noteq> CHR '':'') s)
        in if CHR '':'' \<in> set s \<and> CHR '':'' \<notin> set rest \<and> CHR ''['' \<notin> set s \<and> CHR '']'' \<notin> set s
           then Some host else None))"

definition clientIP :: "http_request \<Rightarrow> string" where
  "clientIP r =
    (let xff = hr_Header r ''X-Forwarded-For''; xri = TrimSpace (hr_Header r ''X-Real-IP'')
     in if xff \<noteq> [] then TrimSpace (hd (Split xff (CHR '','')))
        else if xri \<noteq> [] then xri
        else case split_host (hr_RemoteAddr r) of Some host \<Rightarrow> host | None \<Rightarrow> Trim (hr_RemoteAddr r) ''[]'')"

definition parseIntDefault :: "string \<Rightarrow> int \<Rightarrow> int" where
  "parseIntDefault v def =
    (if v = [] then def else case Atoi v of None \<Rightarrow> def | Some i \<Rightarrow> if i < 0 then def else i)"

lemma writeError_simps [simp]:
  "hp_Status (writeError st e) = st" "hp_Cookies (writeError st e) = []" "hp_Body (writeError st e) = ErrorBody e"
  "hp_Status (writeJSON st b) = st" "hp_Cookies (writeJSON st b) = []" "hp_Body (writeJSON st b) = b"
  "hp_Status method_not_allowed = 405" "hp_Cookies method_not_allowed = []"
  by (simp_all add: writeError_def writeJSON_def method_not_allowed_def)

section \<open>A server for examples\<close>

definition example_cx :: "instant \<Rightarrow> reqctx" where
  "example_cx t = \<lparr>cx_lib = example_lib, cx_now = t, cx_until = t, cx_dbnow = t, cx_rand = Inr ''random'', cx_faults = no_faults,
     cx_day = 0, cx_order_tx = (\<lambda>rows. rows), cx_order_offenders = (\<lambda>rows. rows)\<rparr>"

definition example_server :: Server where
  "example_server = \<lparr>sv_allowedOrigins = (\<lambda>o'. o' = ''https://dash''), sv_firewall = Some (NewFirewallClient ''/run/fw.sock''), sv_securityAllowlist = []\<rparr>"

definition example_link :: link where
  "example_link = \<lparr>lk_dial = None, lk_send = None, lk_reply = (\<lambda>s. Inr (encode_response \<lparr>rs_OK = True, rs_Message = []\<rparr>))\<rparr>"

end
