(* ===== verification/Config.thy ===== *)
theory Config
  imports Networks
begin

text \<open>
  Configuration from the environment: \<^verbatim>\<open>src/config.go\<close>, \<^verbatim>\<open>envInt\<close> of \<^verbatim>\<open>src/db.go\<close> and \<^verbatim>\<open>parseCIDRs\<close> of
  \<^verbatim>\<open>src/nginx_security.go\<close>.
\<close>

definition envOrDefault :: "environ \<Rightarrow> string \<Rightarrow> string \<Rightarrow> string" where
  "envOrDefault getenv key def = (let v = TrimSpace (getenv key) in if v \<noteq> [] then v else def)"

definition isProduction :: "environ \<Rightarrow> bool" where
  "isProduction getenv = EqualFold (envOrDefault getenv ''APP_ENV'' ''development'') ''production''"

definition envInt :: "environ \<Rightarrow> string \<Rightarrow> int \<Rightarrow> int" where
  "envInt getenv key def =
    (let v = envOrDefault getenv key []
     in if v = [] then def
        else case Atoi v of None \<Rightarrow> def | Some n \<Rightarrow> if n < 0 then def else n)"

fun parseCIDRs_loop :: "lib \<Rightarrow> string list \<Rightarrow> IPNet list result" where
  "parseCIDRs_loop L [] = Inr []"
| "parseCIDRs_loop L (item # items) =
    (let t = TrimSpace item
     in if t = [] then parseCIDRs_loop L items
        else case ParseCIDR t of Inl x \<Rightarrow> Inl (''invalid CIDR '' @ strconv_Quote L t @ '': '' @ x)
             | Inr n \<Rightarrow> (case parseCIDRs_loop L items of Inl x \<Rightarrow> Inl x | Inr ns \<Rightarrow> Inr (n # ns)))"

definition parseCIDRs :: "lib \<Rightarrow> string \<Rightarrow> IPNet list result" where
  "parseCIDRs L v = parseCIDRs_loop L (Split v (CHR '',''))"

text \<open>It reads the same networks as the list parser of the agent.\<close>

lemma parseCIDRs_loop_networks:
  "case parse_networks_loop items of Inr ns \<Rightarrow> parseCIDRs_loop L items = Inr ns | Inl _ \<Rightarrow> (\<exists>x. parseCIDRs_loop L items = Inl x)"
  by (induction items) (auto simp: Let_def split: sum.splits)

end
