(* ===== verification/Auth.thy ===== *)
theory Auth
  imports Http Config
begin

text \<open>
  Accounts and sessions of the dashboard (\<^verbatim>\<open>src/auth.go\<close>): the first administrator, user creation,
  login and logout, and the middleware that finds the user of a request by its session cookie.
\<close>

section \<open>Constants and tokens\<close>

definition sessionCookieName :: string where "sessionCookieName = ''logs_session''"

definition sessionTTL :: duration where "sessionTTL = 7 * 24 * Hour"

definition hashToken :: "lib \<Rightarrow> string \<Rightarrow> string" where
  "hashToken L token = EncodeToString (sha256_Sum256 L token)"

definition randomToken :: "reqctx \<Rightarrow> string result" where
  "randomToken cx = (case cx_rand cx of Inl e \<Rightarrow> Inl e | Inr buf \<Rightarrow> Inr (EncodeToString buf))"

definition isSecureRequest :: "http_request \<Rightarrow> bool" where
  "isSecureRequest r = (if hr_TLS r then True else EqualFold (hr_Header r ''X-Forwarded-Proto'') ''https'')"

text \<open>\<^verbatim>\<open>int(time.Until(expiresAt).Seconds())\<close> truncates towards zero.\<close>

definition trunc_seconds :: "duration \<Rightarrow> int" where
  "trunc_seconds w = (if w < 0 then - ((- w) div Second) else w div Second)"

definition sessionCookie :: "reqctx \<Rightarrow> http_request \<Rightarrow> string \<Rightarrow> instant \<Rightarrow> cookie" where
  "sessionCookie cx r token expiresAt =
    \<lparr>ck_Name = sessionCookieName, ck_Value = token, ck_Path = ''/'', ck_Expires = expiresAt,
     ck_MaxAge = trunc_seconds (time_Sub expiresAt (cx_until cx)), ck_HttpOnly = True, ck_SameSiteLax = True,
     ck_Secure = isSecureRequest r\<rparr>"

definition expiredSessionCookie :: "http_request \<Rightarrow> cookie" where
  "expiredSessionCookie r =
    \<lparr>ck_Name = sessionCookieName, ck_Value = [], ck_Path = ''/'', ck_Expires = 0, ck_MaxAge = - 1,
     ck_HttpOnly = True, ck_SameSiteLax = True, ck_Secure = isSecureRequest r\<rparr>"

section \<open>Users\<close>

definition normalizeEmail :: "lib \<Rightarrow> string \<Rightarrow> string result" where
  "normalizeEmail L v =
    (let v' = ToLower L (TrimSpace v)
     in if v' = [] then Inl ''email is required''
        else if \<not> mail_ParseAddress L v' then Inl ''email is invalid'' else Inr v')"

definition to_authUser :: "user_row \<Rightarrow> authUser" where
  "to_authUser u = \<lparr>au_ID = ur_id u, au_Email = ur_email u, au_Role = ur_role u, au_CreatedAt = format_RFC3339 (ur_created_at u)\<rparr>"

text \<open>
  The INSERT takes the next id, refuses an email that exists (which uses the id up), a role
  outside the CHECK and text the server cannot store.
\<close>

definition insert_user :: "lib \<Rightarrow> faults \<Rightarrow> instant \<Rightarrow> string \<Rightarrow> string \<Rightarrow> string \<Rightarrow> db \<Rightarrow> user_row result \<times> db" where
  "insert_user L flt dbnow email hash role d =
    (case flt InsertUser of Some x \<Rightarrow> (Inl x, d)
     | None \<Rightarrow>
        if \<not> list_all (pg_text_ok L) [email, hash, role] then (Inl ''invalid column value'', d)
        else let u = \<lparr>ur_id = dashboard_users_seq d, ur_email = email, ur_password_hash = hash, ur_role = role, ur_created_at = dbnow\<rparr>;
                 d1 = d\<lparr>dashboard_users_seq := dashboard_users_seq d + 1\<rparr>
             in if role \<noteq> ''admin'' \<and> role \<noteq> ''user'' then (Inl ''violates check constraint'', d1)
                else if select_by ur_email email (dashboard_users d) \<noteq> None then (Inl ''duplicate key value'', d1)
                else (Inr u, d1\<lparr>dashboard_users := dashboard_users d @ [u]\<rparr>))"

definition createUser :: "lib \<Rightarrow> faults \<Rightarrow> instant \<Rightarrow> string \<Rightarrow> string \<Rightarrow> string \<Rightarrow> db \<Rightarrow> authUser result \<times> db" where
  "createUser L flt dbnow email password role d =
    (case normalizeEmail L email of Inl x \<Rightarrow> (Inl x, d)
     | Inr em \<Rightarrow>
        if length password < 8 then (Inl ''password must be at least 8 characters'', d)
        else if role \<noteq> ''admin'' \<and> role \<noteq> ''user'' then (Inl ''role must be admin or user'', d)
        else (case bcrypt_Generate L password of Inl x \<Rightarrow> (Inl x, d)
              | Inr hash \<Rightarrow>
                 (case insert_user L flt dbnow em hash role d of
                    (Inl x, d1) \<Rightarrow> (Inl x, d1)
                  | (Inr u, d1) \<Rightarrow> (Inr (to_authUser u), d1))))"

definition EnsureBootstrapAdmin :: "lib \<Rightarrow> environ \<Rightarrow> faults \<Rightarrow> instant \<Rightarrow> db \<Rightarrow> err option \<times> db" where
  "EnsureBootstrapAdmin L getenv flt dbnow d =
    (case flt CountAdmins of Some x \<Rightarrow> (Some (''count admins: '' @ x), d)
     | None \<Rightarrow>
        if filter (\<lambda>u. ur_role u = ''admin'') (dashboard_users d) \<noteq> [] then (None, d)
        else
          let prod = isProduction getenv;
              email = (if prod then TrimSpace (envOrDefault getenv ''ADMIN_EMAIL'' []) else envOrDefault getenv ''ADMIN_EMAIL'' ''admin@example.com'');
              password = (if prod then envOrDefault getenv ''ADMIN_PASSWORD'' [] else envOrDefault getenv ''ADMIN_PASSWORD'' ''admin12345'')
          in if email = [] \<or> password = [] then
               ((if prod then Some ''ADMIN_EMAIL and ADMIN_PASSWORD are required when no admin user exists'' else None), d)
             else if prod \<and> (email = ''admin@example.com'' \<or> password = ''admin12345'' \<or> length password < 12) then
               (Some ''production ADMIN_PASSWORD must be at least 12 characters and must not use default credentials'', d)
             else (case createUser L flt dbnow email password ''admin'' d of
                     (Inl x, d1) \<Rightarrow> (Some (''create bootstrap admin: '' @ x), d1)
                   | (Inr u, d1) \<Rightarrow> (None, d1)))"

section \<open>Sessions\<close>

definition delete_expired :: "reqctx \<Rightarrow> db \<Rightarrow> db" where
  "delete_expired cx d =
    (if cx_faults cx DeleteExpiredSessions \<noteq> None then d
     else d\<lparr>dashboard_sessions := filter (\<lambda>s. \<not> sr_expires_at s \<le> cx_dbnow cx) (dashboard_sessions d)\<rparr>)"

record credentials =
  cr_Email :: string
  cr_Password :: string
  cr_Role :: string

definition no_credentials :: credentials where
  "no_credentials = \<lparr>cr_Email = [], cr_Password = [], cr_Role = []\<rparr>"

definition set_login_field :: "string \<Rightarrow> json \<Rightarrow> credentials \<Rightarrow> credentials option" where
  "set_login_field key v c =
    (if is_field ''email'' key then map_option (\<lambda>x. c\<lparr>cr_Email := x\<rparr>) (string_field v (cr_Email c))
     else if is_field ''password'' key then map_option (\<lambda>x. c\<lparr>cr_Password := x\<rparr>) (string_field v (cr_Password c))
     else Some c)"

definition set_user_field :: "string \<Rightarrow> json \<Rightarrow> credentials \<Rightarrow> credentials option" where
  "set_user_field key v c =
    (if is_field ''role'' key then map_option (\<lambda>x. c\<lparr>cr_Role := x\<rparr>) (string_field v (cr_Role c))
     else set_login_field key v c)"

definition decode_login :: "string \<Rightarrow> credentials option" where
  "decode_login b = Option.bind (decode_limited (2 ^ 20) b) (decode_struct set_login_field no_credentials)"

definition decode_user :: "string \<Rightarrow> credentials option" where
  "decode_user b = Option.bind (decode_limited (2 ^ 20) b) (decode_struct set_user_field no_credentials)"

text \<open>The lookup and the password check of a login; every failure is the same to the client.\<close>

definition check_credentials :: "reqctx \<Rightarrow> credentials \<Rightarrow> db \<Rightarrow> user_row option" where
  "check_credentials cx c d =
    (case normalizeEmail (cx_lib cx) (cr_Email c) of Inl x \<Rightarrow> None
     | Inr email \<Rightarrow>
        if cx_faults cx SelectUser \<noteq> None \<or> \<not> pg_text_ok (cx_lib cx) email then None
        else (case select_by ur_email email (dashboard_users d) of None \<Rightarrow> None
              | Some u \<Rightarrow> if bcrypt_Compare (cx_lib cx) (ur_password_hash u) (cr_Password c) then Some u else None))"

definition insert_session :: "reqctx \<Rightarrow> string \<Rightarrow> int \<Rightarrow> instant \<Rightarrow> db \<Rightarrow> db result" where
  "insert_session cx token uid expiresAt d =
    (let h = hashToken (cx_lib cx) token
     in case cx_faults cx InsertSession of Some x \<Rightarrow> Inl x
        | None \<Rightarrow>
           if select_by sr_token_hash h (dashboard_sessions d) \<noteq> None then Inl ''duplicate key value''
           else Inr (d\<lparr>dashboard_sessions := dashboard_sessions d @
                  [\<lparr>sr_token_hash = h, sr_user_id = uid, sr_expires_at = pg_time (cx_lib cx) expiresAt, sr_created_at = cx_dbnow cx\<rparr>]\<rparr>))"

definition handleLogin :: handler where
  "handleLogin cx r d =
    (if hr_Method r \<noteq> ''POST'' then (method_not_allowed, d)
     else
       let d1 = delete_expired cx d
       in case decode_login (hr_Body r) of None \<Rightarrow> (writeError 400 ''invalid JSON body'', d1)
          | Some c \<Rightarrow>
             (case check_credentials cx c d1 of None \<Rightarrow> (writeError 401 ''invalid email or password'', d1)
              | Some u \<Rightarrow>
                 (case randomToken cx of Inl x \<Rightarrow> (writeError 500 x, d1)
                  | Inr token \<Rightarrow>
                     let expiresAt = cx_now cx + sessionTTL
                     in case insert_session cx token (ur_id u) expiresAt d1 of Inl x \<Rightarrow> (writeError 500 x, d1)
                        | Inr d2 \<Rightarrow> ((writeJSON 200 (UserBody (to_authUser u)))\<lparr>hp_Cookies := [sessionCookie cx r token expiresAt]\<rparr>, d2))))"

definition handleLogout :: handler where
  "handleLogout cx r d =
    (if hr_Method r \<noteq> ''POST'' then (method_not_allowed, d)
     else
       let d1 = (case hr_Cookie r sessionCookieName of None \<Rightarrow> d
                 | Some v \<Rightarrow> if v = [] \<or> cx_faults cx DeleteSession \<noteq> None then d
                            else d\<lparr>dashboard_sessions := filter (\<lambda>s. sr_token_hash s \<noteq> hashToken (cx_lib cx) v) (dashboard_sessions d)\<rparr>)
       in ((writeJSON 200 (FieldsBody [(''status'', ''ok'')]))\<lparr>hp_Cookies := [expiredSessionCookie r]\<rparr>, d1))"

text \<open>The join of the session with its user; the primary keys make it at most one row.\<close>

definition authenticateRequest :: "reqctx \<Rightarrow> http_request \<Rightarrow> db \<Rightarrow> authUser result" where
  "authenticateRequest cx r d =
    (case hr_Cookie r sessionCookieName of None \<Rightarrow> Inl ''missing session''
     | Some v \<Rightarrow>
        if v = [] then Inl ''missing session''
        else case cx_faults cx SelectSession of Some x \<Rightarrow> Inl x
        | None \<Rightarrow>
           (case select_by sr_token_hash (hashToken (cx_lib cx) v) (dashboard_sessions d) of
              None \<Rightarrow> Inl ''sql: no rows in result set''
            | Some s \<Rightarrow>
               if \<not> sr_expires_at s > cx_dbnow cx then Inl ''sql: no rows in result set''
               else (case select_by ur_id (sr_user_id s) (dashboard_users d) of
                       None \<Rightarrow> Inl ''sql: no rows in result set''
                     | Some u \<Rightarrow> Inr (to_authUser u))))"

definition requireAuth :: "handler \<Rightarrow> handler" where
  "requireAuth nxt cx r d =
    (case authenticateRequest cx r d of
       Inl x \<Rightarrow> (writeError 401 ''authentication required'', d)
     | Inr user \<Rightarrow> nxt cx (r\<lparr>hr_user := Some user\<rparr>) d)"

definition currentUser :: "http_request \<Rightarrow> authUser option" where
  "currentUser r = hr_user r"

section \<open>The user handlers\<close>

definition handleMe :: handler where
  "handleMe cx r d =
    (if hr_Method r \<noteq> ''GET'' then (method_not_allowed, d)
     else case currentUser r of None \<Rightarrow> (writeError 401 ''authentication required'', d)
          | Some user \<Rightarrow> (writeJSON 200 (UserBody user), d))"

text \<open>\<^verbatim>\<open>ORDER BY created_at DESC, id DESC\<close>; ids are unique, so the order is determined.\<close>

definition listUsers :: handler where
  "listUsers cx r d =
    (case cx_faults cx SelectUsers of Some x \<Rightarrow> (writeError 500 x, d)
     | None \<Rightarrow> (writeJSON 200 (UsersBody (map to_authUser
          (rev (sort_key ur_created_at (sort_key ur_id (dashboard_users d)))))), d))"

definition server_createUser :: handler where
  "server_createUser cx r d =
    (case decode_user (hr_Body r) of None \<Rightarrow> (writeError 400 ''invalid JSON body'', d)
     | Some c \<Rightarrow>
        (case createUser (cx_lib cx) (cx_faults cx) (cx_dbnow cx) (cr_Email c) (cr_Password c) (cr_Role c) d of
           (Inl x, d1) \<Rightarrow> (writeError 400 x, d1)
         | (Inr user, d1) \<Rightarrow> (writeJSON 201 (UserBody user), d1)))"

definition handleUsers :: handler where
  "handleUsers cx r d =
    (case currentUser r of None \<Rightarrow> (writeError 401 ''authentication required'', d)
     | Some user \<Rightarrow>
        if au_Role user \<noteq> ''admin'' then (writeError 403 ''admin access required'', d)
        else if hr_Method r = ''GET'' then listUsers cx r d
        else if hr_Method r = ''POST'' then server_createUser cx r d
        else (method_not_allowed, d))"

text \<open>A request for the examples.\<close>

definition example_request :: "string \<Rightarrow> string \<Rightarrow> string \<Rightarrow> string option \<Rightarrow> http_request" where
  "example_request m p b ck = \<lparr>hr_Method = m, hr_Path = p, hr_Query = (\<lambda>_. []), hr_Header = (\<lambda>_. []),
     hr_Cookie = (\<lambda>n. if n = sessionCookieName then ck else None), hr_RemoteAddr = ''198.51.100.7:4711'', hr_TLS = True, hr_Body = b, hr_user = None\<rparr>"

section \<open>The first administrator\<close>

lemma createUser_created:
  assumes "createUser L flt t e p ro d = (Inr user, d')"
  obtains em h u where "normalizeEmail L e = Inr em" "length p \<ge> 8" "bcrypt_Generate L p = Inr h"
    "u = \<lparr>ur_id = dashboard_users_seq d, ur_email = em, ur_password_hash = h, ur_role = ro, ur_created_at = t\<rparr>"
    "dashboard_users d' = dashboard_users d @ [u]" "user = to_authUser u"
  using assms that
  by (auto simp: createUser_def insert_user_def Let_def split: sum.splits prod.splits option.splits if_splits)

text \<open>
  C33. A production server never starts with weak or default credentials. When
  \<^verbatim>\<open>EnsureBootstrapAdmin\<close> succeeds in production, an administrator exists; and if there was none before,
  exactly one account was added, with the normalised \<^verbatim>\<open>ADMIN_EMAIL\<close> and the bcrypt hash of \<^verbatim>\<open>ADMIN_PASSWORD\<close>, which has
  at least 12 characters and is not the default one. With an administrator in place nothing is
  changed.
\<close>

theorem bootstrap_production_safe:
  assumes "isProduction getenv" and "EnsureBootstrapAdmin L getenv flt t d = (None, d')"
    and "admins = filter (\<lambda>u. ur_role u = ''admin'') (dashboard_users d)"
  shows "(\<exists>u \<in> set (dashboard_users d'). ur_role u = ''admin'')
    \<and> (admins \<noteq> [] \<longrightarrow> d' = d)
    \<and> (admins = [] \<longrightarrow> (\<exists>u. dashboard_users d' = dashboard_users d @ [u] \<and> ur_role u = ''admin''
          \<and> normalizeEmail L (TrimSpace (getenv ''ADMIN_EMAIL'')) = Inr (ur_email u)
          \<and> bcrypt_Generate L (TrimSpace (getenv ''ADMIN_PASSWORD'')) = Inr (ur_password_hash u)
          \<and> 12 \<le> length (TrimSpace (getenv ''ADMIN_PASSWORD'')) \<and> TrimSpace (getenv ''ADMIN_PASSWORD'') \<noteq> ''admin12345''))"
proof (cases "admins = []")
  case False
  then have "d' = d" using assms(2,3) by (auto simp: EnsureBootstrapAdmin_def split: option.splits)
  moreover have "\<exists>u \<in> set (dashboard_users d). ur_role u = ''admin''" using False assms(3) by (auto simp: filter_empty_conv)
  ultimately show ?thesis using False by simp
next
  case True
  define em where "em = TrimSpace (envOrDefault getenv ''ADMIN_EMAIL'' [])"
  define pw where "pw = envOrDefault getenv ''ADMIN_PASSWORD'' []"
  have env: "envOrDefault getenv k [] = TrimSpace (getenv k)" for k by (simp add: envOrDefault_def Let_def)
  have ok: "12 \<le> length pw" "pw \<noteq> ''admin12345''"
    and "\<exists>user. createUser L flt t em pw ''admin'' d = (Inr user, d')"
    using assms True by (auto simp: EnsureBootstrapAdmin_def Let_def em_def pw_def split: option.splits if_splits prod.splits sum.splits)
  then obtain user where "createUser L flt t em pw ''admin'' d = (Inr user, d')" by blast
  then obtain m h u where u: "normalizeEmail L em = Inr m" "bcrypt_Generate L pw = Inr h"
    "u = \<lparr>ur_id = dashboard_users_seq d, ur_email = m, ur_password_hash = h, ur_role = ''admin'', ur_created_at = t\<rparr>"
    "dashboard_users d' = dashboard_users d @ [u]" by (rule createUser_created)
  have "normalizeEmail L (TrimSpace (getenv ''ADMIN_EMAIL'')) = normalizeEmail L em"
    unfolding em_def env by (simp add: normalizeEmail_def)
  then show ?thesis using True u ok by (auto simp: pw_def env)
qed


definition example_production :: "string \<Rightarrow> environ" where
  "example_production email k = (if k = ''APP_ENV'' then ''Production'' else if k = ''ADMIN_EMAIL'' then email
     else if k = ''ADMIN_PASSWORD'' then ''correct horse battery'' else [])"

lemma example_production_boot:
  assumes "TrimSpace email = email" and "email \<noteq> []" and "email \<noteq> ''admin@example.com''"
    and "ToLower example_lib email = m" and "CHR 0x40 \<in> set m" and "CHR 0x00 \<notin> set m"
  shows "EnsureBootstrapAdmin example_lib (example_production email) no_faults 0 empty_db =
    (None, empty_db\<lparr>dashboard_users_seq := 2, dashboard_users := [\<lparr>ur_id = 1, ur_email = m, ur_password_hash = ''correct horse battery'',
       ur_role = ''admin'', ur_created_at = 0\<rparr>]\<rparr>)"
proof -
  have p: "isProduction (example_production email)"
    by (simp add: isProduction_def envOrDefault_def example_production_def plain_eval EqualFold_def char_eval)
  have e: "envOrDefault (example_production email) ''ADMIN_EMAIL'' [] = email" "envOrDefault (example_production email) ''ADMIN_PASSWORD'' [] = ''correct horse battery''"
    using assms by (simp_all add: envOrDefault_def example_production_def plain_eval)
  have L: "bcrypt_Generate example_lib p = Inr p" "pg_text_ok example_lib s = (CHR 0x00 \<notin> set s)" "mail_ParseAddress example_lib s = (CHR 0x40 \<in> set s)" for p s
    by (simp_all add: example_lib_def)
  have db: "dashboard_users empty_db = []" "dashboard_users_seq empty_db = 1" by (simp_all add: empty_db_def)
  have n: "normalizeEmail example_lib email = Inr m" using assms by (auto simp: normalizeEmail_def L)
  have c: "createUser example_lib no_faults 0 email ''correct horse battery'' ''admin'' empty_db =
      (Inr (to_authUser \<lparr>ur_id = 1, ur_email = m, ur_password_hash = ''correct horse battery'', ur_role = ''admin'', ur_created_at = 0\<rparr>),
       empty_db\<lparr>dashboard_users_seq := 2, dashboard_users := [\<lparr>ur_id = 1, ur_email = m, ur_password_hash = ''correct horse battery'',
         ur_role = ''admin'', ur_created_at = 0\<rparr>]\<rparr>)"
    using assms by (simp add: createUser_def n insert_user_def no_faults_def L db Let_def)
  show ?thesis using assms by (simp add: EnsureBootstrapAdmin_def p e c no_faults_def[of CountAdmins] db)
qed

theorem bootstrap_production_safe_witness:
  "\<exists>u. dashboard_users (snd (EnsureBootstrapAdmin example_lib (example_production ''ada@b.org'') no_faults 0 empty_db)) = [u] \<and> ur_role u = ''admin''"
proof -
  have boot: "EnsureBootstrapAdmin example_lib (example_production ''ada@b.org'') no_faults 0 empty_db =
      (None, empty_db\<lparr>dashboard_users_seq := 2, dashboard_users := [\<lparr>ur_id = 1, ur_email = ''ada@b.org'', ur_password_hash = ''correct horse battery'',
         ur_role = ''admin'', ur_created_at = 0\<rparr>]\<rparr>)"
    by (rule example_production_boot) (simp_all add: plain_eval ToLower_def char_eval)
  have p: "isProduction (example_production ''ada@b.org'')"
    by (simp add: isProduction_def envOrDefault_def example_production_def plain_eval EqualFold_def char_eval)
  from bootstrap_production_safe[OF p boot refl] show ?thesis unfolding boot by (simp add: empty_db_def)
qed

text \<open>
  The default email is refused only in its lower-case spelling. The production check
  compares \<^verbatim>\<open>ADMIN_EMAIL\<close> before it is normalised, so \<^verbatim>\<open>Admin@Example.com\<close> passes it and the
  account that is created is \<^verbatim>\<open>admin@example.com\<close>, the default one; in lower case the same
  configuration is refused.
\<close>

theorem default_email_accepted_in_upper_case:
  "(\<exists>d. EnsureBootstrapAdmin example_lib (example_production ''Admin@Example.com'') no_faults 0 empty_db = (None, d)
      \<and> map ur_email (dashboard_users d) = [''admin@example.com''])
   \<and> fst (EnsureBootstrapAdmin example_lib (example_production ''admin@example.com'') no_faults 0 empty_db) \<noteq> None"
proof -
  have boot: "EnsureBootstrapAdmin example_lib (example_production ''Admin@Example.com'') no_faults 0 empty_db =
      (None, empty_db\<lparr>dashboard_users_seq := 2, dashboard_users := [\<lparr>ur_id = 1, ur_email = ''admin@example.com'', ur_password_hash = ''correct horse battery'',
         ur_role = ''admin'', ur_created_at = 0\<rparr>]\<rparr>)"
    by (rule example_production_boot) (simp_all add: plain_eval ToLower_def char_eval)
  have p: "isProduction (example_production ''admin@example.com'')"
    by (simp add: isProduction_def envOrDefault_def example_production_def plain_eval EqualFold_def char_eval)
  have e: "envOrDefault (example_production ''admin@example.com'') ''ADMIN_EMAIL'' [] = ''admin@example.com''"
    by (simp add: envOrDefault_def example_production_def plain_eval)
  have "dashboard_users empty_db = []" "TrimSpace ''admin@example.com'' = ''admin@example.com''" by (simp_all add: empty_db_def plain_eval)
  then have "fst (EnsureBootstrapAdmin example_lib (example_production ''admin@example.com'') no_faults 0 empty_db) \<noteq> None"
    by (simp add: EnsureBootstrapAdmin_def p e no_faults_def[of CountAdmins] Let_def)
  then show ?thesis using boot by simp
qed

end
