(* ===== verification/Security.thy ===== *)
theory Security
  imports Auth
begin

text \<open>
  The security API (\<^verbatim>\<open>src/security.go\<close>): the list of offenders, blocking and unblocking an address
  through the firewall agent with its record in the database and the audit log, and dismissing an
  offender.
\<close>

section \<open>Permission and target\<close>

definition requireAdmin :: "http_request \<Rightarrow> http_response + authUser" where
  "requireAdmin r =
    (case currentUser r of None \<Rightarrow> Inl (writeError 401 ''authentication required'')
     | Some user \<Rightarrow> if au_Role user \<noteq> ''admin'' then Inl (writeError 403 ''admin access required'') else Inr user)"

definition validateBlockTarget :: "Server \<Rightarrow> string \<Rightarrow> http_request \<Rightarrow> string result" where
  "validateBlockTarget srv v r =
    (case ParseIP (TrimSpace v) of None \<Rightarrow> Inl ''invalid IP address''
     | Some ip \<Rightarrow>
        if IsLoopback ip \<or> IsUnspecified ip \<or> IsMulticast ip then Inl ''refusing to modify a protected IP address''
        else if containsIP (sv_securityAllowlist srv) ip then Inl ''IP address is in SECURITY_IP_ALLOWLIST''
        else if (case ParseIP (clientIP r) of None \<Rightarrow> False | Some requestIP \<Rightarrow> IP_Equal requestIP ip)
        then Inl ''refusing to block the current administrator IP''
        else Inr (IP_String ip))"

section \<open>Recording the outcome\<close>

definition errorString :: "err option \<Rightarrow> string" where
  "errorString e = (case e of None \<Rightarrow> [] | Some x \<Rightarrow> x)"

definition upsert_block :: "reqctx \<Rightarrow> int \<Rightarrow> string \<Rightarrow> int \<Rightarrow> err option \<Rightarrow> db \<Rightarrow> db result" where
  "upsert_block cx uid ip dur opErr d =
    (case cx_faults cx UpsertBlock of Some x \<Rightarrow> Inl x
     | None \<Rightarrow>
        if \<not> list_all (pg_text_ok (cx_lib cx)) [ip, errorString opErr] then Inl ''invalid column value''
        else
          let success = (opErr = None);
              expires = (if dur > 0 then Some (pg_time (cx_lib cx) (cx_now cx + wrap64 (dur * Second))) else None);
              row = \<lparr>br_remote_ip = ip, br_active = success, br_blocked_at = (if success then Some (cx_dbnow cx) else None),
                     br_expires_at = expires, br_blocked_by = Some uid, br_last_error = errorString opErr, br_updated_at = cx_dbnow cx\<rparr>
          in Inr (d\<lparr>firewall_blocks := upsert br_remote_ip row
                (\<lambda>b. b\<lparr>br_active := br_active row, br_blocked_at := br_blocked_at row, br_expires_at := br_expires_at row,
                     br_blocked_by := br_blocked_by row, br_last_error := br_last_error row, br_updated_at := cx_dbnow cx\<rparr>)
                (firewall_blocks d)\<rparr>))"

definition release_block :: "reqctx \<Rightarrow> string \<Rightarrow> err option \<Rightarrow> db \<Rightarrow> db result" where
  "release_block cx ip opErr d =
    (case cx_faults cx ReleaseBlock of Some x \<Rightarrow> Inl x
     | None \<Rightarrow>
        if \<not> list_all (pg_text_ok (cx_lib cx)) [ip, errorString opErr] then Inl ''invalid column value''
        else Inr (d\<lparr>firewall_blocks := update_where (\<lambda>b. br_remote_ip b = ip)
               (\<lambda>b. b\<lparr>br_active := False, br_last_error := errorString opErr, br_updated_at := cx_dbnow cx\<rparr>) (firewall_blocks d)\<rparr>))"

definition insert_audit :: "reqctx \<Rightarrow> int \<Rightarrow> string \<Rightarrow> string \<Rightarrow> string \<Rightarrow> bool \<Rightarrow> db \<Rightarrow> db result" where
  "insert_audit cx uid action ip detail success d =
    (case cx_faults cx InsertAudit of Some x \<Rightarrow> Inl x
     | None \<Rightarrow>
        if \<not> list_all (pg_text_ok (cx_lib cx)) [action, ip, detail] then Inl ''invalid column value''
        else Inr (d\<lparr>security_audit_log := security_audit_log d @
               [\<lparr>ar_id = security_audit_log_seq d, ar_ts_utc = cx_dbnow cx, ar_actor_user_id = Some uid, ar_action = action,
                 ar_remote_ip = ip, ar_detail = detail, ar_success = success\<rparr>],
               security_audit_log_seq := security_audit_log_seq d + 1\<rparr>))"

definition recordFirewallResult :: "reqctx \<Rightarrow> int \<Rightarrow> string \<Rightarrow> string \<Rightarrow> int \<Rightarrow> err option \<Rightarrow> db \<Rightarrow> db result" where
  "recordFirewallResult cx uid action ip dur opErr d =
    (case cx_faults cx Begin of Some x \<Rightarrow> Inl x
     | None \<Rightarrow>
        let detail = (case opErr of None \<Rightarrow> ''duration_seconds='' @ FormatInt dur | Some x \<Rightarrow> x)
        in case (if action = ''block'' then upsert_block cx uid ip dur opErr d else release_block cx ip opErr d) of
             Inl x \<Rightarrow> Inl x
           | Inr d1 \<Rightarrow>
              (case insert_audit cx uid action ip detail (opErr = None) d1 of Inl x \<Rightarrow> Inl x
               | Inr d2 \<Rightarrow> (case cx_faults cx Commit of Some x \<Rightarrow> Inl x | None \<Rightarrow> Inr d2)))"

section \<open>Blocking\<close>

record block_request =
  bq_IP :: string
  bq_DurationSeconds :: int

definition set_block_field :: "string \<Rightarrow> json \<Rightarrow> block_request \<Rightarrow> block_request option" where
  "set_block_field key v q =
    (if is_field ''ip'' key then map_option (\<lambda>x. q\<lparr>bq_IP := x\<rparr>) (string_field v (bq_IP q))
     else if is_field ''durationSeconds'' key then map_option (\<lambda>x. q\<lparr>bq_DurationSeconds := x\<rparr>) (int_field v (bq_DurationSeconds q))
     else Some q)"

definition decode_block :: "string \<Rightarrow> block_request option" where
  "decode_block b = Option.bind (decode_limited (2 ^ 16) b) (decode_struct set_block_field \<lparr>bq_IP = [], bq_DurationSeconds = 0\<rparr>)"

text \<open>The call of the agent: its error, or the one for an agent that is not configured.\<close>

definition firewall_call :: "Server \<Rightarrow> link \<Rightarrow> string \<Rightarrow> string \<Rightarrow> int \<Rightarrow> err option" where
  "firewall_call srv lk action ip dur =
    (if \<not> Available (sv_firewall srv) then Some ''firewall agent is not configured''
     else if action = ''unblock'' then Unblock lk (sv_firewall srv) ip
     else Block lk (sv_firewall srv) ip dur)"

definition handleSecurityBlock :: "Server \<Rightarrow> link \<Rightarrow> handler" where
  "handleSecurityBlock srv lk cx r d =
    (case requireAdmin r of Inl rsp \<Rightarrow> (rsp, d)
     | Inr user \<Rightarrow>
        if hr_Method r \<noteq> ''POST'' \<and> hr_Method r \<noteq> ''DELETE'' then (method_not_allowed, d)
        else case decode_block (hr_Body r) of None \<Rightarrow> (writeError 400 ''invalid JSON body'', d)
        | Some q \<Rightarrow>
           (case validateBlockTarget srv (bq_IP q) r of Inl x \<Rightarrow> (writeError 400 x, d)
            | Inr ip \<Rightarrow>
               if bq_DurationSeconds q < 0 \<or> bq_DurationSeconds q > max_timeout
               then (writeError 400 ''block duration must be between 0 and 365 days'', d)
               else
                 let action = (if hr_Method r = ''DELETE'' then ''unblock'' else ''block'');
                     opErr = firewall_call srv lk action ip (bq_DurationSeconds q)
                 in case recordFirewallResult cx (au_ID user) action ip (bq_DurationSeconds q) opErr d of
                      Inl x \<Rightarrow> (writeError 500 x, d)
                    | Inr d1 \<Rightarrow>
                       (case opErr of Some x \<Rightarrow> (writeError 502 x, d1)
                        | None \<Rightarrow> (writeJSON 200 (FieldsBody [(''ip'', ip), (''status'', action @ ''ed'')]), d1))))"

section \<open>Dismissing\<close>

definition set_ip_field :: "string \<Rightarrow> json \<Rightarrow> string \<Rightarrow> string option" where
  "set_ip_field key v ip = (if is_field ''ip'' key then string_field v ip else Some ip)"

definition decode_dismiss :: "string \<Rightarrow> string option" where
  "decode_dismiss b = Option.bind (decode_limited (2 ^ 16) b) (decode_struct set_ip_field [])"

definition dismiss_row :: "reqctx \<Rightarrow> offender_row \<Rightarrow> offender_row" where
  "dismiss_row cx o' = o'\<lparr>or_flagged := False, or_dismissed_at := Some (cx_dbnow cx), or_updated_at := cx_dbnow cx\<rparr>"

definition handleSecurityDismiss :: handler where
  "handleSecurityDismiss cx r d =
    (case requireAdmin r of Inl rsp \<Rightarrow> (rsp, d)
     | Inr user \<Rightarrow>
        if hr_Method r \<noteq> ''POST'' then (method_not_allowed, d)
        else case decode_dismiss (hr_Body r) of None \<Rightarrow> (writeError 400 ''invalid JSON body'', d)
        | Some s \<Rightarrow>
           (case ParseIP (TrimSpace s) of None \<Rightarrow> (writeError 400 ''invalid IP address'', d)
            | Some ip \<Rightarrow>
               (case cx_faults cx DismissOffender of Some x \<Rightarrow> (writeError 500 x, d)
                | None \<Rightarrow>
                   if select_by or_remote_ip (IP_String ip) (security_offenders d) = None
                   then (writeError 404 ''offender not found'', d)
                   else
                     let d1 = d\<lparr>security_offenders := update_where (\<lambda>o'. or_remote_ip o' = IP_String ip) (dismiss_row cx) (security_offenders d)\<rparr>;
                         d2 = (case insert_audit cx (au_ID user) ''dismiss'' (IP_String ip) [] True d1 of Inl x \<Rightarrow> d1 | Inr d' \<Rightarrow> d')
                     in (writeJSON 200 (FieldsBody [(''status'', ''dismissed'')]), d2))))"

section \<open>Listing\<close>

definition expire_blocks :: "reqctx \<Rightarrow> db \<Rightarrow> db" where
  "expire_blocks cx d =
    (if cx_faults cx ExpireBlocks \<noteq> None then d
     else d\<lparr>firewall_blocks := update_where
        (\<lambda>b. br_active b \<and> (case br_expires_at b of None \<Rightarrow> False | Some t \<Rightarrow> t \<le> cx_dbnow cx))
        (\<lambda>b. b\<lparr>br_active := False, br_updated_at := cx_dbnow cx\<rparr>) (firewall_blocks d)\<rparr>)"

definition block_active :: "block_row option \<Rightarrow> bool" where
  "block_active b = (case b of None \<Rightarrow> False | Some x \<Rightarrow> br_active x)"

text \<open>\<^verbatim>\<open>'%' || $1 || '%'\<close> as a pattern.\<close>

definition like_pattern :: "string \<Rightarrow> string" where
  "like_pattern s = CHR 0x25 # s @ [CHR 0x25]"

definition offender_shown :: "lib \<Rightarrow> string \<Rightarrow> offender_row \<times> block_row option \<Rightarrow> bool" where
  "offender_shown L search ob = (case ob of (o', b) \<Rightarrow>
     (or_flagged o' \<or> block_active b)
     \<and> (search = [] \<or> pg_ilike L (or_remote_ip o') (like_pattern search) \<or> pg_ilike L (or_last_path o') (like_pattern search)))"

definition to_securityOffender :: "offender_row \<times> block_row option \<Rightarrow> securityOffender" where
  "to_securityOffender ob = (case ob of (o', b) \<Rightarrow>
     \<lparr>so_IP = or_remote_ip o', so_Reason = or_reason o', so_FirstSeenAt = format_RFC3339 (or_first_seen_at o'),
      so_LastSeenAt = format_RFC3339 (or_last_seen_at o'), so_AttemptCount = or_attempt_count o', so_LastPath = or_last_path o',
      so_Flagged = or_flagged o', so_Blocked = block_active b,
      so_BlockedAt = map_option format_RFC3339 (Option.bind b br_blocked_at),
      so_ExpiresAt = map_option format_RFC3339 (Option.bind b br_expires_at),
      so_LastError = (case b of None \<Rightarrow> [] | Some x \<Rightarrow> br_last_error x)\<rparr>)"

definition select_offenders :: "reqctx \<Rightarrow> string \<Rightarrow> int \<Rightarrow> db \<Rightarrow> (offender_row \<times> block_row option) list" where
  "select_offenders cx search limit d =
    take (nat limit) (cx_order_offenders cx (filter (offender_shown (cx_lib cx) search)
      (map (\<lambda>o'. (o', select_by br_remote_ip (or_remote_ip o') (firewall_blocks d))) (security_offenders d))))"

text \<open>The counters of the summary stay 0 when their query fails.\<close>

definition count_or_zero :: "err option \<Rightarrow> 'r list \<Rightarrow> int" where
  "count_or_zero flt rows = (if flt = None then int (length rows) else 0)"

definition handleSecurity :: "Server \<Rightarrow> link \<Rightarrow> handler" where
  "handleSecurity srv lk cx r d =
    (case requireAdmin r of Inl rsp \<Rightarrow> (rsp, d)
     | Inr user \<Rightarrow>
        if hr_Method r \<noteq> ''GET'' then (method_not_allowed, d)
        else
          let d1 = expire_blocks cx d;
              limit = min 500 (parseIntDefault (hr_Query r ''limit'') 100);
              search = TrimSpace (hr_Query r ''q'')
          in case cx_faults cx SelectOffenders of Some x \<Rightarrow> (writeError 500 x, d1)
             | None \<Rightarrow>
                if \<not> pg_text_ok (cx_lib cx) search then (writeError 500 ''invalid query value'', d1)
                else
                  let summary = \<lparr>
                    su_flagged = count_or_zero (cx_faults cx CountFlagged) (filter or_flagged (security_offenders d1)),
                    su_blocked = count_or_zero (cx_faults cx CountBlocked) (filter br_active (firewall_blocks d1)),
                    su_attemptsToday = count_or_zero (cx_faults cx CountAttempts)
                      (filter (\<lambda>e. nr_ts_utc e \<ge> cx_day cx \<and> nr_status e \<in> {401, 403, 404}) (nginx_security_events d1)),
                    su_firewallHealthy = (sv_firewall srv \<noteq> None \<and> Status lk (sv_firewall srv) = None)\<rparr>
                  in (writeJSON 200 (SecurityBody (map to_securityOffender (select_offenders cx search limit d1)) summary), d1))"

section \<open>What a block request does\<close>

lemma recordFirewallResult_block:
  assumes "recordFirewallResult cx uid ''block'' ip dur e d = Inr d'"
  shows "\<exists>b. select_by br_remote_ip ip (firewall_blocks d') = Some b \<and> br_active b = (e = None)
      \<and> br_blocked_at b = (if e = None then Some (cx_dbnow cx) else None) \<and> br_blocked_by b = Some uid \<and> br_last_error b = errorString e
      \<and> br_expires_at b = (if dur > 0 then Some (pg_time (cx_lib cx) (cx_now cx + wrap64 (dur * Second))) else None)"
    and "k \<noteq> ip \<Longrightarrow> select_by br_remote_ip k (firewall_blocks d') = select_by br_remote_ip k (firewall_blocks d)"
  using assms
  by (auto simp: recordFirewallResult_def upsert_block_def insert_audit_def Let_def select_by_upsert dest: select_by_key
      split: option.splits sum.splits if_splits)

lemma recordFirewallResult_audit:
  assumes "recordFirewallResult cx uid act ip dur e d = Inr d'"
  shows "\<exists>row. security_audit_log d' = security_audit_log d @ [row] \<and> ar_actor_user_id row = Some uid \<and> ar_action row = act
      \<and> ar_remote_ip row = ip \<and> ar_success row = (e = None) \<and> ar_ts_utc row = cx_dbnow cx"
  using assms
  by (auto simp: recordFirewallResult_def upsert_block_def release_block_def insert_audit_def Let_def
      split: option.splits sum.splits if_splits)

text \<open>An address the server lets an administrator block from a request.\<close>

definition target_ok :: "Server \<Rightarrow> http_request \<Rightarrow> ip \<Rightarrow> bool" where
  "target_ok srv r p \<longleftrightarrow> \<not> IsLoopback p \<and> \<not> IsUnspecified p \<and> \<not> IsMulticast p \<and> \<not> containsIP (sv_securityAllowlist srv) p
     \<and> (\<forall>me. ParseIP (clientIP r) = Some me \<longrightarrow> \<not> IP_Equal me p)"

lemma validateBlockTarget_exact:
  "validateBlockTarget srv v r = Inr ip \<longleftrightarrow> (\<exists>p. ParseIP (TrimSpace v) = Some p \<and> target_ok srv r p \<and> ip = IP_String p)"
  by (auto simp: validateBlockTarget_def target_ok_def split: option.splits)

definition accepted :: "Server \<Rightarrow> http_request \<Rightarrow> authUser \<Rightarrow> block_request \<Rightarrow> ip \<Rightarrow> bool" where
  "accepted srv r user q p \<longleftrightarrow> hr_user r = Some user \<and> au_Role user = ''admin'' \<and> decode_block (hr_Body r) = Some q
     \<and> ParseIP (TrimSpace (bq_IP q)) = Some p \<and> target_ok srv r p \<and> 0 \<le> bq_DurationSeconds q \<and> bq_DurationSeconds q \<le> 31536000"

lemma handleSecurityBlock_accepted:
  assumes "accepted srv r user q p" and "hr_Method r = ''POST''"
  shows "handleSecurityBlock srv lk cx r d =
    (let e = firewall_call srv lk ''block'' (IP_String p) (bq_DurationSeconds q)
     in case recordFirewallResult cx (au_ID user) ''block'' (IP_String p) (bq_DurationSeconds q) e d of
          Inl x \<Rightarrow> (writeError 500 x, d)
        | Inr d1 \<Rightarrow> (case e of Some x \<Rightarrow> (writeError 502 x, d1)
                     | None \<Rightarrow> (writeJSON 200 (FieldsBody [(''ip'', IP_String p), (''status'', ''blocked'')]), d1)))"
proof -
  have "validateBlockTarget srv (bq_IP q) r = Inr (IP_String p)" using assms(1) by (auto simp: accepted_def validateBlockTarget_exact)
  moreover have "max_timeout = 31536000" by (simp add: max_timeout_def duration_defs)
  ultimately show ?thesis using assms
    by (simp add: handleSecurityBlock_def requireAdmin_def currentUser_def accepted_def Let_def split: sum.split option.split)
qed

lemma handleSecurityBlock_refused:
  assumes "hr_Method r = ''POST''" and "\<And>user q p. \<not> accepted srv r user q p"
  shows "\<exists>rsp. hp_Status rsp \<in> {400, 401, 403} \<and> (\<forall>lk. handleSecurityBlock srv lk cx r d = (rsp, d))"
proof (cases "requireAdmin r")
  case (Inl rsp)
  then have "hp_Status rsp \<in> {401, 403}" by (auto simp: requireAdmin_def split: option.splits if_splits)
  then show ?thesis using Inl by (simp add: handleSecurityBlock_def)
next
  case (Inr user)
  then have u: "hr_user r = Some user" "au_Role user = ''admin''" by (auto simp: requireAdmin_def currentUser_def split: option.splits if_splits)
  show ?thesis
  proof (cases "decode_block (hr_Body r)")
    case None
    then show ?thesis using Inr assms(1) by (auto simp: handleSecurityBlock_def)
  next
    case (Some q)
    show ?thesis
    proof (cases "validateBlockTarget srv (bq_IP q) r")
      case (Inl x)
      then show ?thesis using Inr Some assms(1) by (auto simp: handleSecurityBlock_def)
    next
      case ip: (Inr ip)
      then obtain p where "ParseIP (TrimSpace (bq_IP q)) = Some p" "target_ok srv r p" by (auto simp: validateBlockTarget_exact)
      then have "bq_DurationSeconds q < 0 \<or> bq_DurationSeconds q > max_timeout"
        using assms(2)[of user q p] u Some by (auto simp: accepted_def max_timeout_def duration_defs)
      then show ?thesis using Inr Some ip assms(1) by (auto simp: handleSecurityBlock_def)
    qed
  qed
qed

lemma firewall_call_agent:
  assumes "length p = 16" and "0 \<le> t" and "t \<le> 31536000" and "sv_firewall srv = Some c"
  shows "firewall_call srv (agent_link exec a h) ''block'' (IP_String p) t = None \<longleftrightarrow>
    fc_socketPath c \<noteq> [] \<and> blockable a p \<and> snd (exec h (add_command a p t)) = None"
proof -
  have t: "int64_min \<le> t" "t \<le> int64_max" using assms(2,3) by (simp_all add: int64_defs)
  have "ParseIP (TrimSpace (IP_String p)) = Some p" using ParseIP_IP_String[OF assms(1)] by (simp add: TrimSpace_IP_String)
  then have "Block (agent_link exec a h) (Some c) (IP_String p) t = None \<longleftrightarrow>
      fc_socketPath c \<noteq> [] \<and> blockable a p \<and> snd (exec h (add_command a p t)) = None"
    using block_outcome[OF refl refl valid_utf8_IP_String t, of exec a h c] assms(2,3) by simp
  then show ?thesis using assms(4) by (auto simp: firewall_call_def Available_def)
qed

text \<open>
  C28. A block request, from the browser to the firewall and into the records. A \<^verbatim>\<open>POST\<close> to the block
  route is accepted exactly when it comes from an administrator, its body decodes, the address is one the
  server lets be blocked (not loopback, unspecified or multicast, not in the server's allowlist, not the
  client's own) and the duration is between 0 and 365 days. A request that is not accepted is answered 400, 401 or 403,
  changes nothing, and is answered the same whatever the agent would say. An accepted one, when its outcome can be recorded, is answered 200 exactly
  when the agent ran \<^verbatim>\<open>ipset add\<close> for the canonical address with that timeout and it succeeded; then
  the block is recorded as active with its expiry and its author, and otherwise as inactive with the error, and the audit log
  gains one entry that says so.
\<close>

theorem block_request_exact:
  assumes "hr_Method r = ''POST''" and "sv_firewall srv = Some c" and "fc_socketPath c \<noteq> []"
    and "handleSecurityBlock srv (agent_link exec a h) cx r d = (rsp, d')"
  shows "((\<forall>user q p. \<not> accepted srv r user q p) \<longrightarrow>
      hp_Status rsp \<in> {400, 401, 403} \<and> d' = d \<and> (\<forall>lk. handleSecurityBlock srv lk cx r d = (rsp, d)))
    \<and> (\<forall>user q p ok. accepted srv r user q p \<and> hp_Status rsp \<noteq> 500
        \<and> ok = (blockable a p \<and> snd (exec h (add_command a p (bq_DurationSeconds q))) = None) \<longrightarrow>
          hp_Status rsp = (if ok then 200 else 502)
        \<and> (\<exists>b. select_by br_remote_ip (IP_String p) (firewall_blocks d') = Some b \<and> br_active b = ok \<and> br_blocked_by b = Some (au_ID user)
              \<and> br_expires_at b = (if bq_DurationSeconds q > 0
                    then Some (pg_time (cx_lib cx) (cx_now cx + bq_DurationSeconds q * 1000000000)) else None))
        \<and> (\<exists>row. security_audit_log d' = security_audit_log d @ [row] \<and> ar_actor_user_id row = Some (au_ID user)
              \<and> ar_action row = ''block'' \<and> ar_remote_ip row = IP_String p \<and> ar_success row = ok))"
proof -
  have "hp_Status rsp = (if ok then 200 else 502)
        \<and> (\<exists>b. select_by br_remote_ip (IP_String p) (firewall_blocks d') = Some b \<and> br_active b = ok \<and> br_blocked_by b = Some (au_ID user)
              \<and> br_expires_at b = (if bq_DurationSeconds q > 0
                    then Some (pg_time (cx_lib cx) (cx_now cx + bq_DurationSeconds q * 1000000000)) else None))
        \<and> (\<exists>row. security_audit_log d' = security_audit_log d @ [row] \<and> ar_actor_user_id row = Some (au_ID user)
              \<and> ar_action row = ''block'' \<and> ar_remote_ip row = IP_String p \<and> ar_success row = ok)"
    if acc: "accepted srv r user q p" and st: "hp_Status rsp \<noteq> 500"
      and ok: "ok = (blockable a p \<and> snd (exec h (add_command a p (bq_DurationSeconds q))) = None)" for user q p ok
  proof -
    let ?t = "bq_DurationSeconds q" and ?e = "firewall_call srv (agent_link exec a h) ''block'' (IP_String p) (bq_DurationSeconds q)"
    have t: "0 \<le> ?t" "?t \<le> 31536000" and p: "length p = 16" using acc ParseIP_length by (auto simp: accepted_def)
    have e: "?e = None \<longleftrightarrow> ok" using firewall_call_agent[OF p t assms(2)] assms(3) ok by simp
    obtain d1 where rec: "recordFirewallResult cx (au_ID user) ''block'' (IP_String p) ?t ?e d = Inr d1" and d': "d' = d1"
        and rsp: "hp_Status rsp = (if ?e = None then 200 else 502)"
      using assms(4) st unfolding handleSecurityBlock_accepted[OF acc assms(1)] Let_def by (auto split: sum.splits option.splits)
    have w: "wrap64 (?t * Second) = ?t * 1000000000" using t by (subst wrap64_id) (simp_all add: int64_defs Second_def)
    show ?thesis using recordFirewallResult_block(1)[OF rec] recordFirewallResult_audit[OF rec] rsp e d' w by auto
  qed
  moreover have "hp_Status rsp \<in> {400, 401, 403} \<and> d' = d \<and> (\<forall>lk. handleSecurityBlock srv lk cx r d = (rsp, d))"
    if none: "\<forall>user q p. \<not> accepted srv r user q p"
  proof -
    obtain rsp0 where r0: "hp_Status rsp0 \<in> {400, 401, 403}" "\<And>lk. handleSecurityBlock srv lk cx r d = (rsp0, d)"
      using handleSecurityBlock_refused[OF assms(1), of srv cx d] none by blast
    then show ?thesis using assms(4) r0(2)[of "agent_link exec a h"] by auto
  qed
  ultimately show ?thesis by blast
qed


definition example_admin :: authUser where
  "example_admin = \<lparr>au_ID = 1, au_Email = ''ada@b.org'', au_Role = ''admin'', au_CreatedAt = []\<rparr>"

definition example_block_body :: string where
  "example_block_body = encode (JObj [(''ip'', JStr ''203.0.113.9''), (''durationSeconds'', JNum (FormatInt 60))])"

lemma example_block: "decode_block example_block_body = Some \<lparr>bq_IP = ''203.0.113.9'', bq_DurationSeconds = 60\<rparr>"
proof -
  let ?v = "JObj [(''ip'', JStr ''203.0.113.9''), (''durationSeconds'', JNum (FormatInt 60))]"
  have "length (FormatInt 60) = 2" by (simp add: FormatInt_def nat_digits.simps)
  then have "decode_limited (2 ^ 16) example_block_body = Some ?v"
    unfolding example_block_body_def
    by (subst decode_limited_encode) (simp_all add: max_depth_def encode_eval valid_utf8_ascii parse_number_FormatInt)
  then show ?thesis by (simp add: decode_block_def set_block_field_def field_eval Atoi_FormatInt int64_defs)
qed

definition example_block_request :: "string \<Rightarrow> http_request" where
  "example_block_request m = (example_request m ''/api/security/block'' example_block_body None)\<lparr>hr_user := Some example_admin\<rparr>"

lemma example_accepted:
  "accepted example_server (example_block_request m) example_admin \<lparr>bq_IP = ''203.0.113.9'', bq_DurationSeconds = 60\<rparr> (v4InV6Prefix @ [203, 0, 113, 9])"
proof -
  have "clientIP (example_block_request m) = ''198.51.100.7''"
    by (simp add: clientIP_def example_block_request_def example_request_def split_host_def)
  moreover have "ParseIP ''198.51.100.7'' = Some (v4InV6Prefix @ [198, 51, 100, 7])"
    by (simp add: ParseIP_def ParseAddr_def parseIPv4Fields_def parse_octet_def digit_val_def)
  ultimately show ?thesis using example_blockable example_ip
    by (simp add: accepted_def example_block_request_def example_request_def example_admin_def example_block target_ok_def plain_eval
        blockable_def example_server_def IP_Equal_def)
qed

theorem block_request_exact_witness:
  "\<exists>b. select_by br_remote_ip (IP_String (v4InV6Prefix @ [203, 0, 113, 9]))
      (firewall_blocks (snd (handleSecurityBlock example_server (agent_link (\<lambda>_ _. ([], None)) example_agent []) (example_cx 0)
        (example_block_request ''POST'') empty_db))) = Some b \<and> br_active b"
proof -
  let ?lk = "agent_link (\<lambda>_ _. ([], None)) example_agent []" and ?r = "example_block_request ''POST''"
  have m: "hr_Method ?r = ''POST''" by (simp add: example_block_request_def example_request_def)
  have c: "sv_firewall example_server = Some (NewFirewallClient ''/run/fw.sock'')" "fc_socketPath (NewFirewallClient ''/run/fw.sock'') \<noteq> []"
    by (simp_all add: example_server_def NewFirewallClient_def)
  have call: "firewall_call example_server ?lk ''block'' (IP_String (v4InV6Prefix @ [203, 0, 113, 9])) 60 = None"
    using firewall_call_agent[OF _ _ _ c(1), of "v4InV6Prefix @ [203, 0, 113, 9]" 60] c(2) example_blockable by simp
  have "IP_String (v4InV6Prefix @ [203, 0, 113, 9]) = ''203.0.113.9''"
    by (simp add: To4_def v4InV6Prefix_def IP_String_def string4_def nat_digits.simps char_of_def bit_simps)
  then have "hp_Status (fst (handleSecurityBlock example_server ?lk (example_cx 0) ?r empty_db)) \<noteq> 500"
    unfolding handleSecurityBlock_accepted[OF example_accepted m] Let_def block_request.simps call
    by (simp add: recordFirewallResult_def upsert_block_def insert_audit_def example_cx_def no_faults_def errorString_def Let_def example_lib_def FormatInt_def nat_digits.simps char_of_def bit_simps)
  then show ?thesis
    using conjunct2[OF block_request_exact[OF m c surjective_pairing, of "\<lambda>_ _. ([], None)" example_agent "[]" "example_cx 0" empty_db],
        rule_format, of example_admin "\<lparr>bq_IP = ''203.0.113.9'', bq_DurationSeconds = 60\<rparr>" "v4InV6Prefix @ [203, 0, 113, 9]" True]
      example_accepted[of "''POST''"] example_blockable by auto
qed


section \<open>A failed unblock\<close>

lemma handleSecurityBlock_unblock:
  assumes "accepted srv r user q p" and "hr_Method r = ''DELETE''"
  shows "handleSecurityBlock srv lk cx r d =
    (let e = firewall_call srv lk ''unblock'' (IP_String p) (bq_DurationSeconds q)
     in case recordFirewallResult cx (au_ID user) ''unblock'' (IP_String p) (bq_DurationSeconds q) e d of
          Inl x \<Rightarrow> (writeError 500 x, d)
        | Inr d1 \<Rightarrow> (case e of Some x \<Rightarrow> (writeError 502 x, d1)
                     | None \<Rightarrow> (writeJSON 200 (FieldsBody [(''ip'', IP_String p), (''status'', ''unblocked'')]), d1)))"
proof -
  have "validateBlockTarget srv (bq_IP q) r = Inr (IP_String p)" using assms(1) by (auto simp: accepted_def validateBlockTarget_exact)
  moreover have "max_timeout = 31536000" by (simp add: max_timeout_def duration_defs)
  ultimately show ?thesis using assms
    by (simp add: handleSecurityBlock_def requireAdmin_def currentUser_def accepted_def Let_def split: sum.split option.split)
qed

text \<open>
  C29. A failed unblock is recorded as if it had succeeded. When an accepted unblock request gets an
  error from the firewall (the agent cannot be reached, or \<^verbatim>\<open>ipset del\<close> failed, so the address is
  still in the set), the client is told with status 502, but the block of that address is
  recorded as inactive: the dashboard shows an address as free that the host still drops.
\<close>

theorem failed_unblock_recorded_inactive:
  assumes "accepted srv r user q p" and "hr_Method r = ''DELETE''"
    and "firewall_call srv lk ''unblock'' (IP_String p) (bq_DurationSeconds q) = Some x"
    and "handleSecurityBlock srv lk cx r d = (rsp, d')" and "hp_Status rsp \<noteq> 500"
    and "select_by br_remote_ip (IP_String p) (firewall_blocks d) = Some b"
  shows "hp_Status rsp = 502 \<and> (\<exists>b'. select_by br_remote_ip (IP_String p) (firewall_blocks d') = Some b' \<and> \<not> br_active b')"
  using assms(4,5,6) unfolding handleSecurityBlock_unblock[OF assms(1,2)] Let_def assms(3)
  by (auto simp: recordFirewallResult_def release_block_def insert_audit_def Let_def select_by_update_key
      split: option.splits sum.splits if_splits)

theorem failed_unblock_recorded_inactive_witness:
  "let p = v4InV6Prefix @ [203, 0, 113, 9];
       d = empty_db\<lparr>firewall_blocks := [\<lparr>br_remote_ip = IP_String p, br_active = True, br_blocked_at = Some 0, br_expires_at = None,
            br_blocked_by = Some 1, br_last_error = [], br_updated_at = 0\<rparr>]\<rparr>
   in hp_Status (fst (handleSecurityBlock example_server (example_link\<lparr>lk_dial := Some ''refused''\<rparr>) (example_cx 0) (example_block_request ''DELETE'') d)) = 502"
proof -
  let ?p = "v4InV6Prefix @ [203, 0, 113, 9]" and ?lk = "example_link\<lparr>lk_dial := Some ''refused''\<rparr>" and ?r = "example_block_request ''DELETE''"
  let ?d = "empty_db\<lparr>firewall_blocks := [\<lparr>br_remote_ip = IP_String ?p, br_active = True, br_blocked_at = Some 0, br_expires_at = None,
      br_blocked_by = Some 1, br_last_error = [], br_updated_at = 0\<rparr>]\<rparr>"
  have m: "hr_Method ?r = ''DELETE''" by (simp add: example_block_request_def example_request_def)
  have x: "firewall_call example_server ?lk ''unblock'' (IP_String ?p) 60 = Some ''connect firewall agent: refused''"
    by (simp add: firewall_call_def example_server_def NewFirewallClient_def Available_def Unblock_def client_request_def)
  have ip: "IP_String ?p = ''203.0.113.9''"
    by (simp add: To4_def v4InV6Prefix_def IP_String_def string4_def nat_digits.simps char_of_def bit_simps)
  have st: "hp_Status (fst (handleSecurityBlock example_server ?lk (example_cx 0) ?r ?d)) \<noteq> 500"
    unfolding handleSecurityBlock_unblock[OF example_accepted m] Let_def block_request.simps ip x[unfolded ip]
    by (simp add: recordFirewallResult_def release_block_def insert_audit_def example_cx_def no_faults_def errorString_def Let_def example_lib_def)
  have x': "firewall_call example_server ?lk ''unblock'' (IP_String ?p) (bq_DurationSeconds \<lparr>bq_IP = ''203.0.113.9'', bq_DurationSeconds = 60\<rparr>)
      = Some ''connect firewall agent: refused''" using x by simp
  show ?thesis unfolding Let_def
    using failed_unblock_recorded_inactive[OF example_accepted m x' surjective_pairing st] by simp
qed

end
