(* ===== verification/Server.thy ===== *)
theory Server
  imports Security
begin

text \<open>
  The HTTP server (\<^verbatim>\<open>src/server.go\<close>): its configuration, the middlewares, the query over the mail
  transactions, and the routing of a request to its handler.
\<close>

section \<open>Configuration\<close>

definition parseAllowedOrigins :: "string \<Rightarrow> string \<Rightarrow> bool" where
  "parseAllowedOrigins v origin \<longleftrightarrow> origin \<noteq> [] \<and> origin \<in> set (map TrimSpace (Split v (CHR '','')))"

definition default_allowlist :: string where
  "default_allowlist = ''127.0.0.0/8,::1/128''"

definition NewServer :: "lib \<Rightarrow> environ \<Rightarrow> Server" where
  "NewServer L getenv =
    \<lparr>sv_allowedOrigins = parseAllowedOrigins (envOrDefault getenv ''ALLOWED_ORIGINS'' ''http://localhost:3000''),
     sv_firewall = Some (NewFirewallClient (envOrDefault getenv ''FIREWALL_AGENT_SOCKET'' [])),
     sv_securityAllowlist =
       (case parseCIDRs L (envOrDefault getenv ''SECURITY_IP_ALLOWLIST'' default_allowlist) of
          Inr ns \<Rightarrow> ns
        | Inl _ \<Rightarrow> (case parseCIDRs L default_allowlist of Inr ns \<Rightarrow> ns | Inl _ \<Rightarrow> []))\<rparr>"

section \<open>Middlewares\<close>

text \<open>Headers a middleware sets before the handler runs; the handler may set them again.\<close>

definition with_headers :: "(string \<rightharpoonup> string) \<Rightarrow> http_response \<Rightarrow> http_response" where
  "with_headers m rsp = rsp\<lparr>hp_Header := m ++ hp_Header rsp\<rparr>"

definition withSecurityHeaders :: "handler \<Rightarrow> handler" where
  "withSecurityHeaders nxt cx r d =
    (case nxt cx r d of (rsp, d') \<Rightarrow>
      (with_headers [''X-Content-Type-Options'' \<mapsto> ''nosniff'', ''X-Frame-Options'' \<mapsto> ''DENY'',
         ''Referrer-Policy'' \<mapsto> ''same-origin'', ''Content-Security-Policy'' \<mapsto> ''frame-ancestors '' @ [CHR 0x27] @ ''none'' @ [CHR 0x27]] rsp, d'))"

definition withCORS :: "Server \<Rightarrow> handler \<Rightarrow> handler" where
  "withCORS srv nxt cx r d =
    (let origin = hr_Header r ''Origin'';
         allow = (if origin = [] then Map.empty
                  else [''Vary'' \<mapsto> ''Origin'', ''Access-Control-Allow-Origin'' \<mapsto> origin, ''Access-Control-Allow-Credentials'' \<mapsto> ''true'']);
         hdrs = allow(''Access-Control-Allow-Methods'' \<mapsto> ''GET, POST, DELETE, OPTIONS'', ''Access-Control-Allow-Headers'' \<mapsto> ''Content-Type'')
     in if origin \<noteq> [] \<and> \<not> sv_allowedOrigins srv origin then (writeError 403 ''origin not allowed'', d)
        else if hr_Method r = ''OPTIONS'' then (\<lparr>hp_Status = 204, hp_Header = hdrs, hp_Cookies = [], hp_Body = NoBody, hp_Log = []\<rparr>, d)
        else case nxt cx r d of (rsp, d') \<Rightarrow> (with_headers hdrs rsp, d'))"

text \<open>\<^verbatim>\<open>withLogging\<close> logs the address, the method, the status the recorder saw and the path.\<close>

definition withLogging :: "handler \<Rightarrow> handler" where
  "withLogging nxt cx r d =
    (case nxt cx r d of (rsp, d') \<Rightarrow>
      (rsp\<lparr>hp_Log := hp_Log rsp @ [clientIP r @ '' '' @ hr_Method r @ '' '' @ FormatInt (hp_Status rsp) @ '' '' @ hr_Path r]\<rparr>, d'))"

section \<open>The mail log query\<close>

datatype arg = ATime instant | AText string

definition normalizeTime :: "string \<Rightarrow> arg" where
  "normalizeTime v = (case parse_RFC3339 v of Some t \<Rightarrow> ATime t
     | None \<Rightarrow> (case parse_sql_time v of Some t \<Rightarrow> ATime t | None \<Rightarrow> AText v))"

text \<open>The conditions the handler may add, in the order it adds them, each with its argument.\<close>

datatype condition = ArrivalFrom | ArrivalTo | SenderLike | ReceiverLike | StatusIs | RawLike

fun condition_sql :: "condition \<Rightarrow> string" where
  "condition_sql ArrivalFrom = ''arrival_ts_utc >= ''"
| "condition_sql ArrivalTo = ''arrival_ts_utc <= ''"
| "condition_sql SenderLike = ''mail_from ILIKE ''"
| "condition_sql ReceiverLike = ''mail_to ILIKE ''"
| "condition_sql StatusIs = ''status = ''"
| "condition_sql RawLike = ''raw ILIKE ''"

definition add_condition :: "string \<Rightarrow> condition \<Rightarrow> arg \<Rightarrow> (condition \<times> arg) list" where
  "add_condition v c a = (if v = [] then [] else [(c, a)])"

definition logs_conditions :: "(string \<Rightarrow> string) \<Rightarrow> (condition \<times> arg) list" where
  "logs_conditions q =
    add_condition (q ''from'') ArrivalFrom (normalizeTime (q ''from''))
    @ add_condition (q ''to'') ArrivalTo (normalizeTime (q ''to''))
    @ add_condition (q ''sender'') SenderLike (AText (like_pattern (q ''sender'')))
    @ add_condition (q ''receiver'') ReceiverLike (AText (like_pattern (q ''receiver'')))
    @ add_condition (q ''status'') StatusIs (AText (q ''status''))
    @ add_condition (q ''q'') RawLike (AText (like_pattern (q ''q'')))"

text \<open>\<^verbatim>\<open>addArg\<close> numbers the arguments from 1; the limit and the offset come last.\<close>

definition placeholder :: "nat \<Rightarrow> string" where
  "placeholder n = CHR ''$'' # nat_digits n"

definition whereSQL :: "condition list \<Rightarrow> string" where
  "whereSQL cs = Join (''1=1'' # map2 (\<lambda>c i. condition_sql c @ placeholder i) cs [1..<Suc (length cs)]) '' AND ''"

definition countSQL :: "condition list \<Rightarrow> string" where
  "countSQL cs = ''SELECT COUNT(*) FROM mail_transactions WHERE '' @ whereSQL cs"

definition querySQL :: "condition list \<Rightarrow> string" where
  "querySQL cs = [CHR 0x0A] @
     ''SELECT id, arrival_ts_utc, mail_from, mail_to, status, host, process, queue_id, relay, delay, delays, dsn, message_id, size_bytes, queued_as, mail_id, subject, hits, helo, amavis_origin, is_junk, spam_score, timed_out, raw''
     @ [CHR 0x0A] @ ''FROM mail_transactions'' @ [CHR 0x0A] @ ''WHERE '' @ whereSQL cs @ [CHR 0x0A]
     @ ''ORDER BY arrival_ts_utc DESC'' @ [CHR 0x0A]
     @ ''LIMIT '' @ placeholder (length cs + 1) @ '' OFFSET '' @ placeholder (length cs + 2) @ '';''"

text \<open>
  What the statements mean: an argument the server cannot read is an error of the statement,
  otherwise a row is selected when every condition holds of it.
\<close>

fun arg_time :: "lib \<Rightarrow> arg \<Rightarrow> instant option" where
  "arg_time L (ATime t) = Some (pg_time L t)"
| "arg_time L (AText v) = (if pg_text_ok L v then pg_parse_time L v else None)"

fun arg_text :: "arg \<Rightarrow> string" where
  "arg_text (AText v) = v"
| "arg_text (ATime t) = []"

definition arg_ok :: "lib \<Rightarrow> condition \<times> arg \<Rightarrow> bool" where
  "arg_ok L ca = (case ca of (c, a) \<Rightarrow>
     if c = ArrivalFrom \<or> c = ArrivalTo then arg_time L a \<noteq> None else pg_text_ok L (arg_text a))"

fun holds :: "lib \<Rightarrow> condition \<times> arg \<Rightarrow> tx_row \<Rightarrow> bool" where
  "holds L (ArrivalFrom, a) row = (case arg_time L a of None \<Rightarrow> False | Some t \<Rightarrow> tr_arrival_ts_utc row \<ge> t)"
| "holds L (ArrivalTo, a) row = (case arg_time L a of None \<Rightarrow> False | Some t \<Rightarrow> tr_arrival_ts_utc row \<le> t)"
| "holds L (SenderLike, a) row = pg_ilike L (tr_mail_from row) (arg_text a)"
| "holds L (ReceiverLike, a) row = pg_ilike L (tr_mail_to row) (arg_text a)"
| "holds L (StatusIs, a) row = (tr_status row = arg_text a)"
| "holds L (RawLike, a) row = pg_ilike L (tr_raw row) (arg_text a)"

definition selected :: "lib \<Rightarrow> (condition \<times> arg) list \<Rightarrow> db \<Rightarrow> tx_row list" where
  "selected L cas d = filter (\<lambda>row. list_all (\<lambda>ca. holds L ca row) cas) (mail_transactions d)"

definition to_logRecord :: "tx_row \<Rightarrow> logRecord" where
  "to_logRecord t = \<lparr>lg_ID = tr_id t, lg_TSUTC = format_RFC3339 (tr_arrival_ts_utc t), lg_From = tr_mail_from t, lg_To = tr_mail_to t,
    lg_Status = tr_status t, lg_Host = tr_host t, lg_Process = tr_process t, lg_QueueID = tr_queue_id t, lg_Relay = tr_relay t,
    lg_Delay = tr_delay t, lg_Delays = tr_delays t, lg_DSN = tr_dsn t, lg_MessageID = tr_message_id t, lg_SizeBytes = tr_size_bytes t,
    lg_QueuedAs = tr_queued_as t, lg_MailID = tr_mail_id t, lg_Subject = tr_subject t, lg_Hits = tr_hits t, lg_Helo = tr_helo t,
    lg_AmavisOrigin = tr_amavis_origin t, lg_IsJunk = tr_is_junk t, lg_SpamScore = tr_spam_score t, lg_TimedOut = tr_timed_out t,
    lg_Raw = tr_raw t\<rparr>"

definition handleLogs :: handler where
  "handleLogs cx r d =
    (let q = hr_Query r; cas = logs_conditions q; rows = selected (cx_lib cx) cas d;
         limit = min 500 (parseIntDefault (q ''limit'') 100); offset = parseIntDefault (q ''offset'') 0;
         bad = \<not> list_all (arg_ok (cx_lib cx)) cas
     in case cx_faults cx CountLogs of Some x \<Rightarrow> (writeError 500 x, d)
        | None \<Rightarrow>
           if bad then (writeError 500 ''invalid query value'', d)
           else case cx_faults cx SelectLogs of Some x \<Rightarrow> (writeError 500 x, d)
           | None \<Rightarrow> (writeJSON 200 (LogsBody (int (length rows))
                (map to_logRecord (take (nat limit) (drop (nat offset) (cx_order_tx cx rows))))), d))"

section \<open>Routing\<close>

definition handleHealth :: handler where
  "handleHealth cx r d = (writeJSON 200 (FieldsBody [(''status'', ''ok'')]), d)"

text \<open>
  The registered patterns match their path exactly; \<open>fallback\<close> is what \<^verbatim>\<open>http.ServeMux\<close> answers for any
  other path (not found, or a redirect to the cleaned path).
\<close>

definition mux :: "Server \<Rightarrow> link \<Rightarrow> (http_request \<Rightarrow> http_response) \<Rightarrow> handler" where
  "mux srv lk fallback cx r d =
    (if hr_Path r = ''/api/health'' then handleHealth cx r d
     else if hr_Path r = ''/api/auth/login'' then handleLogin cx r d
     else if hr_Path r = ''/api/auth/logout'' then handleLogout cx r d
     else if hr_Path r = ''/api/auth/me'' then requireAuth handleMe cx r d
     else if hr_Path r = ''/api/users'' then requireAuth handleUsers cx r d
     else if hr_Path r = ''/api/logs'' then requireAuth handleLogs cx r d
     else if hr_Path r = ''/api/security'' then requireAuth (handleSecurity srv lk) cx r d
     else if hr_Path r = ''/api/security/block'' then requireAuth (handleSecurityBlock srv lk) cx r d
     else if hr_Path r = ''/api/security/dismiss'' then requireAuth handleSecurityDismiss cx r d
     else (fallback r, d))"

text \<open>The handler \<^verbatim>\<open>ListenAndServe\<close> installs, and a sequence of requests. A request arrives without a context user.\<close>

definition serve :: "Server \<Rightarrow> link \<Rightarrow> (http_request \<Rightarrow> http_response) \<Rightarrow> handler" where
  "serve srv lk fallback cx r d =
    withCORS srv (withSecurityHeaders (withLogging (mux srv lk fallback))) cx (r\<lparr>hr_user := None\<rparr>) d"

section \<open>Origins\<close>

abbreviation json_header :: "string \<rightharpoonup> string" where
  "json_header \<equiv> [''Content-Type'' \<mapsto> ''application/json'']"

lemma write_header [simp]: "hp_Header (writeJSON st b) = json_header" "hp_Header (writeError st e) = json_header"
  "hp_Header method_not_allowed = json_header"
  by (simp_all add: writeJSON_def writeError_def method_not_allowed_def)

lemma handler_header:
  "hp_Header (fst (handleHealth cx r d)) = json_header" "hp_Header (fst (handleLogin cx r d)) = json_header"
  "hp_Header (fst (handleLogout cx r d)) = json_header" "hp_Header (fst (handleMe cx r d)) = json_header"
  "hp_Header (fst (handleLogs cx r d)) = json_header" "hp_Header (fst (handleUsers cx r d)) = json_header"
  by (auto simp: handleHealth_def handleLogin_def handleLogout_def handleMe_def handleLogs_def handleUsers_def listUsers_def
      server_createUser_def Let_def split: option.splits sum.splits prod.splits)

lemma requireAdmin_header: "requireAdmin r = Inl rsp \<Longrightarrow> hp_Header rsp = json_header"
  by (auto simp: requireAdmin_def split: option.splits if_splits)

lemma security_header:
  "hp_Header (fst (handleSecurity srv lk cx r d)) = json_header" "hp_Header (fst (handleSecurityBlock srv lk cx r d)) = json_header"
  "hp_Header (fst (handleSecurityDismiss cx r d)) = json_header"
  by (auto simp: handleSecurity_def handleSecurityBlock_def handleSecurityDismiss_def Let_def requireAdmin_header
      split: option.splits sum.splits prod.splits)

lemma mux_header:
  assumes "k \<notin> dom (hp_Header (fb r))" and "k \<noteq> ''Content-Type''"
  shows "hp_Header (fst (mux srv lk fb cx r d)) k = None"
proof -
  have "hp_Header (fst (requireAuth nxt cx r d)) k = None" if "\<And>r. hp_Header (fst (nxt cx r d)) = json_header" for nxt
    using that assms(2) by (auto simp: requireAuth_def split: sum.splits)
  then show ?thesis using assms by (auto simp: mux_def handler_header security_header dom_def)
qed

text \<open>
  C30. Only the configured origins may read answers. A response carries
  \<^verbatim>\<open>Access-Control-Allow-Origin\<close> exactly when the request has an origin that is one of the
  comma-separated items of \<^verbatim>\<open>ALLOWED_ORIGINS\<close>, and then it is that origin itself, with
  credentials allowed; a request from another origin is answered 403 without reaching a handler, a preflight request 204, and neither changes the
  database. (The answer of the router for unknown paths does not set that header.)
\<close>

theorem cors_exact:
  assumes "serve (NewServer L getenv) lk fb cx r d = (rsp, d')"
    and "\<forall>r. ''Access-Control-Allow-Origin'' \<notin> dom (hp_Header (fb r))"
    and "origins = map TrimSpace (Split (envOrDefault getenv ''ALLOWED_ORIGINS'' ''http://localhost:3000'') (CHR '',''))"
    and "origin = hr_Header r ''Origin''"
  shows "hp_Header rsp ''Access-Control-Allow-Origin'' = (if origin \<noteq> [] \<and> origin \<in> set origins then Some origin else None)
    \<and> (origin \<noteq> [] \<and> origin \<notin> set origins \<longrightarrow> hp_Status rsp = 403 \<and> d' = d)
    \<and> (hr_Method r = ''OPTIONS'' \<longrightarrow> hp_Status rsp \<in> {204, 403} \<and> d' = d)"
proof -
  let ?r = "r\<lparr>hr_user := None\<rparr>" and ?srv = "NewServer L getenv"
  have al: "sv_allowedOrigins ?srv origin \<longleftrightarrow> origin \<noteq> [] \<and> origin \<in> set origins"
    by (simp add: NewServer_def parseAllowedOrigins_def assms(3))
  have h: "hp_Header (fst (mux ?srv lk fb cx ?r d)) ''Access-Control-Allow-Origin'' = None"
    by (rule mux_header) (use assms(2) in auto)
  show ?thesis using assms(1,4) al h
    by (auto simp: serve_def withCORS_def withSecurityHeaders_def withLogging_def with_headers_def Let_def map_add_def split: prod.splits if_splits)
qed

theorem cors_exact_witness:
  "hp_Header (fst (serve (NewServer example_lib (\<lambda>_. [])) example_link (\<lambda>r. writeError 404 ''not found'') (example_cx 0)
     ((example_request ''GET'' ''/api/health'' [] None)\<lparr>hr_Header := (\<lambda>k. if k = ''Origin'' then ''http://localhost:3000'' else [])\<rparr>) empty_db))
     ''Access-Control-Allow-Origin'' = Some ''http://localhost:3000''"
proof -
  let ?r = "(example_request ''GET'' ''/api/health'' [] None)\<lparr>hr_Header := (\<lambda>k. if k = ''Origin'' then ''http://localhost:3000'' else [])\<rparr>"
  have "map TrimSpace (Split (envOrDefault (\<lambda>_. []) ''ALLOWED_ORIGINS'' ''http://localhost:3000'') (CHR '','')) = [''http://localhost:3000'']"
    by (simp add: envOrDefault_def plain_eval)
  then show ?thesis
    using cors_exact[OF surjective_pairing _ refl refl, of "\<lambda>r. writeError 404 ''not found''" example_lib "\<lambda>_. []" example_link "example_cx 0" ?r empty_db] by simp
qed

section \<open>The mail log query\<close>

definition newest_first :: "tx_row list \<Rightarrow> bool" where
  "newest_first rows \<longleftrightarrow> sorted_wrt (\<lambda>a b. tr_arrival_ts_utc b \<le> tr_arrival_ts_utc a) rows"



lemma map_fst_add_condition: "map fst (add_condition v c a) = (if v = [] then [] else [c])"
  by (simp add: add_condition_def)

lemma length_add_condition: "length (add_condition v c a) = (if v \<noteq> [] then 1 else 0)"
  by (simp add: add_condition_def)



end
