(* ===== verification/Access.thy ===== *)
theory Access
  imports Server
begin

text \<open>
  Who may do what: what each handler changes in the database, where sessions come from and how long
  they last, and which changes only an administrator can make. The theorems are about whole runs
  of the server (\<open>serve_all\<close>), with any requests in any order.
\<close>

section \<open>What a request changes\<close>

text \<open>The tables other than the sessions, and other than the users.\<close>

lemma handleLogin_frame: "(snd (handleLogin cx r d))\<lparr>dashboard_sessions := []\<rparr> = d\<lparr>dashboard_sessions := []\<rparr>"
  by (auto simp: handleLogin_def Let_def delete_expired_def insert_session_def split: option.splits sum.splits)

lemma handleLogout_frame: "(snd (handleLogout cx r d))\<lparr>dashboard_sessions := []\<rparr> = d\<lparr>dashboard_sessions := []\<rparr>"
  by (auto simp: handleLogout_def Let_def split: option.splits)

lemma createUser_frame:
  "(snd (createUser L flt t e p ro d))\<lparr>dashboard_users := [], dashboard_users_seq := 0\<rparr> = d\<lparr>dashboard_users := [], dashboard_users_seq := 0\<rparr>"
  by (auto simp: createUser_def insert_user_def Let_def split: option.splits sum.splits prod.splits if_splits)

lemma handleUsers_frame:
  "(snd (handleUsers cx r d))\<lparr>dashboard_users := [], dashboard_users_seq := 0\<rparr> = d\<lparr>dashboard_users := [], dashboard_users_seq := 0\<rparr>"
proof -
  have "d'\<lparr>dashboard_users := [], dashboard_users_seq := 0\<rparr> = d\<lparr>dashboard_users := [], dashboard_users_seq := 0\<rparr>"
    if "createUser L flt t e p ro d = (x, d')" for L flt t e p ro x d'
    using createUser_frame[of L flt t e p ro d] that by simp
  then show ?thesis
    by (auto simp: handleUsers_def listUsers_def server_createUser_def split: option.splits sum.splits prod.splits)
qed

lemma read_only [simp]: "snd (handleMe cx r d) = d" "snd (handleLogs cx r d) = d" "snd (handleHealth cx r d) = d"
  by (auto simp: handleMe_def handleLogs_def handleHealth_def Let_def split: option.splits)

text \<open>The tables of the security API.\<close>

definition sans_security :: "db \<Rightarrow> db" where
  "sans_security d = d\<lparr>firewall_blocks := [], security_offenders := [], security_audit_log := [], security_audit_log_seq := 0\<rparr>"

lemma insert_audit_sans: "insert_audit cx uid act ip det ok d = Inr d' \<Longrightarrow> sans_security d' = sans_security d"
  by (auto simp: insert_audit_def sans_security_def split: option.splits if_splits)

lemma recordFirewallResult_sans:
  "recordFirewallResult cx uid act ip dur e d = Inr d' \<Longrightarrow> sans_security d' = sans_security d"
  by (auto simp: recordFirewallResult_def upsert_block_def release_block_def insert_audit_def sans_security_def Let_def
      split: option.splits sum.splits if_splits)

lemma handleSecurity_sans: "sans_security (snd (handleSecurity srv lk cx r d)) = sans_security d"
  by (auto simp: handleSecurity_def expire_blocks_def sans_security_def Let_def split: sum.splits option.splits)

lemma handleSecurityBlock_sans: "sans_security (snd (handleSecurityBlock srv lk cx r d)) = sans_security d"
  by (auto simp: handleSecurityBlock_def Let_def dest: recordFirewallResult_sans split: sum.splits option.splits)

lemma handleSecurityDismiss_sans: "sans_security (snd (handleSecurityDismiss cx r d)) = sans_security d"
proof -
  have "sans_security d' = sans_security (d\<lparr>security_offenders := os\<rparr>)"
    if "insert_audit cx uid act ip det ok (d\<lparr>security_offenders := os\<rparr>) = Inr d'" for uid act ip det ok os d'
    using insert_audit_sans[OF that] .
  moreover have "sans_security (d\<lparr>security_offenders := os\<rparr>) = sans_security d" for os by (simp add: sans_security_def)
  ultimately show ?thesis
    by (auto simp: handleSecurityDismiss_def Let_def split: sum.splits option.splits)
qed

text \<open>How a request gets to its handler.\<close>

definition refused :: "Server \<Rightarrow> http_request \<Rightarrow> bool" where
  "refused srv r \<longleftrightarrow> (hr_Header r ''Origin'' \<noteq> [] \<and> \<not> sv_allowedOrigins srv (hr_Header r ''Origin'')) \<or> hr_Method r = ''OPTIONS''"

lemma snd_serve:
  "snd (serve srv lk fb cx r d) = (if refused srv r then d else snd (mux srv lk fb cx (r\<lparr>hr_user := None\<rparr>) d))"
  by (auto simp: serve_def withCORS_def withSecurityHeaders_def withLogging_def refused_def Let_def split: prod.splits)

lemma fst_serve:
  assumes "\<not> refused srv r"
  shows "hp_Status (fst (serve srv lk fb cx r d)) = hp_Status (fst (mux srv lk fb cx (r\<lparr>hr_user := None\<rparr>) d))"
    and "hp_Cookies (fst (serve srv lk fb cx r d)) = hp_Cookies (fst (mux srv lk fb cx (r\<lparr>hr_user := None\<rparr>) d))"
    and "hp_Body (fst (serve srv lk fb cx r d)) = hp_Body (fst (mux srv lk fb cx (r\<lparr>hr_user := None\<rparr>) d))"
  using assms
  by (auto simp: serve_def withCORS_def withSecurityHeaders_def withLogging_def refused_def with_headers_def Let_def split: prod.splits)

lemma cookie_without_user [simp]:
  "sessionCookie cx (r\<lparr>hr_user := u\<rparr>) tok e = sessionCookie cx r tok e" "expiredSessionCookie (r\<lparr>hr_user := u\<rparr>) = expiredSessionCookie r"
  by (simp_all add: sessionCookie_def expiredSessionCookie_def isSecureRequest_def)

lemma without_user [simp]:
  "authenticateRequest cx (r\<lparr>hr_user := u\<rparr>) d = authenticateRequest cx r d"
  "handleLogin cx (r\<lparr>hr_user := u\<rparr>) d = handleLogin cx r d" "handleLogout cx (r\<lparr>hr_user := u\<rparr>) d = handleLogout cx r d"
  by (auto simp: authenticateRequest_def handleLogin_def handleLogout_def Let_def split: option.split sum.split)

lemma snd_requireAuth:
  "snd (requireAuth nxt cx r d) =
    (case authenticateRequest cx r d of Inl _ \<Rightarrow> d | Inr user \<Rightarrow> snd (nxt cx (r\<lparr>hr_user := Some user\<rparr>) d))"
  by (auto simp: requireAuth_def split: sum.splits)

lemma sans_security_tables:
  assumes "sans_security d' = sans_security d"
  shows "dashboard_sessions d' = dashboard_sessions d" "dashboard_users d' = dashboard_users d" "dashboard_users_seq d' = dashboard_users_seq d"
  using arg_cong[OF assms, of dashboard_sessions] arg_cong[OF assms, of dashboard_users] arg_cong[OF assms, of dashboard_users_seq]
  by (simp_all add: sans_security_def)

lemma handleUsers_sessions: "dashboard_sessions (snd (handleUsers cx r d)) = dashboard_sessions d"
  using arg_cong[OF handleUsers_frame[of cx r d], of dashboard_sessions] by simp

lemmas handler_tables = sans_security_tables[OF handleSecurity_sans] sans_security_tables[OF handleSecurityBlock_sans]
  sans_security_tables[OF handleSecurityDismiss_sans] handleUsers_sessions

lemma serve_sessions:
  assumes "hr_Path r \<noteq> ''/api/auth/login''" and "hr_Path r \<noteq> ''/api/auth/logout''"
  shows "dashboard_sessions (snd (serve srv lk fb cx r d)) = dashboard_sessions d"
  using assms by (auto simp: snd_serve mux_def snd_requireAuth handler_tables split: sum.splits)

lemma serve_login: "hr_Path r = ''/api/auth/login'' \<Longrightarrow> snd (serve srv lk fb cx r d) = (if refused srv r then d else snd (handleLogin cx r d))"
  by (simp add: snd_serve mux_def)

lemma serve_logout: "hr_Path r = ''/api/auth/logout'' \<Longrightarrow> snd (serve srv lk fb cx r d) = (if refused srv r then d else snd (handleLogout cx r d))"
  by (simp add: snd_serve mux_def)

section \<open>Sessions come from logins\<close>

text \<open>A login that succeeds with the token, and the session it stores.\<close>

definition login_ok :: "reqctx \<Rightarrow> http_request \<Rightarrow> db \<Rightarrow> user_row \<Rightarrow> string \<Rightarrow> bool" where
  "login_ok cx r d u tok \<longleftrightarrow> hr_Method r = ''POST'' \<and> randomToken cx = Inr tok
     \<and> (\<exists>c. decode_login (hr_Body r) = Some c \<and> check_credentials cx c d = Some u)
     \<and> hp_Status (fst (handleLogin cx r d)) = 200
     \<and> hp_Cookies (fst (handleLogin cx r d)) = [sessionCookie cx r tok (cx_now cx + sessionTTL)]"

definition session_of :: "reqctx \<Rightarrow> user_row \<Rightarrow> string \<Rightarrow> session_row" where
  "session_of cx u tok = \<lparr>sr_token_hash = hashToken (cx_lib cx) tok, sr_user_id = ur_id u,
     sr_expires_at = pg_time (cx_lib cx) (cx_now cx + sessionTTL), sr_created_at = cx_dbnow cx\<rparr>"

lemma check_credentials_delete: "check_credentials cx c (delete_expired cx d) = check_credentials cx c d"
  by (auto simp: check_credentials_def delete_expired_def split: sum.split)

lemma handleLogin_cases:
  obtains (Issued) u tok where "login_ok cx r d u tok"
      and "dashboard_sessions (snd (handleLogin cx r d)) = dashboard_sessions (delete_expired cx d) @ [session_of cx u tok]"
      and "select_by sr_token_hash (hashToken (cx_lib cx) tok) (dashboard_sessions (delete_expired cx d)) = None"
  | (Refused) "hp_Status (fst (handleLogin cx r d)) \<noteq> 200" "hp_Cookies (fst (handleLogin cx r d)) = []"
      "dashboard_sessions (snd (handleLogin cx r d)) \<in> {dashboard_sessions d, dashboard_sessions (delete_expired cx d)}"
proof (cases "\<exists>c u tok d2. hr_Method r = ''POST'' \<and> decode_login (hr_Body r) = Some c \<and> check_credentials cx c d = Some u
    \<and> randomToken cx = Inr tok \<and> insert_session cx tok (ur_id u) (cx_now cx + sessionTTL) (delete_expired cx d) = Inr d2")
  case True
  then obtain c u tok d2 where h: "hr_Method r = ''POST''" "decode_login (hr_Body r) = Some c" "check_credentials cx c d = Some u"
    "randomToken cx = Inr tok" and ins: "insert_session cx tok (ur_id u) (cx_now cx + sessionTTL) (delete_expired cx d) = Inr d2" by blast
  have ok: "login_ok cx r d u tok" using h ins
    by (simp add: login_ok_def handleLogin_def check_credentials_delete)
  have "dashboard_sessions (snd (handleLogin cx r d)) = dashboard_sessions (delete_expired cx d) @ [session_of cx u tok]"
    and "select_by sr_token_hash (hashToken (cx_lib cx) tok) (dashboard_sessions (delete_expired cx d)) = None"
    using h ins by (auto simp: handleLogin_def check_credentials_delete insert_session_def session_of_def Let_def split: option.splits if_splits)
  with ok show ?thesis by (rule Issued)
next
  case False
  then show ?thesis
    by (intro Refused) (auto simp: handleLogin_def check_credentials_delete Let_def split: option.splits sum.splits)
qed


text \<open>The requests of a run, each with its context and the state of the firewall's socket.\<close>

type_synonym arrival = "reqctx \<times> link \<times> http_request"

fun serve_all :: "Server \<Rightarrow> (http_request \<Rightarrow> http_response) \<Rightarrow> arrival list \<Rightarrow> db \<Rightarrow> db" where
  "serve_all srv fb [] d = d"
| "serve_all srv fb ((cx, lk, r) # rs) d = serve_all srv fb rs (snd (serve srv lk fb cx r d))"

lemma serve_all_append: "serve_all srv fb (rs @ rs') d = serve_all srv fb rs' (serve_all srv fb rs d)"
  by (induction rs arbitrary: d) auto

lemma sessions_after_request:
  assumes "s \<in> set (dashboard_sessions (snd (serve srv lk fb cx r d)))"
  shows "s \<in> set (dashboard_sessions d) \<or>
    (hr_Path r = ''/api/auth/login'' \<and> \<not> refused srv r \<and> (\<exists>u tok. login_ok cx r d u tok \<and> s = session_of cx u tok))"
proof -
  have del: "set (dashboard_sessions (delete_expired cx d)) \<subseteq> set (dashboard_sessions d)" by (auto simp: delete_expired_def)
  consider "hr_Path r = ''/api/auth/login''" | "hr_Path r = ''/api/auth/logout''"
    | "hr_Path r \<noteq> ''/api/auth/login''" "hr_Path r \<noteq> ''/api/auth/logout''" by blast
  then show ?thesis
  proof cases
    case 1
    then show ?thesis using assms serve_login[OF 1, of srv lk fb cx d] del
      by (cases rule: handleLogin_cases[of cx r d]) (auto split: if_splits)
  next
    case 2
    then show ?thesis using assms serve_logout[OF 2, of srv lk fb cx d]
      by (auto simp: handleLogout_def Let_def split: if_splits option.splits)
  next
    case 3
    then show ?thesis using assms by (simp add: serve_sessions)
  qed
qed

lemma session_origin:
  assumes "dashboard_sessions d0 = []" and "s \<in> set (dashboard_sessions (serve_all srv fb rs d0))"
  shows "\<exists>pre cx lk r post u tok. rs = pre @ (cx, lk, r) # post \<and> hr_Path r = ''/api/auth/login'' \<and> \<not> refused srv r
    \<and> login_ok cx r (serve_all srv fb pre d0) u tok \<and> s = session_of cx u tok"
  using assms(2)
proof (induction rs rule: rev_induct)
  case Nil
  then show ?case using assms(1) by simp
next
  case (snoc x rs)
  obtain cx lk r where x: "x = (cx, lk, r)" by (cases x) auto
  have "s \<in> set (dashboard_sessions (snd (serve srv lk fb cx r (serve_all srv fb rs d0))))"
    using snoc.prems x by (simp add: serve_all_append)
  from sessions_after_request[OF this] show ?case
  proof
    assume "s \<in> set (dashboard_sessions (serve_all srv fb rs d0))"
    from snoc.IH[OF this] show ?thesis by (metis append_Cons append_assoc)
  next
    assume "hr_Path r = ''/api/auth/login'' \<and> \<not> refused srv r
      \<and> (\<exists>u tok. login_ok cx r (serve_all srv fb rs d0) u tok \<and> s = session_of cx u tok)"
    then show ?thesis using x by blast
  qed
qed

lemma authenticated_session:
  assumes "authenticateRequest cx r d = Inr user"
  obtains v s u where "hr_Cookie r sessionCookieName = Some v" "v \<noteq> []" "s \<in> set (dashboard_sessions d)"
    "sr_token_hash s = hashToken (cx_lib cx) v" "cx_dbnow cx < sr_expires_at s" "select_by ur_id (sr_user_id s) (dashboard_users d) = Some u"
    "user = to_authUser u"
  using assms that by (auto simp: authenticateRequest_def dest: select_by_key split: option.splits if_splits)

text \<open>
  C24. Nobody is authenticated without having logged in. Start the server with no sessions and let
  any requests arrive, in any order, at any time, whatever the database answers. If a request is
  then authenticated as a user, an earlier request of the run was a \<^verbatim>\<open>POST\<close> to the login route whose
  email, normalised, is that of an account with the user's id and whose password matched its hash;
  the response to it set a cookie whose token has the hash of the token presented now, and the session
  is not older than its seven days.
\<close>

theorem authenticated_only_after_login:
  assumes "dashboard_sessions d0 = []" and "authenticateRequest cx r (serve_all srv fb rs d0) = Inr user"
  shows "\<exists>pre cx1 lk1 r1 post c email u tok v.
    rs = pre @ (cx1, lk1, r1) # post \<and> hr_Path r1 = ''/api/auth/login'' \<and> hr_Method r1 = ''POST''
    \<and> decode_login (hr_Body r1) = Some c \<and> normalizeEmail (cx_lib cx1) (cr_Email c) = Inr email
    \<and> u \<in> set (dashboard_users (serve_all srv fb pre d0)) \<and> ur_email u = email \<and> ur_id u = au_ID user
    \<and> bcrypt_Compare (cx_lib cx1) (ur_password_hash u) (cr_Password c)
    \<and> hp_Cookies (fst (serve srv lk1 fb cx1 r1 (serve_all srv fb pre d0))) = [sessionCookie cx1 r1 tok (cx_now cx1 + sessionTTL)]
    \<and> hr_Cookie r sessionCookieName = Some v \<and> hashToken (cx_lib cx) v = hashToken (cx_lib cx1) tok
    \<and> cx_dbnow cx < pg_time (cx_lib cx1) (cx_now cx1 + sessionTTL)"
proof -
  obtain v s u0 where v: "hr_Cookie r sessionCookieName = Some v" and s: "s \<in> set (dashboard_sessions (serve_all srv fb rs d0))"
    and h: "sr_token_hash s = hashToken (cx_lib cx) v" "cx_dbnow cx < sr_expires_at s"
    and u0: "select_by ur_id (sr_user_id s) (dashboard_users (serve_all srv fb rs d0)) = Some u0" "user = to_authUser u0"
    using authenticated_session[OF assms(2)] by metis
  obtain pre cx1 lk1 r1 post u tok where run: "rs = pre @ (cx1, lk1, r1) # post" "hr_Path r1 = ''/api/auth/login''" "\<not> refused srv r1"
    and lg: "login_ok cx1 r1 (serve_all srv fb pre d0) u tok" and so: "s = session_of cx1 u tok"
    using session_origin[OF assms(1) s] by blast
  obtain c where c: "decode_login (hr_Body r1) = Some c" "check_credentials cx1 c (serve_all srv fb pre d0) = Some u"
    using lg by (auto simp: login_ok_def)
  then obtain email where e: "normalizeEmail (cx_lib cx1) (cr_Email c) = Inr email"
      "select_by ur_email email (dashboard_users (serve_all srv fb pre d0)) = Some u"
      "bcrypt_Compare (cx_lib cx1) (ur_password_hash u) (cr_Password c)"
    by (auto simp: check_credentials_def split: sum.splits if_splits option.splits)
  have "ur_id u = au_ID user" using u0 so select_by_key[OF u0(1)] by (simp add: session_of_def to_authUser_def)
  moreover have "hp_Cookies (fst (serve srv lk1 fb cx1 r1 (serve_all srv fb pre d0))) = [sessionCookie cx1 r1 tok (cx_now cx1 + sessionTTL)]"
    using lg run(2) fst_serve(2)[OF run(3)] by (simp add: mux_def login_ok_def)
  ultimately show ?thesis using run c(1) e v h so lg select_by_key[OF e(2)]
    by (intro exI[of _ pre] exI[of _ cx1] exI[of _ lk1] exI[of _ r1] exI[of _ post] exI[of _ c] exI[of _ email] exI[of _ u]
        exI[of _ tok] exI[of _ v]) (simp add: session_of_def login_ok_def)
qed

definition example_body :: string where
  "example_body = encode (JObj [(''email'', JStr ''Ada@b.org''), (''password'', JStr ''correct horse'')])"

lemma example_login: "decode_login example_body = Some \<lparr>cr_Email = ''Ada@b.org'', cr_Password = ''correct horse'', cr_Role = []\<rparr>"
proof -
  let ?v = "JObj [(''email'', JStr ''Ada@b.org''), (''password'', JStr ''correct horse'')]"
  have "decode_limited (2 ^ 20) example_body = Some ?v"
    unfolding example_body_def by (subst decode_limited_encode) (simp_all add: max_depth_def encode_eval valid_utf8_ascii)
  then show ?thesis by (simp add: decode_login_def set_login_field_def no_credentials_def field_eval)
qed

definition example_user :: user_row where
  "example_user = \<lparr>ur_id = 1, ur_email = ''ada@b.org'', ur_password_hash = ''correct horse'', ur_role = ''admin'', ur_created_at = 0\<rparr>"

definition example_db :: db where
  "example_db = empty_db\<lparr>dashboard_users := [example_user], dashboard_users_seq := 2\<rparr>"

definition example_token :: string where
  "example_token = EncodeToString ''random''"

abbreviation "example_fb \<equiv> (\<lambda>r. writeError 404 ''not found'')"

abbreviation "example_login_request \<equiv> example_request ''POST'' ''/api/auth/login'' example_body None"

lemma example_handleLogin:
  "handleLogin (example_cx 1000) example_login_request example_db =
    ((writeJSON 200 (UserBody (to_authUser example_user)))\<lparr>hp_Cookies :=
        [sessionCookie (example_cx 1000) example_login_request example_token (1000 + sessionTTL)]\<rparr>,
     example_db\<lparr>dashboard_sessions := [session_of (example_cx 1000) example_user example_token]\<rparr>)"
proof -
  let ?cx = "example_cx 1000" and ?r = "example_request ''POST'' ''/api/auth/login'' example_body None"
  have "normalizeEmail example_lib ''Ada@b.org'' = Inr ''ada@b.org''"
    by (simp add: normalizeEmail_def plain_eval ToLower_def example_lib_def char_eval)
  then have c: "check_credentials ?cx \<lparr>cr_Email = ''Ada@b.org'', cr_Password = ''correct horse'', cr_Role = []\<rparr> example_db = Some example_user"
    by (simp add: check_credentials_def example_cx_def no_faults_def example_db_def example_user_def) (simp add: example_lib_def)
  have d: "delete_expired ?cx example_db = example_db" by (simp add: delete_expired_def example_cx_def no_faults_def example_db_def empty_db_def)
  have t: "randomToken ?cx = Inr example_token" by (simp add: randomToken_def example_cx_def example_token_def)
  have i: "insert_session ?cx example_token (ur_id example_user) (cx_now ?cx + sessionTTL) example_db
      = Inr (example_db\<lparr>dashboard_sessions := [session_of ?cx example_user example_token]\<rparr>)"
    by (simp add: insert_session_def example_cx_def no_faults_def example_db_def empty_db_def session_of_def)
  have r: "hr_Method ?r = ''POST''" "hr_Body ?r = example_body" by (simp_all add: example_request_def)
  have "cx_now ?cx = 1000" by (simp add: example_cx_def)
  then show ?thesis using i by (simp add: r handleLogin_def example_login c d t)
qed

lemma example_login_request [simp]:
  "\<not> refused example_server example_login_request" "hr_Path example_login_request = ''/api/auth/login''"
  by (simp_all add: refused_def example_request_def)

lemma example_session:
  "serve_all example_server example_fb [(example_cx 1000, example_link, example_request ''POST'' ''/api/auth/login'' example_body None)] example_db
   = example_db\<lparr>dashboard_sessions := [session_of (example_cx 1000) example_user example_token]\<rparr>"
  by (simp add: serve_login example_handleLogin)

lemma example_authenticated:
  "authenticateRequest (example_cx 2000) (example_request ''GET'' ''/api/auth/me'' [] (Some example_token))
     (example_db\<lparr>dashboard_sessions := [session_of (example_cx 1000) example_user example_token]\<rparr>) = Inr (to_authUser example_user)"
  by (simp add: authenticateRequest_def example_request_def example_cx_def no_faults_def session_of_def example_token_def
      EncodeToString_def example_db_def example_user_def example_lib_def sessionTTL_def duration_defs)

theorem authenticated_only_after_login_witness:
  "\<exists>c. decode_login example_body = Some c \<and> bcrypt_Compare example_lib (ur_password_hash example_user) (cr_Password c)"
proof -
  let ?rs = "[(example_cx 1000, example_link, example_request ''POST'' ''/api/auth/login'' example_body None)]"
  have none: "dashboard_sessions example_db = []" by (simp add: example_db_def empty_db_def)
  from authenticated_only_after_login[OF none, of "example_cx 2000" "example_request ''GET'' ''/api/auth/me'' [] (Some example_token)"
      example_server example_fb ?rs, unfolded example_session, OF example_authenticated]
  obtain pre cx1 lk1 r1 post c u where run: "?rs = pre @ (cx1, lk1, r1) # post"
    and c: "decode_login (hr_Body r1) = Some c" and u: "u \<in> set (dashboard_users (serve_all example_server example_fb pre example_db))"
    and ok: "bcrypt_Compare (cx_lib cx1) (ur_password_hash u) (cr_Password c)" by blast
  from run have p: "pre = []" "cx1 = example_cx 1000" "r1 = example_request ''POST'' ''/api/auth/login'' example_body None"
    by (auto simp: Cons_eq_append_conv)
  then have "u = example_user" using u by (simp add: example_db_def)
  then show ?thesis using c ok p by (auto simp: example_request_def example_cx_def)
qed

section \<open>How long a session lasts\<close>

lemma createUser_appends: "\<exists>us. dashboard_users (snd (createUser L flt t e p ro d)) = dashboard_users d @ us"
  by (auto simp: createUser_def insert_user_def Let_def split: option.splits sum.splits prod.splits if_splits)

lemma serve_users: "\<exists>us. dashboard_users (snd (serve srv lk fb cx r d)) = dashboard_users d @ us"
proof -
  have "\<exists>us. dashboard_users (snd (handleUsers cx r d)) = dashboard_users d @ us" for r
  proof -
    have "\<exists>us. dashboard_users d' = dashboard_users d @ us" if "createUser L flt t e p ro d = (x, d')" for L flt t e p ro x d'
      using createUser_appends[of L flt t e p ro d] that by simp
    then show ?thesis
      by (auto simp: handleUsers_def listUsers_def server_createUser_def split: option.splits sum.splits prod.splits)
  qed
  moreover have "dashboard_users (snd (handleLogin cx r d)) = dashboard_users d" "dashboard_users (snd (handleLogout cx r d)) = dashboard_users d"
    using arg_cong[OF handleLogin_frame, of dashboard_users cx r d] arg_cong[OF handleLogout_frame, of dashboard_users cx r d] by simp_all
  ultimately show ?thesis by (auto simp: snd_serve mux_def snd_requireAuth handler_tables split: sum.splits)
qed

text \<open>A request that ends the session with a token hash.\<close>

definition logs_out :: "string \<Rightarrow> arrival \<Rightarrow> bool" where
  "logs_out h x = (case x of (cx, lk, r) \<Rightarrow> hr_Path r = ''/api/auth/logout'' \<and> hr_Method r = ''POST''
     \<and> (\<exists>v. hr_Cookie r sessionCookieName = Some v \<and> hashToken (cx_lib cx) v = h))"

lemma select_by_filter: "select_by key k tbl = Some r \<Longrightarrow> P r \<Longrightarrow> select_by key k (filter P tbl) = Some r"
  by (induction tbl) auto

lemma select_by_filter_key: "(\<And>r. key r = k \<Longrightarrow> P r) \<Longrightarrow> select_by key k (filter P tbl) = select_by key k tbl"
  by (induction tbl) auto

lemma session_kept:
  assumes "select_by sr_token_hash h (dashboard_sessions d) = Some s" and "cx_dbnow cx < sr_expires_at s" and "\<not> logs_out h (cx, lk, r)"
  shows "select_by sr_token_hash h (dashboard_sessions (snd (serve srv lk fb cx r d))) = Some s"
proof -
  have del: "select_by sr_token_hash h (dashboard_sessions (delete_expired cx d)) = Some s"
    using assms(1,2) by (auto simp: delete_expired_def intro: select_by_filter)
  consider "hr_Path r = ''/api/auth/login''" | "hr_Path r = ''/api/auth/logout''"
    | "hr_Path r \<noteq> ''/api/auth/login''" "hr_Path r \<noteq> ''/api/auth/logout''" by blast
  then show ?thesis
  proof cases
    case 1
    then show ?thesis using assms(1) del serve_login[OF 1, of srv lk fb cx d]
      by (cases rule: handleLogin_cases[of cx r d]) (auto split: if_splits)
  next
    case 2
    have "select_by sr_token_hash h (filter (\<lambda>s. sr_token_hash s \<noteq> hashToken (cx_lib cx) v) (dashboard_sessions d)) = Some s"
      if "hr_Cookie r sessionCookieName = Some v" "hr_Method r = ''POST''" for v
      using assms(1,3) that 2 by (subst select_by_filter_key) (auto simp: logs_out_def)
    then show ?thesis using assms(1) serve_logout[OF 2, of srv lk fb cx d]
      by (auto simp: handleLogout_def Let_def split: option.splits)
  next
    case 3
    then show ?thesis using assms(1) by (simp add: serve_sessions)
  qed
qed

lemma session_kept_all:
  assumes "select_by sr_token_hash h (dashboard_sessions d) = Some s" and "select_by ur_id (sr_user_id s) (dashboard_users d) = Some u"
    and "\<forall>(cx, lk, r) \<in> set rs. cx_dbnow cx < sr_expires_at s \<and> \<not> logs_out h (cx, lk, r)"
  shows "select_by sr_token_hash h (dashboard_sessions (serve_all srv fb rs d)) = Some s
    \<and> select_by ur_id (sr_user_id s) (dashboard_users (serve_all srv fb rs d)) = Some u"
  using assms
proof (induction rs arbitrary: d)
  case (Cons x rs)
  obtain cx lk r where x: "x = (cx, lk, r)" by (cases x) auto
  obtain us where us: "dashboard_users (snd (serve srv lk fb cx r d)) = dashboard_users d @ us" using serve_users by blast
  show ?case unfolding x serve_all.simps
    by (rule Cons.IH) (use Cons.prems x us session_kept[OF Cons.prems(1), of cx lk r srv fb] in auto)
qed simp

text \<open>
  C25. A session lasts exactly as long as it should. After a login that was answered with status 200
  and a session cookie, let any requests arrive that are not a logout with that token, before the
  session has expired. Then a request that presents the cookie's value is authenticated, as the very user the login was
  answered with, exactly when the database's clock has not reached seven days after the login (the
  expiry as the database stores it); it does not matter who else logged in or out, or what failed.
\<close>

theorem session_lasts:
  assumes "serve srv lk1 fb cx1 r1 d1 = (rsp, d2)" and "hr_Path r1 = ''/api/auth/login''" and "\<not> refused srv r1"
    and "hp_Status rsp = 200" and "hp_Cookies rsp = [ck]" and "pk_ok ur_id (dashboard_users d1)"
    and "expiry = pg_time (cx_lib cx1) (cx_now cx1 + sessionTTL)"
    and "\<forall>(cx, lk, r) \<in> set rs. cx_dbnow cx < expiry \<and> \<not> logs_out (hashToken (cx_lib cx1) (ck_Value ck)) (cx, lk, r)"
    and "hr_Cookie r sessionCookieName = Some (ck_Value ck)" and "ck_Value ck \<noteq> []"
    and "cx_lib cx = cx_lib cx1" and "cx_faults cx SelectSession = None"
  shows "(\<exists>user. authenticateRequest cx r (serve_all srv fb rs d2) = Inr user \<and> hp_Body rsp = UserBody user) \<longleftrightarrow> cx_dbnow cx < expiry"
proof -
  let ?L = "cx_lib cx1" and ?h = "hashToken (cx_lib cx1) (ck_Value ck)"
  have d2: "d2 = snd (handleLogin cx1 r1 d1)" using assms(1,3) serve_login[OF assms(2), of srv lk1 fb cx1 d1] by simp
  have st: "hp_Status (fst (handleLogin cx1 r1 d1)) = 200" and cks: "hp_Cookies (fst (handleLogin cx1 r1 d1)) = [ck]"
    and bd: "hp_Body (fst (handleLogin cx1 r1 d1)) = hp_Body rsp"
    using assms(1,2,4,5) fst_serve[OF assms(3), of lk1 fb cx1 d1] by (simp_all add: mux_def)
  obtain u tok where ok: "login_ok cx1 r1 d1 u tok"
    and ss: "dashboard_sessions d2 = dashboard_sessions (delete_expired cx1 d1) @ [session_of cx1 u tok]"
    and nw: "select_by sr_token_hash (hashToken ?L tok) (dashboard_sessions (delete_expired cx1 d1)) = None"
    using st by (cases rule: handleLogin_cases[of cx1 r1 d1]) (auto simp: d2)
  have tok: "ck_Value ck = tok" using ok cks by (simp add: login_ok_def sessionCookie_def)
  have s: "select_by sr_token_hash ?h (dashboard_sessions d2) = Some (session_of cx1 u tok)"
    unfolding ss tok using nw by (simp add: session_of_def)
  obtain c where c: "decode_login (hr_Body r1) = Some c" "check_credentials cx1 c d1 = Some u" using ok by (auto simp: login_ok_def)
  have "u \<in> set (dashboard_users d1)" using c(2)
    by (auto simp: check_credentials_def dest: select_by_key split: sum.splits if_splits option.splits)
  moreover have "dashboard_users d2 = dashboard_users d1"
    using arg_cong[OF handleLogin_frame[of cx1 r1 d1], of dashboard_users] d2 by simp
  ultimately have u: "select_by ur_id (sr_user_id (session_of cx1 u tok)) (dashboard_users d2) = Some u"
    using select_by_unique[OF assms(6)] by (simp add: session_of_def)
  have ex: "sr_expires_at (session_of cx1 u tok) = expiry" by (simp add: session_of_def assms(7))
  have "select_by sr_token_hash ?h (dashboard_sessions (serve_all srv fb rs d2)) = Some (session_of cx1 u tok)
      \<and> select_by ur_id (sr_user_id (session_of cx1 u tok)) (dashboard_users (serve_all srv fb rs d2)) = Some u"
    by (rule session_kept_all[OF s u]) (use assms(8) ex in auto)
  then have "authenticateRequest cx r (serve_all srv fb rs d2) =
      (if cx_dbnow cx < expiry then Inr (to_authUser u) else Inl ''sql: no rows in result set'')"
    using assms(9-12) ex by (simp add: authenticateRequest_def)
  moreover have "hp_Body rsp = UserBody (to_authUser u)"
    using bd c st by (auto simp: handleLogin_def check_credentials_delete Let_def split: option.splits sum.splits if_splits)
  ultimately show ?thesis by auto
qed

theorem session_lasts_witness:
  "\<exists>user. authenticateRequest (example_cx 2000) (example_request ''GET'' ''/api/auth/me'' [] (Some example_token))
     (serve_all example_server example_fb [(example_cx 1500, example_link, example_request ''POST'' ''/api/auth/logout'' [] None)]
       (snd (serve example_server example_link example_fb (example_cx 1000) example_login_request example_db))) = Inr user"
proof -
  let ?ck = "sessionCookie (example_cx 1000) example_login_request example_token (1000 + sessionTTL)"
  let ?rs = "[(example_cx 1500, example_link, example_request ''POST'' ''/api/auth/logout'' [] None)]"
  have rsp: "hp_Status (fst (serve example_server example_link example_fb (example_cx 1000) example_login_request example_db)) = 200"
    "hp_Cookies (fst (serve example_server example_link example_fb (example_cx 1000) example_login_request example_db)) = [?ck]"
    by (simp_all add: fst_serve mux_def example_handleLogin)
  have ids: "pk_ok ur_id (dashboard_users example_db)" by (simp add: example_db_def pk_ok_def)
  have ex: "pg_time (cx_lib (example_cx 1000)) (cx_now (example_cx 1000) + sessionTTL) = 1000 + sessionTTL"
    by (simp add: example_cx_def example_lib_def sessionTTL_def duration_defs)
  have v: "ck_Value ?ck = example_token" "example_token \<noteq> []" by (simp_all add: sessionCookie_def example_token_def EncodeToString_def)
  from session_lasts[OF surjective_pairing example_login_request(2,1) rsp ids ex[symmetric], of ?rs
      "example_request ''GET'' ''/api/auth/me'' [] (Some example_token)" "example_cx 2000"] v
  show ?thesis by (auto simp: logs_out_def example_request_def example_cx_def no_faults_def sessionTTL_def duration_defs)
qed

section \<open>Only administrators change anything\<close>

lemma not_admin_unchanged:
  assumes "hr_user r = Some user" and "au_Role user \<noteq> ''admin''"
  shows "handleUsers cx r d = (writeError 403 ''admin access required'', d)"
    and "handleSecurity srv lk cx r d = (writeError 403 ''admin access required'', d)"
    and "handleSecurityBlock srv lk cx r d = (writeError 403 ''admin access required'', d)"
    and "handleSecurityDismiss cx r d = (writeError 403 ''admin access required'', d)"
  using assms
  by (simp_all add: handleUsers_def handleSecurity_def handleSecurityBlock_def handleSecurityDismiss_def requireAdmin_def currentUser_def)

definition admin_path :: "string \<Rightarrow> bool" where
  "admin_path p \<longleftrightarrow> p \<in> {''/api/users'', ''/api/security'', ''/api/security/block'', ''/api/security/dismiss''}"

definition user_path :: "string \<Rightarrow> bool" where
  "user_path p \<longleftrightarrow> p \<in> {''/api/auth/me'', ''/api/logs''}"

lemma serve_protected:
  assumes "admin_path (hr_Path r) \<or> user_path (hr_Path r)" and "\<not> refused srv r"
  shows "authenticateRequest cx r d = Inl x \<Longrightarrow> hp_Status (fst (serve srv lk fb cx r d)) = 401 \<and> snd (serve srv lk fb cx r d) = d"
    and "authenticateRequest cx r d = Inr user \<Longrightarrow> au_Role user \<noteq> ''admin'' \<Longrightarrow> snd (serve srv lk fb cx r d) = d"
    and "authenticateRequest cx r d = Inr user \<Longrightarrow> au_Role user \<noteq> ''admin'' \<Longrightarrow> admin_path (hr_Path r) \<Longrightarrow>
      hp_Status (fst (serve srv lk fb cx r d)) = 403"
  using assms
  by (auto simp: snd_serve fst_serve mux_def requireAuth_def admin_path_def user_path_def not_admin_unchanged)

lemma serve_public:
  assumes "\<not> admin_path (hr_Path r)"
  shows "(snd (serve srv lk fb cx r d))\<lparr>dashboard_sessions := []\<rparr> = d\<lparr>dashboard_sessions := []\<rparr>"
  using assms handleLogin_frame[of cx r d] handleLogout_frame[of cx r d]
  by (auto simp: snd_serve mux_def snd_requireAuth admin_path_def split: sum.splits)

text \<open>
  C26. Only administrators change anything. Whatever a request contains, it leaves every table but the sessions as it was unless it
  is authenticated as a user whose role is admin and goes to the user or security routes with an
  allowed origin; the sessions themselves change only at login and logout. A request for a protected
  route that is not authenticated is answered 401, one for an administrator's route by another user 403, and neither changes the database.
\<close>

theorem only_admins_change:
  assumes "serve srv lk fb cx r d = (rsp, d')"
  shows "(d'\<lparr>dashboard_sessions := []\<rparr> = d\<lparr>dashboard_sessions := []\<rparr> \<or>
        (\<exists>user. authenticateRequest cx r d = Inr user \<and> au_Role user = ''admin'' \<and> admin_path (hr_Path r) \<and> \<not> refused srv r))
    \<and> (dashboard_sessions d' = dashboard_sessions d \<or> hr_Path r \<in> {''/api/auth/login'', ''/api/auth/logout''})
    \<and> (\<not> refused srv r \<longrightarrow> admin_path (hr_Path r) \<or> user_path (hr_Path r) \<longrightarrow>
        (\<forall>x. authenticateRequest cx r d = Inl x \<longrightarrow> hp_Status rsp = 401 \<and> d' = d)
        \<and> (\<forall>user. authenticateRequest cx r d = Inr user \<and> au_Role user \<noteq> ''admin'' \<longrightarrow> d' = d \<and> (admin_path (hr_Path r) \<longrightarrow> hp_Status rsp = 403)))"
proof -
  have s: "fst (serve srv lk fb cx r d) = rsp" "snd (serve srv lk fb cx r d) = d'" using assms by simp_all
  have "d'\<lparr>dashboard_sessions := []\<rparr> = d\<lparr>dashboard_sessions := []\<rparr> \<or>
      (\<exists>user. authenticateRequest cx r d = Inr user \<and> au_Role user = ''admin'' \<and> admin_path (hr_Path r) \<and> \<not> refused srv r)"
  proof (cases "admin_path (hr_Path r) \<and> \<not> refused srv r")
    case True
    then show ?thesis using s serve_protected(1,2)[of r srv cx d _ lk fb] by (cases "authenticateRequest cx r d") force+
  next
    case False
    then show ?thesis using s serve_public[of r srv lk fb cx d] snd_serve[of srv lk fb cx r d] by auto
  qed
  moreover have "dashboard_sessions d' = dashboard_sessions d \<or> hr_Path r \<in> {''/api/auth/login'', ''/api/auth/logout''}"
    using s serve_sessions[of r srv lk fb cx d] by auto
  ultimately show ?thesis using s serve_protected[of r srv cx d _ lk fb] by blast
qed

theorem only_admins_change_witness:
  "hp_Status (fst (serve example_server example_link example_fb (example_cx 5) (example_request ''POST'' ''/api/users'' example_body None) example_db)) = 401
   \<and> snd (serve example_server example_link example_fb (example_cx 5) (example_request ''POST'' ''/api/users'' example_body None) example_db) = example_db"
proof -
  let ?r = "example_request ''POST'' ''/api/users'' example_body None"
  have "authenticateRequest (example_cx 5) ?r example_db = Inl ''missing session''" "\<not> refused example_server ?r" "admin_path (hr_Path ?r)"
    by (simp_all add: authenticateRequest_def example_request_def refused_def admin_path_def)
  then show ?thesis using only_admins_change[OF surjective_pairing, of example_server example_link example_fb "example_cx 5" ?r example_db] by blast
qed

section \<open>The account tables stay well formed\<close>

definition accounts_ok :: "lib \<Rightarrow> db \<Rightarrow> bool" where
  "accounts_ok L d \<longleftrightarrow> pk_ok ur_id (dashboard_users d) \<and> pk_ok ur_email (dashboard_users d)
     \<and> (\<forall>u \<in> set (dashboard_users d). ur_id u < dashboard_users_seq d \<and> ur_role u \<in> {''admin'', ''user''}
          \<and> ur_email u \<noteq> [] \<and> mail_ParseAddress L (ur_email u))
     \<and> pk_ok sr_token_hash (dashboard_sessions d)
     \<and> (\<forall>s \<in> set (dashboard_sessions d). \<exists>u \<in> set (dashboard_users d). ur_id u = sr_user_id s)"

lemma accounts_ok_cong:
  assumes "dashboard_users d' = dashboard_users d" "dashboard_users_seq d' = dashboard_users_seq d" "dashboard_sessions d' = dashboard_sessions d"
  shows "accounts_ok L d' = accounts_ok L d"
  using assms by (simp add: accounts_ok_def)

lemma insert_user_accounts:
  assumes "accounts_ok L d" and "em \<noteq> []" and "mail_ParseAddress L em" and "insert_user L flt t em h ro d = (x, d')"
  shows "accounts_ok L d'"
proof -
  have bound: "accounts_ok L (d\<lparr>dashboard_users_seq := dashboard_users_seq d + 1\<rparr>)"
    using assms(1) by (auto simp: accounts_ok_def)
  show ?thesis
  proof (cases x)
    case (Inl e)
    then show ?thesis using assms(1,4) bound by (auto simp: insert_user_def Let_def split: option.splits if_splits)
  next
    case (Inr u)
    then have u: "u = \<lparr>ur_id = dashboard_users_seq d, ur_email = em, ur_password_hash = h, ur_role = ro, ur_created_at = t\<rparr>"
      "ro \<in> {''admin'', ''user''}" "select_by ur_email em (dashboard_users d) = None"
      and d': "d' = d\<lparr>dashboard_users_seq := dashboard_users_seq d + 1, dashboard_users := dashboard_users d @ [u]\<rparr>"
      using assms(4) by (auto simp: insert_user_def Let_def split: option.splits if_splits)
    have "dashboard_users_seq d \<notin> ur_id ` set (dashboard_users d)" using assms(1) by (force simp: accounts_ok_def)
    moreover have "em \<notin> ur_email ` set (dashboard_users d)" using u(3) by (auto simp: select_by_None)
    ultimately show ?thesis using assms(1-3) u(1,2) unfolding d' by (force simp: accounts_ok_def pk_ok_def)
  qed
qed

lemma createUser_accounts:
  assumes "accounts_ok L d"
  shows "accounts_ok L (snd (createUser L flt t e p ro d))"
proof (cases "normalizeEmail L e")
  case (Inr em)
  then have "em \<noteq> []" "mail_ParseAddress L em" by (auto simp: normalizeEmail_def Let_def split: if_splits)
  then show ?thesis using Inr assms insert_user_accounts[OF assms]
    by (auto simp: createUser_def split: sum.splits prod.splits)
qed (use assms in \<open>simp add: createUser_def\<close>)

lemma EnsureBootstrapAdmin_accounts: "accounts_ok L d \<Longrightarrow> accounts_ok L (snd (EnsureBootstrapAdmin L getenv flt t d))"
  using createUser_accounts[of L d flt t]
  by (auto simp: EnsureBootstrapAdmin_def Let_def split: option.splits prod.splits sum.splits) (metis snd_conv)+

lemma handleUsers_accounts:
  assumes "accounts_ok (cx_lib cx) d"
  shows "accounts_ok (cx_lib cx) (snd (handleUsers cx r d))"
proof -
  have "accounts_ok (cx_lib cx) d'" if "createUser (cx_lib cx) (cx_faults cx) (cx_dbnow cx) e p ro d = (x, d')" for e p ro x d'
    using createUser_accounts[OF assms, of "cx_faults cx" "cx_dbnow cx" e p ro] that by simp
  then show ?thesis using assms
    by (auto simp: handleUsers_def listUsers_def server_createUser_def split: option.splits sum.splits prod.splits)
qed

lemma pk_ok_filter: "pk_ok key tbl \<Longrightarrow> pk_ok key (filter P tbl)"
  by (simp add: pk_ok_def distinct_map_filter)

lemma delete_accounts:
  "accounts_ok L d \<Longrightarrow> accounts_ok L (d\<lparr>dashboard_sessions := filter P (dashboard_sessions d)\<rparr>)"
  by (auto simp: accounts_ok_def pk_ok_filter)

lemma delete_expired_accounts: "accounts_ok L d \<Longrightarrow> accounts_ok L (delete_expired cx d)"
  by (simp add: delete_expired_def delete_accounts)

lemma handleLogout_accounts: "accounts_ok L d \<Longrightarrow> accounts_ok L (snd (handleLogout cx r d))"
  by (auto simp: handleLogout_def Let_def delete_accounts split: option.splits)

lemma handleLogin_accounts:
  assumes "accounts_ok L d"
  shows "accounts_ok L (snd (handleLogin cx r d))"
proof -
  have un: "dashboard_users (snd (handleLogin cx r d)) = dashboard_users d" "dashboard_users_seq (snd (handleLogin cx r d)) = dashboard_users_seq d"
    using arg_cong[OF handleLogin_frame[of cx r d], of dashboard_users] arg_cong[OF handleLogin_frame[of cx r d], of dashboard_users_seq] by simp_all
  have del: "accounts_ok L (delete_expired cx d)" by (rule delete_expired_accounts[OF assms])
  have dun: "dashboard_users (delete_expired cx d) = dashboard_users d" "dashboard_users_seq (delete_expired cx d) = dashboard_users_seq d"
    by (simp_all add: delete_expired_def)
  show ?thesis
  proof (cases rule: handleLogin_cases[of cx r d])
    case (Issued u tok)
    then obtain c where "check_credentials cx c d = Some u" by (auto simp: login_ok_def)
    then have "u \<in> set (dashboard_users d)" by (auto simp: check_credentials_def dest: select_by_key split: sum.splits if_splits option.splits)
    moreover have "hashToken (cx_lib cx) tok \<notin> sr_token_hash ` set (dashboard_sessions (delete_expired cx d))"
      using Issued(3) by (auto simp: select_by_None)
    ultimately show ?thesis using del Issued(2) un dun by (auto simp: accounts_ok_def pk_ok_def session_of_def)
  next
    case Refused
    then show ?thesis using assms del un dun by (auto simp: accounts_ok_def)
  qed
qed

lemma serve_accounts:
  assumes "accounts_ok (cx_lib cx) d"
  shows "accounts_ok (cx_lib cx) (snd (serve srv lk fb cx r d))"
proof -
  have "accounts_ok (cx_lib cx) d' = accounts_ok (cx_lib cx) d" if "sans_security d' = sans_security d" for d'
    using sans_security_tables[OF that] by (intro accounts_ok_cong)
  then show ?thesis using assms handleUsers_accounts[OF assms] handleLogin_accounts[OF assms] handleLogout_accounts[OF assms]
      handleSecurity_sans handleSecurityBlock_sans handleSecurityDismiss_sans
    by (auto simp: snd_serve mux_def snd_requireAuth split: sum.splits)
qed


text \<open>
  What every request keeps, a run keeps: the contract of an invariant of the server, for requests
  whose contexts satisfy a side condition.
\<close>

locale request_invariant =
  fixes good :: "reqctx \<Rightarrow> bool" and keeps :: "db \<Rightarrow> bool"
  assumes serve_keeps: "good cx \<Longrightarrow> keeps d \<Longrightarrow> keeps (snd (serve srv lk fb cx r d))"
begin

lemma serve_all_keeps: "list_all (\<lambda>(cx, lk, r). good cx) rs \<Longrightarrow> keeps d \<Longrightarrow> keeps (serve_all srv fb rs d)"
proof (induction rs arbitrary: d)
  case (Cons x rs)
  obtain cx lk r where x: "x = (cx, lk, r)" by (cases x) auto
  have "keeps (snd (serve srv lk fb cx r d))" using Cons.prems x by (intro serve_keeps) auto
  then show ?case using Cons.IH Cons.prems(1) x by simp
qed simp

end

interpretation accounts: request_invariant "\<lambda>cx. cx_lib cx = L" "accounts_ok L" for L
  by unfold_locales (auto intro: serve_accounts)

text \<open>The security tables: their keys stay unique and the audit log only grows.\<close>

lemma recordFirewallResult_keys:
  assumes "recordFirewallResult cx uid act ip dur e d = Inr d'"
  shows "pk_ok br_remote_ip (firewall_blocks d) \<Longrightarrow> pk_ok br_remote_ip (firewall_blocks d')"
    and "security_offenders d' = security_offenders d"
  using assms
  by (auto simp: recordFirewallResult_def upsert_block_def release_block_def insert_audit_def Let_def pk_ok_upsert pk_ok_update_where
      split: option.splits sum.splits if_splits)

definition security_ok :: "audit_row list \<Rightarrow> db \<Rightarrow> bool" where
  "security_ok old d \<longleftrightarrow> pk_ok br_remote_ip (firewall_blocks d) \<and> pk_ok or_remote_ip (security_offenders d) \<and> prefix old (security_audit_log d)"

lemma handleSecurity_security_ok:
  assumes "security_ok old d"
  shows "security_ok old (snd (handleSecurity srv lk cx r d))"
  using assms
  by (auto simp: handleSecurity_def expire_blocks_def security_ok_def Let_def pk_ok_update_where split: sum.splits option.splits)

lemma handleSecurityBlock_security_ok:
  assumes "security_ok old d"
  shows "security_ok old (snd (handleSecurityBlock srv lk cx r d))"
proof -
  have "security_ok old d'" if "recordFirewallResult cx uid act ip dur e d = Inr d'" for uid act ip dur e d'
    using recordFirewallResult_keys[OF that] recordFirewallResult_audit[OF that] assms by (auto simp: security_ok_def)
  then show ?thesis using assms by (auto simp: handleSecurityBlock_def Let_def split: sum.splits option.splits)
qed

lemma handleSecurityDismiss_security_ok:
  assumes "security_ok old d"
  shows "security_ok old (snd (handleSecurityDismiss cx r d))"
proof -
  let ?d1 = "\<lambda>ip. d\<lparr>security_offenders := update_where (\<lambda>o'. or_remote_ip o' = ip) (dismiss_row cx) (security_offenders d)\<rparr>"
  have ok: "security_ok old (?d1 ip)" for ip using assms by (simp add: security_ok_def pk_ok_update_where dismiss_row_def)
  have "security_ok old d'" if "insert_audit cx uid act ip' det b (?d1 ip) = Inr d'" for uid act ip' det b ip d'
    using that ok[of ip] by (auto simp: insert_audit_def security_ok_def split: option.splits if_splits)
  then show ?thesis using assms ok by (auto simp: handleSecurityDismiss_def Let_def split: sum.splits option.splits)
qed

lemma serve_security_ok: "security_ok old d \<Longrightarrow> security_ok old (snd (serve srv lk fb cx r d))"
proof -
  assume ok: "security_ok old d"
  have "security_ok old (snd (handleUsers cx r d))" for r
    using arg_cong[OF handleUsers_frame[of cx r d], of firewall_blocks] arg_cong[OF handleUsers_frame[of cx r d], of security_offenders]
      arg_cong[OF handleUsers_frame[of cx r d], of security_audit_log] ok by (simp add: security_ok_def)
  moreover have "security_ok old (snd (handleLogin cx r d))"
    using arg_cong[OF handleLogin_frame[of cx r d], of firewall_blocks] arg_cong[OF handleLogin_frame[of cx r d], of security_offenders]
      arg_cong[OF handleLogin_frame[of cx r d], of security_audit_log] ok by (simp add: security_ok_def)
  moreover have "security_ok old (snd (handleLogout cx r d))"
    using arg_cong[OF handleLogout_frame[of cx r d], of firewall_blocks] arg_cong[OF handleLogout_frame[of cx r d], of security_offenders]
      arg_cong[OF handleLogout_frame[of cx r d], of security_audit_log] ok by (simp add: security_ok_def)
  ultimately show ?thesis
    using ok handleSecurity_security_ok handleSecurityBlock_security_ok handleSecurityDismiss_security_ok
    by (auto simp: snd_serve mux_def snd_requireAuth split: sum.splits)
qed

interpretation security: request_invariant "\<lambda>cx. True" "security_ok old" for old
  by unfold_locales (rule serve_security_ok)

text \<open>
  C27. The account and security tables stay well formed. Creating the first administrator and then
  serving any requests keeps: user ids and emails unique, every id below the sequence, every role
  admin or user, every email a valid address; token hashes unique and every session that of an existing
  user; one firewall block and one offender row per address; and the audit log only ever grows.
\<close>

theorem tables_well_formed:
  assumes "accounts_ok L d" and "list_all (\<lambda>(cx, lk, r). cx_lib cx = L) rs"
    and "pk_ok br_remote_ip (firewall_blocks d)" and "pk_ok or_remote_ip (security_offenders d)"
    and "d' = serve_all srv fb rs (snd (EnsureBootstrapAdmin L getenv flt t d))"
  shows "accounts_ok L d' \<and> pk_ok br_remote_ip (firewall_blocks d') \<and> pk_ok or_remote_ip (security_offenders d')
    \<and> prefix (security_audit_log d) (security_audit_log d')"
proof -
  let ?d1 = "snd (EnsureBootstrapAdmin L getenv flt t d)"
  have "?d1\<lparr>dashboard_users := [], dashboard_users_seq := 0\<rparr> = d\<lparr>dashboard_users := [], dashboard_users_seq := 0\<rparr>"
    using createUser_frame[of L flt t _ _ _ d] by (auto simp: EnsureBootstrapAdmin_def Let_def split: option.splits prod.splits sum.splits) (metis snd_conv)+
  from arg_cong[OF this, of firewall_blocks] arg_cong[OF this, of security_offenders] arg_cong[OF this, of security_audit_log]
  have "security_ok (security_audit_log d) ?d1" using assms(3,4) by (simp add: security_ok_def)
  then have "security_ok (security_audit_log d) d'" unfolding assms(5) by (rule security.serve_all_keeps[rotated]) (simp add: list_all_iff split_beta)
  moreover have "accounts_ok L d'" unfolding assms(5)
    by (rule accounts.serve_all_keeps[OF assms(2)]) (rule EnsureBootstrapAdmin_accounts[OF assms(1)])
  ultimately show ?thesis by (simp add: security_ok_def)
qed

theorem tables_well_formed_witness:
  "accounts_ok example_lib (serve_all example_server example_fb [(example_cx 1000, example_link, example_login_request)]
     (snd (EnsureBootstrapAdmin example_lib (\<lambda>_. []) no_faults 0 example_db)))"
proof -
  have "accounts_ok example_lib example_db" "pk_ok br_remote_ip (firewall_blocks example_db)" "pk_ok or_remote_ip (security_offenders example_db)"
    by (simp_all add: accounts_ok_def example_db_def empty_db_def example_user_def pk_ok_def example_lib_def)
  then show ?thesis using tables_well_formed[of example_lib example_db "[(example_cx 1000, example_link, example_login_request)]"]
    by (simp add: example_cx_def)
qed

end
