(* ===== verification/Stitcher.thy ===== *)
theory Stitcher
  imports Parser
begin

text \<open>
  The in-memory transaction stitcher (\<^verbatim>\<open>src/stream.go\<close>, \<^verbatim>\<open>TransactionStitcher\<close>): log entries
  that carry the same queue id are merged into one mail transaction, which is handed out when
  its status becomes terminal or when it has been idle for too long. The interface of a
  stitching store is a locale, interpreted here on the stitcher and in \<open>Store\<close> on the
  \<^verbatim>\<open>mail_transactions\<close> table.
\<close>

section \<open>Data\<close>

record MailTransaction =
  mt_ArrivalTimestamp :: instant
  mt_LastTimestamp :: instant
  mt_QueueID :: string
  mt_Host :: string
  mt_Process :: string
  mt_Sender :: string
  mt_Recipient :: string
  mt_Status :: string
  mt_Relay :: string
  mt_Delay :: "float64 option"
  mt_Delays :: string
  mt_DSN :: string
  mt_MessageID :: string
  mt_SizeBytes :: "int option"
  mt_QueuedAs :: string
  mt_MailID :: string
  mt_Subject :: string
  mt_Hits :: "float64 option"
  mt_Helo :: string
  mt_AmavisOrigin :: string
  mt_IsJunk :: bool
  mt_SpamScore :: float64
  mt_TimedOut :: bool
  mt_Raw :: "string list"

record queuedTransaction =
  transaction :: MailTransaction
  lastSeen :: instant

record TransactionStitcher =
  queues :: "string \<rightharpoonup> queuedTransaction"
  idleTimeout :: duration

definition NewTransactionStitcher :: "duration \<Rightarrow> TransactionStitcher" where
  "NewTransactionStitcher d = \<lparr>queues = Map.empty, idleTimeout = d\<rparr>"

section \<open>Operations\<close>

definition isTerminalStatus :: "lib \<Rightarrow> string \<Rightarrow> bool" where
  "isTerminalStatus L status \<longleftrightarrow> ToLower L status = ''sent'' \<or> ToLower L status = ''bounced''"

text \<open>The transaction \<^verbatim>\<open>Apply\<close> creates for an unknown queue id: two fields set, the others zero.\<close>

definition new_transaction :: "LogEntry \<Rightarrow> MailTransaction" where
  "new_transaction e = \<lparr>mt_ArrivalTimestamp = le_TSUTC e, mt_LastTimestamp = 0, mt_QueueID = le_QueueID e,
    mt_Host = [], mt_Process = [], mt_Sender = [], mt_Recipient = [], mt_Status = [], mt_Relay = [],
    mt_Delay = None, mt_Delays = [], mt_DSN = [], mt_MessageID = [], mt_SizeBytes = None,
    mt_QueuedAs = [], mt_MailID = [], mt_Subject = [], mt_Hits = None, mt_Helo = [],
    mt_AmavisOrigin = [], mt_IsJunk = False, mt_SpamScore = 0, mt_TimedOut = False, mt_Raw = []\<rparr>"

text \<open>\<open>new\<close> replaces \<open>old\<close> when it is not empty; the same for pointer fields.\<close>

definition override :: "string \<Rightarrow> string \<Rightarrow> string" where
  "override new old = (if new \<noteq> [] then new else old)"

definition override_opt :: "'a option \<Rightarrow> 'a option \<Rightarrow> 'a option" where
  "override_opt new old = (case new of Some v \<Rightarrow> Some v | None \<Rightarrow> old)"

text \<open>The field updates of \<^verbatim>\<open>Apply\<close>, in the order of the source.\<close>

definition merge_entry :: "LogEntry \<Rightarrow> MailTransaction \<Rightarrow> MailTransaction" where
  "merge_entry e t = t\<lparr>
    mt_LastTimestamp := le_TSUTC e,
    mt_Host := override (le_Host e) (mt_Host t),
    mt_Process := override (le_Process e) (mt_Process t),
    mt_Sender := override (le_MailFrom e) (mt_Sender t),
    mt_Recipient := override (le_MailTo e) (mt_Recipient t),
    mt_Status := override (le_Status e) (mt_Status t),
    mt_Relay := override (le_Relay e) (mt_Relay t),
    mt_Delay := override_opt (le_Delay e) (mt_Delay t),
    mt_Delays := override (le_Delays e) (mt_Delays t),
    mt_DSN := override (le_DSN e) (mt_DSN t),
    mt_MessageID := override (le_MessageID e) (mt_MessageID t),
    mt_SizeBytes := override_opt (le_SizeBytes e) (mt_SizeBytes t),
    mt_QueuedAs := override (le_QueuedAs e) (mt_QueuedAs t),
    mt_MailID := override (le_MailID e) (mt_MailID t),
    mt_Subject := override (le_Subject e) (mt_Subject t),
    mt_Hits := override_opt (le_Hits e) (mt_Hits t),
    mt_Helo := override (le_Helo e) (mt_Helo t),
    mt_AmavisOrigin := override (le_AmavisOrigin e) (mt_AmavisOrigin t),
    mt_IsJunk := (if le_IsJunk e then True else mt_IsJunk t),
    mt_SpamScore := (case le_SpamScore e of Some v \<Rightarrow> v | None \<Rightarrow> mt_SpamScore t),
    mt_Raw := mt_Raw t @ [le_Raw e]\<rparr>"

text \<open>
  \<^verbatim>\<open>Apply\<close>: the entry is a pointer that may be nil, \<open>now\<close> is what \<^verbatim>\<open>time.Now()\<close> returns. The
  result is the finished transaction, if any, and the new state; the map entry is created
  before the merge and deleted again when the merged status is terminal.
\<close>

definition Apply :: "lib \<Rightarrow> instant \<Rightarrow> LogEntry option \<Rightarrow> TransactionStitcher
    \<Rightarrow> MailTransaction option \<times> TransactionStitcher" where
  "Apply L now entry s =
    (case entry of None \<Rightarrow> (None, s)
     | Some e \<Rightarrow>
        if le_QueueID e = [] then (None, s)
        else
          let q = le_QueueID e;
              base = (case queues s q of None \<Rightarrow> new_transaction e | Some queue \<Rightarrow> transaction queue);
              t = merge_entry e base;
              qs = (queues s)(q \<mapsto> \<lparr>transaction = t, lastSeen = now\<rparr>)
          in if \<not> isTerminalStatus L (mt_Status t) then (None, s\<lparr>queues := qs\<rparr>)
             else (Some t, s\<lparr>queues := qs(q := None)\<rparr>))"

text \<open>
  \<^verbatim>\<open>EvictExpired\<close> ranges over a Go map, whose iteration order is unspecified: the order of the
  keys is an argument. A key that is not in the map is not visited by \<^verbatim>\<open>range\<close>.
\<close>

fun evict_loop :: "instant \<Rightarrow> string list \<Rightarrow> TransactionStitcher \<Rightarrow> MailTransaction list
    \<Rightarrow> MailTransaction list \<times> TransactionStitcher" where
  "evict_loop now [] s expired = (expired, s)"
| "evict_loop now (q # qs) s expired =
    (case queues s q of
       None \<Rightarrow> evict_loop now qs s expired
     | Some queue \<Rightarrow>
         if time_Sub now (lastSeen queue) < idleTimeout s then evict_loop now qs s expired
         else evict_loop now qs (s\<lparr>queues := (queues s)(q := None)\<rparr>)
                (expired @ [(transaction queue)\<lparr>mt_TimedOut := True\<rparr>]))"

definition EvictExpired :: "string list \<Rightarrow> instant \<Rightarrow> TransactionStitcher
    \<Rightarrow> MailTransaction list \<times> TransactionStitcher" where
  "EvictExpired keys now s = evict_loop now keys s []"

section \<open>The interface of a stitching store\<close>

text \<open>
  A store keeps at most one open transaction per queue id. Absorbing an entry opens or updates
  the transaction of its queue, closes it when the merged value says so, and leaves every other
  queue alone. What a sequence of entries leaves open is then a fold over the entries of that
  queue, whatever the store is made of.
\<close>

definition queue_step :: "(LogEntry \<Rightarrow> 't) \<Rightarrow> (LogEntry \<Rightarrow> 't \<Rightarrow> 't) \<Rightarrow> ('t \<Rightarrow> bool)
    \<Rightarrow> LogEntry \<Rightarrow> 't option \<Rightarrow> 't option" where
  "queue_step start upd closed e ot =
    (let t = (case ot of None \<Rightarrow> start e | Some t \<Rightarrow> upd e t) in if closed t then None else Some t)"

locale stitching =
  fixes inv :: "'s \<Rightarrow> bool"
    and active :: "'s \<Rightarrow> string \<Rightarrow> 't option"
    and absorb :: "instant \<times> LogEntry \<Rightarrow> 's \<Rightarrow> 's"
    and start :: "LogEntry \<Rightarrow> 't"
    and upd :: "LogEntry \<Rightarrow> 't \<Rightarrow> 't"
    and closed :: "'t \<Rightarrow> bool"
  assumes inv_absorb: "inv s \<Longrightarrow> le_QueueID e \<noteq> [] \<Longrightarrow> inv (absorb (now, e) s)"
    and active_absorb: "inv s \<Longrightarrow> le_QueueID e \<noteq> [] \<Longrightarrow>
      active (absorb (now, e) s) =
        (active s)(le_QueueID e := queue_step start upd closed e (active s (le_QueueID e)))"
begin

lemma inv_fold: "inv s \<Longrightarrow> \<forall>x \<in> set xs. le_QueueID (snd x) \<noteq> [] \<Longrightarrow> inv (fold absorb xs s)"
  by (induction xs arbitrary: s) (auto simp: inv_absorb)

lemma active_fold:
  assumes "inv s" and "\<forall>x \<in> set xs. le_QueueID (snd x) \<noteq> []"
  shows "active (fold absorb xs s) q =
    fold (queue_step start upd closed) (filter (\<lambda>e. le_QueueID e = q) (map snd xs)) (active s q)"
  using assms
  by (induction xs arbitrary: s) (auto simp: inv_absorb active_absorb)

lemma active_frame:
  assumes "inv s" and "\<forall>x \<in> set xs. le_QueueID (snd x) \<noteq> [] \<and> le_QueueID (snd x) \<noteq> q"
  shows "active (fold absorb xs s) q = active s q"
proof -
  have "filter (\<lambda>e. le_QueueID e = q) (map snd xs) = []"
    using assms(2) by (auto simp: filter_empty_conv)
  then show ?thesis using active_fold[OF assms(1), of xs q] assms(2) by auto
qed

end

section \<open>The stitcher implements the interface\<close>

definition stitcher_active :: "TransactionStitcher \<Rightarrow> string \<Rightarrow> MailTransaction option" where
  "stitcher_active s q = map_option transaction (queues s q)"

text \<open>
  The invariant of the map: finitely many queues, each stored under its own queue id, open
  (its status is not terminal), not timed out, and with at least one raw line.
\<close>

definition queue_ok :: "lib \<Rightarrow> string \<Rightarrow> MailTransaction \<Rightarrow> bool" where
  "queue_ok L q t \<longleftrightarrow> mt_QueueID t = q \<and> q \<noteq> [] \<and> \<not> isTerminalStatus L (mt_Status t)
     \<and> \<not> mt_TimedOut t \<and> mt_Raw t \<noteq> []"

definition stitcher_ok :: "lib \<Rightarrow> TransactionStitcher \<Rightarrow> bool" where
  "stitcher_ok L s \<longleftrightarrow> finite (dom (queues s)) \<and>
     (\<forall>q queue. queues s q = Some queue \<longrightarrow> queue_ok L q (transaction queue))"

lemma merge_entry_simps [simp]:
  "mt_QueueID (merge_entry e t) = mt_QueueID t"
  "mt_TimedOut (merge_entry e t) = mt_TimedOut t"
  "mt_Raw (merge_entry e t) = mt_Raw t @ [le_Raw e]"
  "mt_Status (merge_entry e t) = override (le_Status e) (mt_Status t)"
  by (simp_all add: merge_entry_def)

lemma new_transaction_simps [simp]:
  "mt_QueueID (new_transaction e) = le_QueueID e"
  "mt_TimedOut (new_transaction e) = False"
  "mt_Raw (new_transaction e) = []"
  "mt_Status (new_transaction e) = []"
  by (simp_all add: new_transaction_def)

lemma stitcher_ok_new: "stitcher_ok L (NewTransactionStitcher d)"
  by (simp add: stitcher_ok_def NewTransactionStitcher_def)

text \<open>The value \<^verbatim>\<open>Apply\<close> merges into, and what it leaves behind, for an entry with a queue id.\<close>

definition apply_merged :: "LogEntry \<Rightarrow> TransactionStitcher \<Rightarrow> MailTransaction" where
  "apply_merged e s = merge_entry e
     (case queues s (le_QueueID e) of None \<Rightarrow> new_transaction e | Some queue \<Rightarrow> transaction queue)"

lemma Apply_open:
  "le_QueueID e \<noteq> [] \<Longrightarrow> \<not> isTerminalStatus L (mt_Status (apply_merged e s)) \<Longrightarrow>
   Apply L now (Some e) s =
     (None, s\<lparr>queues := (queues s)(le_QueueID e \<mapsto> \<lparr>transaction = apply_merged e s, lastSeen = now\<rparr>)\<rparr>)"
  by (simp add: Apply_def apply_merged_def Let_def)

lemma Apply_close:
  "le_QueueID e \<noteq> [] \<Longrightarrow> isTerminalStatus L (mt_Status (apply_merged e s)) \<Longrightarrow>
   Apply L now (Some e) s = (Some (apply_merged e s), s\<lparr>queues := (queues s)(le_QueueID e := None)\<rparr>)"
  by (simp add: Apply_def apply_merged_def Let_def)

lemma Apply_ignored: "(case entry of None \<Rightarrow> True | Some e \<Rightarrow> le_QueueID e = []) \<Longrightarrow> Apply L now entry s = (None, s)"
  by (auto simp: Apply_def split: option.splits)

lemma apply_merged_ok:
  assumes "stitcher_ok L s" and "le_QueueID e \<noteq> []"
  shows "mt_QueueID (apply_merged e s) = le_QueueID e" and "\<not> mt_TimedOut (apply_merged e s)"
    and "mt_Raw (apply_merged e s) \<noteq> []"
  using assms by (auto simp: apply_merged_def stitcher_ok_def queue_ok_def split: option.splits)

lemma Apply_ok [inv_intros]:
  assumes "stitcher_ok L s"
  shows "stitcher_ok L (snd (Apply L now entry s))"
proof (cases entry)
  case None
  then show ?thesis using assms by (simp add: Apply_def)
next
  case (Some e)
  show ?thesis
  proof (cases "le_QueueID e = []")
    case True
    then show ?thesis using assms Some by (simp add: Apply_def)
  next
    case False
    note m = apply_merged_ok[OF assms False]
    show ?thesis
    proof (cases "isTerminalStatus L (mt_Status (apply_merged e s))")
      case True
      then show ?thesis using assms Some Apply_close[OF False True]
        by (auto simp: stitcher_ok_def)
    next
      case still: False
      then show ?thesis using assms Some Apply_open[OF False still] m False
        by (auto simp: stitcher_ok_def queue_ok_def)
    qed
  qed
qed

interpretation mem: stitching "stitcher_ok L" stitcher_active
  "\<lambda>(now, e) s. snd (Apply L now (Some e) s)"
  "\<lambda>e. merge_entry e (new_transaction e)" merge_entry "\<lambda>t. isTerminalStatus L (mt_Status t)"
  for L
proof unfold_locales
  fix s e now
  assume "stitcher_ok L s"
  then show "stitcher_ok L ((\<lambda>(now, e) s. snd (Apply L now (Some e) s)) (now, e) s)"
    by (simp add: Apply_ok)
next
  fix s and e :: LogEntry and now
  assume q: "le_QueueID e \<noteq> []"
  let ?t = "apply_merged e s"
  have step: "queue_step (\<lambda>e. merge_entry e (new_transaction e)) merge_entry (\<lambda>t. isTerminalStatus L (mt_Status t))
      e (stitcher_active s (le_QueueID e)) = (if isTerminalStatus L (mt_Status ?t) then None else Some ?t)"
    by (auto simp: queue_step_def stitcher_active_def apply_merged_def Let_def split: option.splits)
  show "stitcher_active ((\<lambda>(now, e) s. snd (Apply L now (Some e) s)) (now, e) s) =
      (stitcher_active s)(le_QueueID e :=
        queue_step (\<lambda>e. merge_entry e (new_transaction e)) merge_entry (\<lambda>t. isTerminalStatus L (mt_Status t))
          e (stitcher_active s (le_QueueID e)))"
  proof (cases "isTerminalStatus L (mt_Status ?t)")
    case True
    then show ?thesis unfolding step using Apply_close[OF q True, of now]
      by (simp add: stitcher_active_def fun_eq_iff)
  next
    case False
    then show ?thesis unfolding step using Apply_open[OF q False, of now]
      by (simp add: stitcher_active_def fun_eq_iff)
  qed
qed

section \<open>Abstract specification of a stitched transaction\<close>

text \<open>
  What the transaction of a group of entries has to be, field by field: the last non-empty value
  any entry of the group gave, the first and last timestamps, junk if any entry was junk, and
  every raw line in order.
\<close>

definition latest :: "(LogEntry \<Rightarrow> string) \<Rightarrow> LogEntry list \<Rightarrow> string" where
  "latest f es = (let vs = filter (\<lambda>v. v \<noteq> []) (map f es) in if vs = [] then [] else last vs)"

definition latest_opt :: "(LogEntry \<Rightarrow> 'a option) \<Rightarrow> LogEntry list \<Rightarrow> 'a option" where
  "latest_opt f es = (let vs = filter (\<lambda>v. v \<noteq> None) (map f es) in if vs = [] then None else last vs)"

definition stitched :: "LogEntry list \<Rightarrow> MailTransaction" where
  "stitched es = \<lparr>mt_ArrivalTimestamp = le_TSUTC (hd es), mt_LastTimestamp = le_TSUTC (last es),
    mt_QueueID = le_QueueID (hd es),
    mt_Host = latest le_Host es, mt_Process = latest le_Process es, mt_Sender = latest le_MailFrom es,
    mt_Recipient = latest le_MailTo es, mt_Status = latest le_Status es, mt_Relay = latest le_Relay es,
    mt_Delay = latest_opt le_Delay es, mt_Delays = latest le_Delays es, mt_DSN = latest le_DSN es,
    mt_MessageID = latest le_MessageID es, mt_SizeBytes = latest_opt le_SizeBytes es,
    mt_QueuedAs = latest le_QueuedAs es, mt_MailID = latest le_MailID es,
    mt_Subject = latest le_Subject es, mt_Hits = latest_opt le_Hits es, mt_Helo = latest le_Helo es,
    mt_AmavisOrigin = latest le_AmavisOrigin es, mt_IsJunk = (\<exists>e \<in> set es. le_IsJunk e),
    mt_SpamScore = (case latest_opt le_SpamScore es of Some v \<Rightarrow> v | None \<Rightarrow> 0),
    mt_TimedOut = False, mt_Raw = map le_Raw es\<rparr>"

lemma latest_snoc: "latest f (es @ [e]) = override (f e) (latest f es)"
  by (simp add: latest_def override_def Let_def)

lemma latest_Nil [simp]: "latest f [] = []"
  by (simp add: latest_def)

lemma latest_opt_snoc: "latest_opt f (es @ [e]) = override_opt (f e) (latest_opt f es)"
  by (auto simp: latest_opt_def override_opt_def Let_def split: option.splits)

lemma latest_opt_Nil [simp]: "latest_opt f [] = None"
  by (simp add: latest_opt_def)

lemmas latest_simps = latest_snoc latest_snoc[where es = "[]", simplified]
  latest_opt_snoc latest_opt_snoc[where es = "[]", simplified]

lemma stitched_single: "stitched [e] = merge_entry e (new_transaction e)"
  by (simp add: stitched_def merge_entry_def new_transaction_def latest_simps override_opt_def split: option.splits)

lemma stitched_snoc: "es \<noteq> [] \<Longrightarrow> stitched (es @ [e]) = merge_entry e (stitched es)"
  by (auto simp: stitched_def merge_entry_def latest_simps override_opt_def split: option.splits)

section \<open>Runs of the stitcher\<close>

text \<open>The calls of \<^verbatim>\<open>Apply\<close> the ingestor makes, one per parsed entry, with the transactions they return.\<close>

fun run_apply :: "lib \<Rightarrow> (instant \<times> LogEntry) list \<Rightarrow> TransactionStitcher
    \<Rightarrow> MailTransaction list \<times> TransactionStitcher" where
  "run_apply L [] s = ([], s)"
| "run_apply L ((now, e) # xs) s =
    (let (r, s1) = Apply L now (Some e) s; (out, s2) = run_apply L xs s1
     in (case r of None \<Rightarrow> out | Some t \<Rightarrow> t # out, s2))"

lemma run_apply_append:
  "run_apply L (xs @ ys) s =
    (fst (run_apply L xs s) @ fst (run_apply L ys (snd (run_apply L xs s))),
     snd (run_apply L ys (snd (run_apply L xs s))))"
  by (induction L xs s rule: run_apply.induct) (auto simp: Let_def split: prod.splits option.splits)

lemma run_apply_ok [inv_intros]: "stitcher_ok L s \<Longrightarrow> stitcher_ok L (snd (run_apply L xs s))"
proof (induction L xs s rule: run_apply.induct)
  case (2 L now e xs s)
  have "stitcher_ok L (snd (Apply L now (Some e) s))"
    using 2(2) by (rule Apply_ok)
  then show ?case using 2(1) by (auto simp: Let_def split: prod.splits)
qed simp

text \<open>Entries of one queue, none of them terminal so far, leave exactly their stitched value open.\<close>

lemma run_apply_pending:
  assumes "xs \<noteq> []" and "q \<noteq> []" and "\<forall>x \<in> set xs. le_QueueID (snd x) = q"
    and "queues s q = None"
    and "\<forall>n. 0 < n \<and> n \<le> length xs \<longrightarrow> \<not> isTerminalStatus L (latest le_Status (map snd (take n xs)))"
  shows "run_apply L xs s = ([], s\<lparr>queues := (queues s)(q \<mapsto>
      \<lparr>transaction = stitched (map snd xs), lastSeen = fst (last xs)\<rparr>)\<rparr>)"
  using assms
proof (induction xs rule: rev_nonempty_induct)
  case (single x)
  obtain now e where x: "x = (now, e)" by fastforce
  have "\<not> isTerminalStatus L (latest le_Status [e])"
    using single.prems(4)[rule_format, of 1] x by simp
  moreover have "apply_merged e s = stitched [e]"
    using single.prems(2,3) x by (simp add: apply_merged_def stitched_single)
  ultimately have "Apply L now (Some e) s =
      (None, s\<lparr>queues := (queues s)(q \<mapsto> \<lparr>transaction = stitched [e], lastSeen = now\<rparr>)\<rparr>)"
    using Apply_open[of e L s now] single.prems(1,2) x by (simp add: stitched_def)
  then show ?case using x by (simp del: fun_upd_apply)
next
  case (snoc x xs)
  obtain now e where x: "x = (now, e)" by fastforce
  have IH: "run_apply L xs s = ([], s\<lparr>queues := (queues s)(q \<mapsto>
      \<lparr>transaction = stitched (map snd xs), lastSeen = fst (last xs)\<rparr>)\<rparr>)"
  proof (rule snoc.IH)
    show "\<forall>n. 0 < n \<and> n \<le> length xs \<longrightarrow> \<not> isTerminalStatus L (latest le_Status (map snd (take n xs)))"
    proof (intro allI impI)
      fix n assume n: "0 < n \<and> n \<le> length xs"
      then show "\<not> isTerminalStatus L (latest le_Status (map snd (take n xs)))"
        using snoc.prems(4)[rule_format, of n] by simp
    qed
  qed (use snoc.prems in auto)
  have nt: "\<not> isTerminalStatus L (mt_Status (stitched (map snd xs @ [e])))"
    using snoc.prems(4)[rule_format, of "length (xs @ [x])"] x by (simp add: stitched_def)
  have st: "stitched (map snd xs @ [e]) = merge_entry e (stitched (map snd xs))"
    using snoc.hyps by (simp add: stitched_snoc)
  show ?case
    using snoc.prems(1-3) x nt st IH Apply_open[of e L "s\<lparr>queues := (queues s)(q \<mapsto>
      \<lparr>transaction = stitched (map snd xs), lastSeen = fst (last xs)\<rparr>)\<rparr>" now]
    by (simp add: run_apply_append apply_merged_def fun_upd_same del: fun_upd_apply)
qed

section \<open>Properties\<close>

text \<open>
  C1. Stitching is correct. Take the log entries of one queue id, in order, such that no proper
  prefix of them has reached a terminal status and all of them together have. Feeding them to
  \<^verbatim>\<open>Apply\<close> hands out exactly one transaction, on the last entry; every field of it is the one
  the specification \<open>stitched\<close> gives (last non-empty value per field, first arrival, all raw
  lines in order), and the stitcher is left exactly as it was before the queue appeared.
\<close>

theorem stitch_completes:
  assumes "q \<noteq> []" and "\<forall>x \<in> set (xs @ [x]). le_QueueID (snd x) = q"
    and "queues s q = None"
    and "\<forall>n. 0 < n \<and> n \<le> length xs \<longrightarrow> \<not> isTerminalStatus L (latest le_Status (map snd (take n xs)))"
    and "isTerminalStatus L (latest le_Status (map snd (xs @ [x])))"
  shows "run_apply L (xs @ [x]) s = ([stitched (map snd (xs @ [x]))], s)"
proof -
  obtain now e where x: "x = (now, e)" by fastforce
  have closes: "isTerminalStatus L (mt_Status (stitched (map snd xs @ [e])))"
    using assms(5) x by (simp add: stitched_def)
  show ?thesis
  proof (cases "xs = []")
    case True
    then show ?thesis using assms(1-3) closes x
      by (auto simp: Apply_def Let_def stitched_single fun_upd_idem)
  next
    case False
    have pend: "run_apply L xs s = ([], s\<lparr>queues := (queues s)(q \<mapsto>
        \<lparr>transaction = stitched (map snd xs), lastSeen = fst (last xs)\<rparr>)\<rparr>)"
      using run_apply_pending[OF False assms(1) _ assms(3,4)] assms(2) by simp
    have "stitched (map snd xs @ [e]) = merge_entry e (stitched (map snd xs))"
      using False by (simp add: stitched_snoc)
    then show ?thesis using assms(1-3) closes x
      by (simp add: run_apply_append pend Apply_def Let_def fun_upd_idem)
  qed
qed

theorem stitch_completes_witness:
  "let e1 = LogEntry_zero\<lparr>le_TSUTC := 10, le_QueueID := ''ABC123'', le_MailFrom := ''sender'', le_Raw := ''l1''\<rparr>;
       e2 = LogEntry_zero\<lparr>le_TSUTC := 11, le_QueueID := ''ABC123'', le_MailTo := ''receiver'',
              le_Status := ''deferred'', le_Raw := ''l2''\<rparr>;
       e3 = LogEntry_zero\<lparr>le_TSUTC := 12, le_QueueID := ''ABC123'', le_Status := ''Sent'', le_Raw := ''l3''\<rparr>
   in run_apply example_lib ([(1, e1), (2, e2)] @ [(3, e3)]) (NewTransactionStitcher Hour) =
      ([stitched [e1, e2, e3]], NewTransactionStitcher Hour) \<and>
      mt_Sender (stitched [e1, e2, e3]) = ''sender'' \<and> mt_Recipient (stitched [e1, e2, e3]) = ''receiver'' \<and>
      mt_Raw (stitched [e1, e2, e3]) = [''l1'', ''l2'', ''l3'']"
proof -
  let ?e1 = "LogEntry_zero\<lparr>le_TSUTC := 10, le_QueueID := ''ABC123'', le_MailFrom := ''sender'', le_Raw := ''l1''\<rparr>"
  let ?e2 = "LogEntry_zero\<lparr>le_TSUTC := 11, le_QueueID := ''ABC123'', le_MailTo := ''receiver'',
              le_Status := ''deferred'', le_Raw := ''l2''\<rparr>"
  let ?e3 = "LogEntry_zero\<lparr>le_TSUTC := 12, le_QueueID := ''ABC123'', le_Status := ''Sent'', le_Raw := ''l3''\<rparr>"
  let ?xs = "[(1, ?e1), (2, ?e2)] :: (instant \<times> LogEntry) list"
  have open1: "\<not> isTerminalStatus example_lib (latest le_Status (map snd (take n ?xs)))" if "0 < n \<and> n \<le> length ?xs" for n
  proof -
    from that have "n = 1 \<or> n = 2" by auto
    then show ?thesis
      by (auto simp: isTerminalStatus_def latest_def ToLower_def LogEntry_zero_def char_eval)
  qed
  have "isTerminalStatus example_lib (latest le_Status (map snd (?xs @ [(3, ?e3)])))"
    by (simp add: isTerminalStatus_def latest_def ToLower_def LogEntry_zero_def char_eval)
  then have "run_apply example_lib (?xs @ [(3, ?e3)]) (NewTransactionStitcher Hour) =
      ([stitched (map snd (?xs @ [(3, ?e3)]))], NewTransactionStitcher Hour)"
    using open1 by (intro stitch_completes[of "''ABC123''"]) (auto simp: NewTransactionStitcher_def)
  then show ?thesis
    by (simp add: Let_def stitched_def latest_def LogEntry_zero_def)
qed


text \<open>Two stitchers that agree on a queue treat its entries alike, whatever else they hold.\<close>

lemma Apply_agree:
  assumes "queues s (le_QueueID e) = queues s' (le_QueueID e)"
  shows "fst (Apply L now (Some e) s) = fst (Apply L now (Some e) s')"
    and "queues (snd (Apply L now (Some e) s)) (le_QueueID e) = queues (snd (Apply L now (Some e) s')) (le_QueueID e)"
  using assms by (auto simp: Apply_def Let_def)

lemma Apply_other: "q \<noteq> le_QueueID e \<Longrightarrow> queues (snd (Apply L now (Some e) s)) q = queues s q"
  by (simp add: Apply_def Let_def)

lemma Apply_result_id:
  assumes "stitcher_ok L s" and "fst (Apply L now (Some e) s) = Some t"
  shows "mt_QueueID t = le_QueueID e"
proof -
  have q: "le_QueueID e \<noteq> []" and "t = apply_merged e s"
    using assms(2) by (auto simp: Apply_def apply_merged_def Let_def split: if_splits)
  then show ?thesis using apply_merged_ok(1)[OF assms(1) q] by simp
qed

lemma run_apply_agree:
  assumes "stitcher_ok L s" and "stitcher_ok L s'" and "queues s q = queues s' q"
  shows "filter (\<lambda>t. mt_QueueID t = q) (fst (run_apply L xs s)) =
      fst (run_apply L (filter (\<lambda>x. le_QueueID (snd x) = q) xs) s')
    \<and> queues (snd (run_apply L xs s)) q = queues (snd (run_apply L (filter (\<lambda>x. le_QueueID (snd x) = q) xs) s')) q"
  using assms
proof (induction xs arbitrary: s s')
  case Nil
  then show ?case by simp
next
  case (Cons x xs)
  obtain now e where x: "x = (now, e)" by fastforce
  let ?s1 = "snd (Apply L now (Some e) s)" and ?t1 = "snd (Apply L now (Some e) s')"
  have ok: "stitcher_ok L ?s1" "stitcher_ok L ?t1"
    using Cons.prems by (auto intro: Apply_ok)
  show ?case
  proof (cases "le_QueueID e = q")
    case True
    have "queues ?s1 q = queues ?t1 q" and f: "fst (Apply L now (Some e) s) = fst (Apply L now (Some e) s')"
      using Apply_agree[of s e s' L now] Cons.prems(3) True by auto
    note IH = Cons.IH[OF ok this(1)]
    show ?thesis using IH f True x Apply_result_id[OF Cons.prems(1), of now e]
      by (auto simp: Let_def split: prod.splits option.splits)
  next
    case False
    then have "queues ?s1 q = queues s' q"
      using Cons.prems(3) by (simp add: Apply_other)
    note IH = Cons.IH[OF ok(1) Cons.prems(2) this]
    show ?thesis using IH False x Apply_result_id[OF Cons.prems(1), of now e]
      by (auto simp: Let_def split: prod.splits option.splits)
  qed
qed

text \<open>
  C2. Interleaving does not matter. In any log, the transactions handed out for a queue id, and
  what is left open for it, are those of a log that holds only the entries of that queue id.
\<close>

theorem stitch_interleaving:
  assumes "stitcher_ok L s"
  shows "filter (\<lambda>t. mt_QueueID t = q) (fst (run_apply L xs s)) =
      fst (run_apply L (filter (\<lambda>x. le_QueueID (snd x) = q) xs) s)
    \<and> queues (snd (run_apply L xs s)) q = queues (snd (run_apply L (filter (\<lambda>x. le_QueueID (snd x) = q) xs) s)) q"
  using run_apply_agree[OF assms assms refl] .

theorem stitch_interleaving_witness:
  "let a = LogEntry_zero\<lparr>le_QueueID := ''A'', le_Status := ''sent'', le_Raw := ''a''\<rparr>;
       b = LogEntry_zero\<lparr>le_QueueID := ''B'', le_Status := ''sent'', le_Raw := ''b''\<rparr>
   in filter (\<lambda>t. mt_QueueID t = ''A'') (fst (run_apply example_lib [(1, b), (2, a)] (NewTransactionStitcher Hour))) =
        fst (run_apply example_lib [(2, a)] (NewTransactionStitcher Hour))"
  using stitch_interleaving[OF stitcher_ok_new[of example_lib Hour], where q = "''A''" and xs =
      "[(1, LogEntry_zero\<lparr>le_QueueID := ''B'', le_Status := ''sent'', le_Raw := ''b''\<rparr>),
        (2, LogEntry_zero\<lparr>le_QueueID := ''A'', le_Status := ''sent'', le_Raw := ''a''\<rparr>)]"]
  by (simp add: Let_def)

section \<open>Eviction and conservation\<close>

definition expired_at :: "instant \<Rightarrow> TransactionStitcher \<Rightarrow> string \<Rightarrow> bool" where
  "expired_at now s q = (case queues s q of None \<Rightarrow> False | Some queue \<Rightarrow> \<not> time_Sub now (lastSeen queue) < idleTimeout s)"

definition timed_out :: "TransactionStitcher \<Rightarrow> string \<Rightarrow> MailTransaction" where
  "timed_out s q = (transaction (the (queues s q)))\<lparr>mt_TimedOut := True\<rparr>"

lemma evict_loop_eq:
  assumes "distinct keys"
  shows "evict_loop now keys s acc =
    (acc @ map (timed_out s) (filter (expired_at now s) keys),
     s\<lparr>queues := (\<lambda>q. if q \<in> set keys \<and> expired_at now s q then None else queues s q)\<rparr>)"
  using assms
proof (induction keys arbitrary: s acc)
  case Nil
  then show ?case by simp
next
  case (Cons q qs)
  show ?case
  proof (cases "expired_at now s q")
    case False
    then have "evict_loop now (q # qs) s acc = evict_loop now qs s acc"
      by (auto simp: expired_at_def split: option.splits)
    moreover have "(\<lambda>p. if p \<in> set (q # qs) \<and> expired_at now s p then None else queues s p) =
        (\<lambda>p. if p \<in> set qs \<and> expired_at now s p then None else queues s p)"
      using False by (auto simp: fun_eq_iff)
    ultimately show ?thesis using Cons False by simp
  next
    case True
    let ?s1 = "s\<lparr>queues := (queues s)(q := None)\<rparr>"
    have step: "evict_loop now (q # qs) s acc = evict_loop now qs ?s1 (acc @ [timed_out s q])"
      using True by (auto simp: expired_at_def timed_out_def split: option.splits)
    have same: "expired_at now ?s1 p = expired_at now s p" "timed_out ?s1 p = timed_out s p" if "p \<in> set qs" for p
      using that Cons.prems by (auto simp: expired_at_def timed_out_def split: option.splits)
    have "(\<lambda>p. if p \<in> set qs \<and> expired_at now ?s1 p then None else queues ?s1 p) =
        (\<lambda>p. if p \<in> set (q # qs) \<and> expired_at now s p then None else queues s p)"
      using True same by (auto simp: fun_eq_iff)
    then have "evict_loop now qs ?s1 (acc @ [timed_out s q]) =
        (acc @ [timed_out s q] @ map (timed_out s) (filter (expired_at now s) qs),
         s\<lparr>queues := (\<lambda>p. if p \<in> set (q # qs) \<and> expired_at now s p then None else queues s p)\<rparr>)"
      using Cons.IH[of ?s1 "acc @ [timed_out s q]"] Cons.prems same by (simp cong: filter_cong map_cong)
    then show ?thesis using step True by simp
  qed
qed


text \<open>
  C3. Eviction removes exactly the idle queues. For every order in which the map is iterated,
  \<^verbatim>\<open>EvictExpired\<close> returns one transaction per queue that has been idle for at least the timeout,
  marked as timed out and otherwise unchanged, in iteration order; these queues are gone
  afterwards and every other queue is kept as it was.
\<close>

theorem evict_exact:
  assumes "distinct keys" and "set keys = dom (queues s)"
  shows "fst (EvictExpired keys now s) =
      map (\<lambda>q. (transaction (the (queues s q)))\<lparr>mt_TimedOut := True\<rparr>)
        (filter (\<lambda>q. idleTimeout s \<le> time_Sub now (lastSeen (the (queues s q)))) keys)
    \<and> queues (snd (EvictExpired keys now s)) =
      (\<lambda>q. case queues s q of None \<Rightarrow> None
           | Some queue \<Rightarrow> if idleTimeout s \<le> time_Sub now (lastSeen queue) then None else Some queue)"
proof
  have "filter (expired_at now s) keys =
      filter (\<lambda>q. idleTimeout s \<le> time_Sub now (lastSeen (the (queues s q)))) keys"
    using assms(2) by (intro filter_cong) (auto simp: expired_at_def)
  then show "fst (EvictExpired keys now s) =
      map (\<lambda>q. (transaction (the (queues s q)))\<lparr>mt_TimedOut := True\<rparr>)
        (filter (\<lambda>q. idleTimeout s \<le> time_Sub now (lastSeen (the (queues s q)))) keys)"
    by (simp add: EvictExpired_def evict_loop_eq[OF assms(1)] timed_out_def)
next
  show "queues (snd (EvictExpired keys now s)) =
      (\<lambda>q. case queues s q of None \<Rightarrow> None
           | Some queue \<Rightarrow> if idleTimeout s \<le> time_Sub now (lastSeen queue) then None else Some queue)"
    using assms(2)
    by (auto simp: EvictExpired_def evict_loop_eq[OF assms(1)] expired_at_def fun_eq_iff split: option.splits)
qed

theorem evict_exact_witness:
  "let a = \<lparr>transaction = stitched [LogEntry_zero\<lparr>le_QueueID := ''A''\<rparr>], lastSeen = 0\<rparr>;
       b = \<lparr>transaction = stitched [LogEntry_zero\<lparr>le_QueueID := ''B''\<rparr>], lastSeen = 8\<rparr>;
       s = \<lparr>queues = [''A'' \<mapsto> a, ''B'' \<mapsto> b], idleTimeout = 5\<rparr>
   in map mt_QueueID (fst (EvictExpired [''B'', ''A''] 10 s)) = [''A''] \<and>
      queues (snd (EvictExpired [''B'', ''A''] 10 s)) ''B'' = Some b"
proof -
  let ?a = "\<lparr>transaction = stitched [LogEntry_zero\<lparr>le_QueueID := ''A''\<rparr>], lastSeen = 0\<rparr>"
  let ?b = "\<lparr>transaction = stitched [LogEntry_zero\<lparr>le_QueueID := ''B''\<rparr>], lastSeen = 8\<rparr>"
  let ?s = "\<lparr>queues = [''A'' \<mapsto> ?a, ''B'' \<mapsto> ?b], idleTimeout = 5\<rparr>"
  have "set [''B'', ''A''] = dom (queues ?s)" by auto
  from evict_exact[OF _ this, of 10] show ?thesis
    by (simp add: Let_def time_Sub_def int64_defs stitched_def)
qed

text \<open>
  A run of the ingestor's stitcher as events: an entry was parsed, or the eviction ticker fired
  with some iteration order of the map.
\<close>

datatype stitcher_event = EntryParsed instant LogEntry | EvictionTick instant "string list"

fun run_stitcher :: "lib \<Rightarrow> stitcher_event list \<Rightarrow> TransactionStitcher
    \<Rightarrow> MailTransaction list \<times> TransactionStitcher" where
  "run_stitcher L [] s = ([], s)"
| "run_stitcher L (EntryParsed now e # evs) s =
    (let (r, s1) = Apply L now (Some e) s; (out, s2) = run_stitcher L evs s1
     in (case r of None \<Rightarrow> out | Some t \<Rightarrow> t # out, s2))"
| "run_stitcher L (EvictionTick now keys # evs) s =
    (let (r, s1) = EvictExpired keys now s; (out, s2) = run_stitcher L evs s1 in (r @ out, s2))"

fun event_raws :: "stitcher_event \<Rightarrow> string list" where
  "event_raws (EntryParsed now e) = (if le_QueueID e = [] then [] else [le_Raw e])"
| "event_raws (EvictionTick now keys) = []"

definition held_raws :: "TransactionStitcher \<Rightarrow> string multiset" where
  "held_raws s = (\<Sum>q \<in> dom (queues s). mset (mt_Raw (transaction (the (queues s q)))))"

definition raws_of :: "queuedTransaction option \<Rightarrow> string multiset" where
  "raws_of oq = (case oq of None \<Rightarrow> {#} | Some w \<Rightarrow> mset (mt_Raw (transaction w)))"

lemma raws_of_simps [simp]:
  "raws_of None = {#}" "raws_of (Some w) = mset (mt_Raw (transaction w))"
  by (simp_all add: raws_of_def)

lemma held_raws_split:
  assumes "finite (dom (queues s))"
  shows "held_raws s = raws_of (queues s q) + (\<Sum>p \<in> dom (queues s) - {q}. raws_of (queues s p))"
proof -
  have "held_raws s = (\<Sum>p \<in> dom (queues s). raws_of (queues s p))"
    unfolding held_raws_def by (intro sum.cong) auto
  then show ?thesis using assms
    by (cases "q \<in> dom (queues s)") (auto simp: sum.remove domIff)
qed

text \<open>Replacing one map entry changes the held lines by that entry only.\<close>

lemma held_raws_upd:
  assumes "finite (dom (queues s))"
  shows "held_raws (s\<lparr>queues := (queues s)(q := v)\<rparr>) + raws_of (queues s q) = held_raws s + raws_of v"
proof -
  let ?s = "s\<lparr>queues := (queues s)(q := v)\<rparr>"
  have "dom (queues ?s) - {q} = dom (queues s) - {q}" by auto
  moreover have "(\<Sum>p \<in> dom (queues s) - {q}. raws_of (queues ?s p)) =
      (\<Sum>p \<in> dom (queues s) - {q}. raws_of (queues s p))"
    by (intro sum.cong) auto
  moreover have "finite (dom (queues ?s))"
    using assms by (cases v) (auto simp: dom_fun_upd)
  ultimately show ?thesis
    using held_raws_split[of ?s q] held_raws_split[OF assms, of q] by (simp add: ac_simps)
qed

lemma Apply_conserves:
  assumes "stitcher_ok L s"
  shows "(case fst (Apply L now (Some e) s) of None \<Rightarrow> {#} | Some t \<Rightarrow> mset (mt_Raw t)) +
      held_raws (snd (Apply L now (Some e) s)) = held_raws s + mset (event_raws (EntryParsed now e))"
proof (cases "le_QueueID e = []")
  case True
  then show ?thesis by (simp add: Apply_ignored)
next
  case False
  have fin: "finite (dom (queues s))" using assms by (simp add: stitcher_ok_def)
  have raw: "mset (mt_Raw (apply_merged e s)) = raws_of (queues s (le_QueueID e)) + {#le_Raw e#}"
    by (simp add: apply_merged_def split: option.splits)
  show ?thesis
  proof (cases "isTerminalStatus L (mt_Status (apply_merged e s))")
    case True
    then show ?thesis using held_raws_upd[OF fin, of "le_QueueID e" None] False raw
      by (simp add: Apply_close ac_simps)
  next
    case still: False
    then show ?thesis
      using held_raws_upd[OF fin, of "le_QueueID e" "Some \<lparr>transaction = apply_merged e s, lastSeen = now\<rparr>"] False raw
      by (simp add: Apply_open ac_simps)
  qed
qed

lemma stitcher_ok_delete: "stitcher_ok L s \<Longrightarrow> stitcher_ok L (s\<lparr>queues := (queues s)(q := None)\<rparr>)"
  by (auto simp: stitcher_ok_def)

lemma evict_loop_conserves:
  assumes "stitcher_ok L s"
  shows "stitcher_ok L (snd (evict_loop now keys s acc)) \<and>
    mset (concat (map mt_Raw (fst (evict_loop now keys s acc)))) + held_raws (snd (evict_loop now keys s acc)) =
      mset (concat (map mt_Raw acc)) + held_raws s"
  using assms
proof (induction now keys s acc rule: evict_loop.induct)
  case (1 now s expired)
  then show ?case by simp
next
  case (2 now q qs s expired)
  have fin: "finite (dom (queues s))" using 2(4) by (simp add: stitcher_ok_def)
  show ?case
  proof (cases "queues s q")
    case None
    then show ?thesis using 2 by simp
  next
    case (Some queue)
    show ?thesis
    proof (cases "time_Sub now (lastSeen queue) < idleTimeout s")
      case True
      then show ?thesis using 2(2)[OF Some True 2(4)] Some by simp
    next
      case False
      note IH = 2(3)[OF Some False stitcher_ok_delete[OF 2(4)]]
      show ?thesis using IH held_raws_upd[OF fin, of q None] Some False by (simp add: ac_simps)
    qed
  qed
qed

lemma EvictExpired_ok [inv_intros]: "stitcher_ok L s \<Longrightarrow> stitcher_ok L (snd (EvictExpired keys now s))"
  by (simp add: EvictExpired_def evict_loop_conserves)

lemma run_stitcher_conserves:
  assumes "stitcher_ok L s"
  shows "stitcher_ok L (snd (run_stitcher L evs s)) \<and>
    mset (concat (map mt_Raw (fst (run_stitcher L evs s)))) + held_raws (snd (run_stitcher L evs s)) =
      held_raws s + mset (concat (map event_raws evs))"
  using assms
proof (induction L evs s rule: run_stitcher.induct)
  case (1 L s)
  then show ?case by simp
next
  case (2 L now e evs s)
  obtain r s1 where a: "Apply L now (Some e) s = (r, s1)" by fastforce
  have "stitcher_ok L s1" using Apply_ok[OF 2(2), of now "Some e"] a by simp
  note IH = 2(1)[OF a[symmetric] refl this]
  have "(case r of None \<Rightarrow> {#} | Some t \<Rightarrow> mset (mt_Raw t)) + held_raws s1 =
      held_raws s + mset (event_raws (EntryParsed now e))"
    using Apply_conserves[OF 2(2), of now e] a by simp
  from mset_chain[OF this conjunct2[OF IH]] show ?case using conjunct1[OF IH] a
    by (cases r) (auto simp: Let_def ac_simps split: prod.splits)
next
  case (3 L now keys evs s)
  obtain r s1 where a: "EvictExpired keys now s = (r, s1)" by fastforce
  have ok: "stitcher_ok L s1" using EvictExpired_ok[OF 3(2), of keys now] a by simp
  note IH = 3(1)[OF a[symmetric] refl ok]
  have "mset (concat (map mt_Raw r)) + held_raws s1 = held_raws s"
    using evict_loop_conserves[OF 3(2), of now keys "[]"] a by (simp add: EvictExpired_def)
  from mset_chain[OF this conjunct2[OF IH]] show ?case using conjunct1[OF IH] a
    by (auto simp: Let_def split: prod.splits)
qed

text \<open>
  C4. No log line is lost or duplicated by stitching. Over any run from a new stitcher, with
  entries and eviction ticks in any order, the raw lines of the transactions handed out,
  together with those of the transactions still open, are exactly the lines of the entries
  that carried a queue id, each as often as it was fed in; and the open transactions are
  always well formed (own queue id, not terminal, not timed out).
\<close>

theorem stitcher_conserves_lines:
  "let (out, s) = run_stitcher L evs (NewTransactionStitcher d)
   in mset (concat (map mt_Raw out)) + held_raws s = mset (concat (map event_raws evs)) \<and> stitcher_ok L s"
proof -
  have "held_raws (NewTransactionStitcher d) = {#}"
    by (simp add: held_raws_def NewTransactionStitcher_def)
  then show ?thesis using run_stitcher_conserves[OF stitcher_ok_new, of L evs d]
    by (auto split: prod.splits)
qed

end
