(* ===== verification/Store.thy ===== *)
theory Store
  imports Schema Stitcher
begin

text \<open>
  Persistence of the mail log (\<^verbatim>\<open>src/continuous_ingest.go\<close>, \<^verbatim>\<open>src/ingest.go\<close>): the raw entry,
  the stitched transaction row and the byte checkpoint of a log line are written in one database
  transaction. A failed transaction is rolled back, so a function that fails returns the error
  and the caller keeps the database it had.
\<close>

section \<open>Column values\<close>

text \<open>\<^verbatim>\<open>size_bytes\<close> is a PostgreSQL INTEGER: 32 bits, out of range is an error.\<close>

definition int4_ok :: "int option \<Rightarrow> bool" where
  "int4_ok v = (case v of None \<Rightarrow> True | Some n \<Rightarrow> - (2 ^ 31) \<le> n \<and> n < 2 ^ 31)"

definition real_ok :: "lib \<Rightarrow> float64 option \<Rightarrow> bool" where
  "real_ok L v = (case v of None \<Rightarrow> True | Some f \<Rightarrow> pg_real L f \<noteq> None)"

definition real_col :: "lib \<Rightarrow> float64 option \<Rightarrow> float64 option" where
  "real_col L v = (case v of None \<Rightarrow> None | Some f \<Rightarrow> pg_real L f)"

text \<open>
  The arguments of the two INSERT statements and of the UPDATE, in the order of the source
  (\<^verbatim>\<open>nullFloat\<close> and \<^verbatim>\<open>nullInt64\<close> turn a nil pointer into NULL); the statement fails when a value
  does not fit its column.
\<close>

definition entry_texts :: "LogEntry \<Rightarrow> string list" where
  "entry_texts e = [le_Host e, le_Process e, le_QueueID e, le_MailFrom e, le_MailTo e, le_Status e, le_Relay e,
    le_Delays e, le_DSN e, le_MessageID e, le_QueuedAs e, le_MailID e, le_Subject e, le_Helo e,
    le_AmavisOrigin e, le_Raw e]"

definition storable :: "lib \<Rightarrow> LogEntry \<Rightarrow> bool" where
  "storable L e \<longleftrightarrow> int4_ok (le_SizeBytes e) \<and> real_ok L (le_Delay e) \<and> real_ok L (le_Hits e)
    \<and> real_ok L (le_SpamScore e) \<and> list_all (pg_text_ok L) (entry_texts e)"

section \<open>Raw entries\<close>

definition insertRawEntry :: "lib \<Rightarrow> faults \<Rightarrow> LogEntry \<Rightarrow> db \<Rightarrow> (bool \<times> db) result" where
  "insertRawEntry L flt e d =
    (case flt InsertRaw of Some x \<Rightarrow> Inl x
     | None \<Rightarrow>
        if \<not> (storable L e \<and> pg_text_ok L (le_RawHash e)) then Inl ''invalid column value''
        else
          let d1 = d\<lparr>maillog_entries_seq := maillog_entries_seq d + 1\<rparr>
          in if \<exists>r \<in> set (maillog_entries d). le_RawHash r = le_RawHash e then Inr (False, d1)
             else Inr (True, d1\<lparr>maillog_entries := maillog_entries d @
               [LogEntry.extend (e\<lparr>le_TSUTC := pg_time L (le_TSUTC e), le_Delay := real_col L (le_Delay e), le_Hits := real_col L (le_Hits e),
                  le_SpamScore := real_col L (le_SpamScore e)\<rparr>) (maillog_row.fields (maillog_entries_seq d))]\<rparr>))"

section \<open>Stitched transactions in the database\<close>

text \<open>The SET list of the UPDATE.\<close>

definition merge_row :: "lib \<Rightarrow> instant \<Rightarrow> LogEntry \<Rightarrow> tx_row \<Rightarrow> tx_row" where
  "merge_row L now e r = r\<lparr>
    tr_last_ts_utc := pg_time L (le_TSUTC e),
    tr_host := override (le_Host e) (tr_host r),
    tr_process := override (le_Process e) (tr_process r),
    tr_mail_from := override (le_MailFrom e) (tr_mail_from r),
    tr_mail_to := override (le_MailTo e) (tr_mail_to r),
    tr_status := override (le_Status e) (tr_status r),
    tr_relay := override (le_Relay e) (tr_relay r),
    tr_delay := override_opt (real_col L (le_Delay e)) (tr_delay r),
    tr_delays := override (le_Delays e) (tr_delays r),
    tr_dsn := override (le_DSN e) (tr_dsn r),
    tr_message_id := override (le_MessageID e) (tr_message_id r),
    tr_size_bytes := override_opt (le_SizeBytes e) (tr_size_bytes r),
    tr_queued_as := override (le_QueuedAs e) (tr_queued_as r),
    tr_mail_id := override (le_MailID e) (tr_mail_id r),
    tr_subject := override (le_Subject e) (tr_subject r),
    tr_hits := override_opt (real_col L (le_Hits e)) (tr_hits r),
    tr_helo := override (le_Helo e) (tr_helo r),
    tr_amavis_origin := override (le_AmavisOrigin e) (tr_amavis_origin r),
    tr_is_junk := (tr_is_junk r \<or> le_IsJunk e),
    tr_spam_score := override_opt (real_col L (le_SpamScore e)) (tr_spam_score r),
    tr_raw := (if tr_raw r = [] then le_Raw e else tr_raw r @ [CHR 0x0A] @ le_Raw e),
    tr_terminal := (tr_terminal r \<or> isTerminalStatus L (le_Status e)),
    tr_updated_at := now\<rparr>"

text \<open>The VALUES list of the INSERT.\<close>

definition insert_row :: "lib \<Rightarrow> instant \<Rightarrow> LogEntry \<Rightarrow> int \<Rightarrow> tx_row" where
  "insert_row L now e i = \<lparr>tr_id = i, tr_arrival_ts_utc = pg_time L (le_TSUTC e),
    tr_last_ts_utc = pg_time L (le_TSUTC e),
    tr_queue_id = le_QueueID e, tr_host = le_Host e, tr_process = le_Process e,
    tr_mail_from = le_MailFrom e, tr_mail_to = le_MailTo e, tr_status = le_Status e, tr_relay = le_Relay e,
    tr_delay = real_col L (le_Delay e), tr_delays = le_Delays e, tr_dsn = le_DSN e,
    tr_message_id = le_MessageID e, tr_size_bytes = le_SizeBytes e, tr_queued_as = le_QueuedAs e,
    tr_mail_id = le_MailID e, tr_subject = le_Subject e, tr_hits = real_col L (le_Hits e),
    tr_helo = le_Helo e, tr_amavis_origin = le_AmavisOrigin e, tr_is_junk = le_IsJunk e,
    tr_spam_score = real_col L (le_SpamScore e), tr_raw = le_Raw e,
    tr_terminal = isTerminalStatus L (le_Status e), tr_timed_out = False, tr_updated_at = now\<rparr>"

text \<open>\<^verbatim>\<open>SELECT id ... WHERE queue_id = $1 AND terminal = FALSE ORDER BY id DESC LIMIT 1\<close>.\<close>

definition is_active :: "string \<Rightarrow> tx_row \<Rightarrow> bool" where
  "is_active q r \<longleftrightarrow> tr_queue_id r = q \<and> \<not> tr_terminal r"

definition select_active :: "string \<Rightarrow> tx_row list \<Rightarrow> int option" where
  "select_active q rows = (case map tr_id (filter (is_active q) rows) of [] \<Rightarrow> None
     | i # is \<Rightarrow> Some (fold max is i))"

text \<open>
  What the two statements do to the table: update the selected row, or insert a new one when no
  row was updated. The advisory lock only excludes other sessions and changes no row.
\<close>

type_synonym tx_table = "tx_row list \<times> int"

definition merge_table :: "lib \<Rightarrow> instant \<Rightarrow> LogEntry \<Rightarrow> tx_table \<Rightarrow> tx_table" where
  "merge_table L now e tbl =
    (case select_active (le_QueueID e) (fst tbl) of
       Some i \<Rightarrow> (update_where (\<lambda>r. tr_id r = i) (merge_row L now e) (fst tbl), snd tbl)
     | None \<Rightarrow> (fst tbl @ [insert_row L now e (snd tbl)], snd tbl + 1))"

definition mergeMailTransaction :: "lib \<Rightarrow> faults \<Rightarrow> instant \<Rightarrow> LogEntry \<Rightarrow> db \<Rightarrow> db result" where
  "mergeMailTransaction L flt now e d =
    (case flt LockQueue of Some x \<Rightarrow> Inl x
     | None \<Rightarrow>
      (case flt UpdateTransaction of Some x \<Rightarrow> Inl x
       | None \<Rightarrow>
          if \<not> storable L e then Inl ''invalid column value''
          else if select_active (le_QueueID e) (mail_transactions d) = None \<and> flt InsertTransaction \<noteq> None
          then Inl (the (flt InsertTransaction))
          else let (rows, sq) = merge_table L now e (mail_transactions d, mail_transactions_seq d)
               in Inr (d\<lparr>mail_transactions := rows, mail_transactions_seq := sq\<rparr>)))"

definition evictExpiredTransactions :: "lib \<Rightarrow> faults \<Rightarrow> instant \<Rightarrow> instant \<Rightarrow> db \<Rightarrow> db result" where
  "evictExpiredTransactions L flt now cutoff d =
    (case flt EvictTransactions of Some x \<Rightarrow> Inl (''evict idle mail transactions: '' @ x)
     | None \<Rightarrow> Inr (d\<lparr>mail_transactions :=
         update_where (\<lambda>r. \<not> tr_terminal r \<and> tr_updated_at r < pg_time L cutoff)
           (\<lambda>r. r\<lparr>tr_terminal := True, tr_timed_out := True,
                  tr_status := (if tr_status r = [] then ''timed_out'' else tr_status r),
                  tr_updated_at := now\<rparr>)
           (mail_transactions d)\<rparr>))"

section \<open>Checkpoints\<close>

record ingestState =
  OffsetBytes :: int
  Inode :: int

text \<open>\<open>now\<close> is the clock value as its TIMESTAMPTZ column keeps it; nothing reads that column.\<close>

definition setIngestStateTx :: "faults \<Rightarrow> instant \<Rightarrow> string \<Rightarrow> int \<Rightarrow> int \<Rightarrow> db \<Rightarrow> db result" where
  "setIngestStateTx flt now key offset inode d =
    (case flt SaveCheckpoint of Some x \<Rightarrow> Inl x
     | None \<Rightarrow> Inr (d\<lparr>ingest_state_tbl := upsert ir_key
         \<lparr>ir_key = key, ir_offset_bytes = offset, ir_inode = inode, ir_updated_at = now\<rparr>
         (\<lambda>r. r\<lparr>ir_offset_bytes := offset, ir_inode := inode, ir_updated_at := now\<rparr>)
         (ingest_state_tbl d)\<rparr>))"

definition getIngestState :: "faults \<Rightarrow> string \<Rightarrow> db \<Rightarrow> ingestState result" where
  "getIngestState flt key d =
    (case flt LoadCheckpoint of Some x \<Rightarrow> Inl x
     | None \<Rightarrow> (case select_by ir_key key (ingest_state_tbl d) of
         None \<Rightarrow> Inr \<lparr>OffsetBytes = 0, Inode = 0\<rparr>
       | Some r \<Rightarrow> Inr \<lparr>OffsetBytes = ir_offset_bytes r, Inode = ir_inode r\<rparr>))"

section \<open>One log line, one database transaction\<close>

record lineRecord =
  lr_Sequence :: int
  lr_Text :: string
  lr_Inode :: int
  lr_Offset :: int

definition continuousIngestStateKey :: "string \<Rightarrow> string" where
  "continuousIngestStateKey path = ''continuous:'' @ path"

text \<open>The part of the transaction for a line that parsed: \<^verbatim>\<open>if entry != nil\<close>.\<close>

definition persist_entry :: "lib \<Rightarrow> faults \<Rightarrow> instant \<Rightarrow> LogEntry option \<Rightarrow> db \<Rightarrow> db result" where
  "persist_entry L flt now entry d =
    (case entry of None \<Rightarrow> Inr d
     | Some e \<Rightarrow>
        (case insertRawEntry L flt e d of
           Inl x \<Rightarrow> Inl (''insert raw maillog entry: '' @ x)
         | Inr (inserted, d1) \<Rightarrow>
             if le_QueueID e \<noteq> [] then
               (case mergeMailTransaction L flt now e d1 of
                  Inl x \<Rightarrow> Inl (''merge mail transaction: '' @ x)
                | Inr d2 \<Rightarrow> Inr d2)
             else Inr d1))"

definition persistMailLogRecord :: "lib \<Rightarrow> faults \<Rightarrow> instant \<Rightarrow> string \<Rightarrow> lineRecord \<Rightarrow> LogEntry option
    \<Rightarrow> db \<Rightarrow> db result" where
  "persistMailLogRecord L flt now stateKey rc entry d =
    (case flt Begin of Some x \<Rightarrow> Inl (''begin maillog record transaction: '' @ x)
     | None \<Rightarrow>
      (case persist_entry L flt now entry d of
         Inl x \<Rightarrow> Inl x
       | Inr d1 \<Rightarrow>
          (case setIngestStateTx flt now stateKey (lr_Offset rc) (lr_Inode rc) d1 of
             Inl x \<Rightarrow> Inl (''save ingest checkpoint: '' @ x)
           | Inr d2 \<Rightarrow>
              (case flt Commit of Some x \<Rightarrow> Inl (''commit maillog record transaction: '' @ x)
               | None \<Rightarrow> Inr d2))))"

section \<open>The table implements the stitching interface\<close>

text \<open>
  Invariant of \<^verbatim>\<open>mail_transactions\<close>: ids are unique and below the sequence, no queue has two open
  rows (the partial unique index of the schema), and an open row has a status that is not
  terminal.
\<close>

definition tx_ok :: "lib \<Rightarrow> tx_table \<Rightarrow> bool" where
  "tx_ok L tbl \<longleftrightarrow> distinct (map tr_id (fst tbl)) \<and> (\<forall>r \<in> set (fst tbl). tr_id r < snd tbl)
    \<and> (\<forall>q. length (filter (is_active q) (fst tbl)) \<le> 1)
    \<and> (\<forall>r \<in> set (fst tbl). \<not> tr_terminal r \<longrightarrow> \<not> isTerminalStatus L (tr_status r))"

text \<open>A row without its id and modification time.\<close>

definition core :: "tx_row \<Rightarrow> tx_row" where
  "core r = r\<lparr>tr_id := 0, tr_updated_at := 0\<rparr>"

definition db_active :: "tx_table \<Rightarrow> string \<Rightarrow> tx_row option" where
  "db_active tbl q = (case filter (is_active q) (fst tbl) of [] \<Rightarrow> None | r # rs \<Rightarrow> Some (core r))"

lemma update_where_split:
  assumes "distinct (map tr_id (xs @ r # ys))"
  shows "update_where (\<lambda>p. tr_id p = tr_id r) f (xs @ r # ys) = xs @ f r # ys"
proof -
  have "map (\<lambda>p. if tr_id p = tr_id r then f p else p) zs = zs" if "tr_id r \<notin> tr_id ` set zs" for zs
    using that by (induction zs) auto
  then show ?thesis using assms by (auto simp: update_where_def)
qed

lemma one_active:
  assumes "length (filter P xs) \<le> 1" and "r \<in> set xs" and "P r"
  shows "\<exists>as bs. xs = as @ r # bs \<and> filter P as = [] \<and> filter P bs = []"
proof -
  from assms(2) obtain as bs where "xs = as @ r # bs" by (meson split_list)
  then show ?thesis using assms(1,3) by auto
qed

lemma select_active_cases:
  assumes "tx_ok L tbl"
  obtains (absent) "filter (is_active q) (fst tbl) = []" and "select_active q (fst tbl) = None"
    | (present) as r bs where "fst tbl = as @ r # bs" and "is_active q r" and "filter (is_active q) as = []"
        and "filter (is_active q) bs = []" and "select_active q (fst tbl) = Some (tr_id r)"
proof (cases "filter (is_active q) (fst tbl)")
  case Nil
  then show ?thesis using absent by (simp add: select_active_def)
next
  case (Cons r rs)
  have one: "length (filter (is_active q) (fst tbl)) \<le> 1" using assms by (simp add: tx_ok_def)
  then have rs: "rs = []" using Cons by simp
  have "r \<in> set (fst tbl)" "is_active q r" using Cons by (auto dest: filter_eq_ConsD)
  from one_active[OF one this] this(2) present Cons rs show ?thesis
    by (auto simp: select_active_def)
qed

lemma merge_row_simps [simp]:
  "tr_id (merge_row L now e r) = tr_id r" "tr_queue_id (merge_row L now e r) = tr_queue_id r"
  "tr_terminal (merge_row L now e r) = (tr_terminal r \<or> isTerminalStatus L (le_Status e))"
  "tr_status (merge_row L now e r) = override (le_Status e) (tr_status r)"
  by (simp_all add: merge_row_def)

lemma insert_row_simps [simp]:
  "tr_id (insert_row L now e i) = i" "tr_queue_id (insert_row L now e i) = le_QueueID e"
  "tr_terminal (insert_row L now e i) = isTerminalStatus L (le_Status e)"
  "tr_status (insert_row L now e i) = le_Status e"
  by (simp_all add: insert_row_def)

lemma merge_table_absent:
  "select_active (le_QueueID e) (fst tbl) = None \<Longrightarrow>
   merge_table L now e tbl = (fst tbl @ [insert_row L now e (snd tbl)], snd tbl + 1)"
  by (simp add: merge_table_def)

lemma merge_table_present:
  assumes "tx_ok L tbl" and "fst tbl = as @ r # bs" and "select_active (le_QueueID e) (fst tbl) = Some (tr_id r)"
  shows "merge_table L now e tbl = (as @ merge_row L now e r # bs, snd tbl)"
  using assms update_where_split[of as r bs "merge_row L now e"] by (simp add: merge_table_def tx_ok_def)

lemma isTerminalStatus_override:
  "\<not> isTerminalStatus L s \<Longrightarrow> isTerminalStatus L (override new s) = isTerminalStatus L new"
  by (auto simp: override_def isTerminalStatus_def ToLower_def)

lemma merge_table_ok [inv_intros]:
  assumes "tx_ok L tbl"
  shows "tx_ok L (merge_table L now e tbl)"
  using assms
proof (cases rule: select_active_cases[where q = "le_QueueID e"])
  case absent
  have "length (filter (is_active q) (fst tbl @ [insert_row L now e (snd tbl)])) \<le> 1" for q
  proof (cases "q = le_QueueID e")
    case True
    then show ?thesis using absent(1) by simp
  next
    case False
    then show ?thesis using assms by (simp add: tx_ok_def is_active_def)
  qed
  then show ?thesis using assms
    by (auto simp: merge_table_absent[OF absent(2)] tx_ok_def dest: bspec)
next
  case (present as r bs)
  have nt: "\<not> tr_terminal r \<and> \<not> isTerminalStatus L (tr_status r)"
    using present(1,2) assms by (auto simp: tx_ok_def is_active_def)
  have "length (filter (is_active q) (as @ merge_row L now e r # bs)) \<le> 1" for q
  proof (cases "q = le_QueueID e")
    case True
    then show ?thesis using present(3,4) by simp
  next
    case False
    then show ?thesis using assms present(1,2) by (auto simp: tx_ok_def is_active_def dest: spec[of _ q])
  qed
  then show ?thesis using assms present(1) nt
    unfolding merge_table_present[OF assms present(1,5)]
    by (auto simp: tx_ok_def isTerminalStatus_override)
qed

lemma core_merge_row: "core (merge_row L now e r) = core (merge_row L 0 e (core r))"
  by (simp add: core_def merge_row_def)

lemma core_insert_row: "core (insert_row L now e i) = core (insert_row L 0 e 0)"
  by (simp add: core_def insert_row_def)

lemma core_simps [simp]:
  "tr_terminal (core r) = tr_terminal r" "tr_queue_id (core r) = tr_queue_id r" "tr_status (core r) = tr_status r"
  by (simp_all add: core_def)

interpretation sql: stitching "tx_ok L" db_active "\<lambda>(now, e). merge_table L now e"
  "\<lambda>e. core (insert_row L 0 e 0)" "\<lambda>e t. core (merge_row L 0 e t)" tr_terminal
  for L
proof unfold_locales
  fix s and e :: LogEntry and now
  assume "tx_ok L s"
  then show "tx_ok L ((\<lambda>(now, e). merge_table L now e) (now, e) s)"
    by (simp add: merge_table_ok)
next
  fix s and e :: LogEntry and now
  assume ok: "tx_ok L s"
  let ?step = "queue_step (\<lambda>e. core (insert_row L 0 e 0)) (\<lambda>e t. core (merge_row L 0 e t)) tr_terminal e"
  have "db_active (merge_table L now e s) q =
      ((db_active s)(le_QueueID e := ?step (db_active s (le_QueueID e)))) q" for q
    using ok
  proof (cases rule: select_active_cases[where q = "le_QueueID e"])
    case absent
    then show ?thesis
      by (auto simp: merge_table_absent db_active_def queue_step_def is_active_def Let_def
          core_insert_row[of L now] split: list.splits)
  next
    case (present as r bs)
    have r: "tr_queue_id r = le_QueueID e" "\<not> tr_terminal r"
      using present(2) by (auto simp: is_active_def)
    have "db_active s (le_QueueID e) = Some (core r)"
      using present by (simp add: db_active_def)
    then have step: "?step (db_active s (le_QueueID e)) =
        (if isTerminalStatus L (le_Status e) then None else Some (core (merge_row L now e r)))"
      using r(2) by (simp add: queue_step_def core_merge_row[of L now e r] Let_def)
    show ?thesis
      unfolding merge_table_present[OF ok present(1,5)] step
      using present(1,3,4) r by (auto simp: db_active_def is_active_def)
  qed
  then show "db_active ((\<lambda>(now, e). merge_table L now e) (now, e) s) =
      (db_active s)(le_QueueID e := ?step (db_active s (le_QueueID e)))"
    by auto
qed

section \<open>The two stitchers agree\<close>

text \<open>
  A row represents an in-memory transaction: the same values column by column, numbers as the
  REAL and TIMESTAMPTZ columns keep them, the raw lines joined by newlines, and the score NULL where the Go
  struct has the zero value.
\<close>

definition tx_sim :: "lib \<Rightarrow> MailTransaction \<Rightarrow> tx_row \<Rightarrow> bool" where
  "tx_sim L t r \<longleftrightarrow>
    tr_arrival_ts_utc r = pg_time L (mt_ArrivalTimestamp t) \<and> tr_last_ts_utc r = pg_time L (mt_LastTimestamp t) \<and>
    tr_queue_id r = mt_QueueID t \<and> tr_host r = mt_Host t \<and> tr_process r = mt_Process t \<and>
    tr_mail_from r = mt_Sender t \<and> tr_mail_to r = mt_Recipient t \<and> tr_status r = mt_Status t \<and>
    tr_relay r = mt_Relay t \<and> tr_delay r = real_col L (mt_Delay t) \<and> tr_delays r = mt_Delays t \<and>
    tr_dsn r = mt_DSN t \<and> tr_message_id r = mt_MessageID t \<and> tr_size_bytes r = mt_SizeBytes t \<and>
    tr_queued_as r = mt_QueuedAs t \<and> tr_mail_id r = mt_MailID t \<and> tr_subject r = mt_Subject t \<and>
    tr_hits r = real_col L (mt_Hits t) \<and> tr_helo r = mt_Helo t \<and> tr_amavis_origin r = mt_AmavisOrigin t \<and>
    tr_is_junk r = mt_IsJunk t \<and>
    (case tr_spam_score r of None \<Rightarrow> mt_SpamScore t = 0 | Some v \<Rightarrow> pg_real L (mt_SpamScore t) = Some v) \<and>
    tr_raw r = Join (mt_Raw t) [CHR 0x0A] \<and> tr_raw r \<noteq> [] \<and> mt_Raw t \<noteq> [] \<and>
    tr_timed_out r = mt_TimedOut t \<and> tr_terminal r = isTerminalStatus L (mt_Status t)"

lemma Join_snoc: "xs \<noteq> [] \<Longrightarrow> Join (xs @ [x]) sep = Join xs sep @ sep @ x"
proof (induction xs rule: list_nonempty_induct)
  case (cons x xs)
  then show ?case by (cases xs) auto
qed simp

lemma real_col_override:
  "real_ok L new \<Longrightarrow> override_opt (real_col L new) (real_col L old) = real_col L (override_opt new old)"
  by (auto simp: override_opt_def real_col_def real_ok_def split: option.splits)

lemma override_Nil [simp]: "override new [] = new"
  by (simp add: override_def)

lemma override_opt_None [simp]: "override_opt new None = new"
  by (simp add: override_opt_def split: option.splits)

lemma tx_sim_insert:
  assumes "le_Raw e \<noteq> []" and "storable L e"
  shows "tx_sim L (merge_entry e (new_transaction e)) (core (insert_row L 0 e 0))"
  using assms
  by (auto simp: tx_sim_def core_def insert_row_def merge_entry_def new_transaction_def storable_def
      real_ok_def real_col_def split: option.splits)

lemma tx_sim_merge:
  assumes "tx_sim L t r" and "storable L e" and "\<not> tr_terminal r"
  shows "tx_sim L (merge_entry e t) (core (merge_row L 0 e r))"
proof -
  let ?t = "merge_entry e t" and ?r = "core (merge_row L 0 e r)"
  have ok: "real_ok L (le_Delay e)" "real_ok L (le_Hits e)" "real_ok L (le_SpamScore e)"
    using assms(2) by (simp_all add: storable_def)
  have raw: "tr_raw ?r = Join (mt_Raw ?t) [CHR 0x0A] \<and> tr_raw ?r \<noteq> []"
    using assms(1) by (auto simp: tx_sim_def core_def merge_row_def merge_entry_def Join_snoc)
  have raw2: "Join (mt_Raw t @ [le_Raw e]) [CHR 0x0A] \<noteq> []"
    using assms(1) by (auto simp: tx_sim_def Join_snoc)
  have score: "case tr_spam_score ?r of None \<Rightarrow> mt_SpamScore ?t = 0 | Some v \<Rightarrow> pg_real L (mt_SpamScore ?t) = Some v"
    using assms(1) ok(3)
    by (auto simp: tx_sim_def core_def merge_row_def merge_entry_def override_opt_def real_ok_def real_col_def
        split: option.splits)
  have closed: "tr_terminal ?r = isTerminalStatus L (mt_Status ?t)"
    using assms(1,3) by (auto simp: tx_sim_def isTerminalStatus_override)
  show ?thesis
    using assms(1) raw raw2 score closed ok
    unfolding tx_sim_def by (simp add: core_def merge_row_def merge_entry_def real_col_override)
qed

lemma queue_step_sim:
  assumes "rel_option (tx_sim L) ot orr" and "\<forall>r. orr = Some r \<longrightarrow> \<not> tr_terminal r"
    and "le_Raw e \<noteq> []" and "storable L e"
  shows "rel_option (tx_sim L)
      (queue_step (\<lambda>e. merge_entry e (new_transaction e)) merge_entry (\<lambda>t. isTerminalStatus L (mt_Status t)) e ot)
      (queue_step (\<lambda>e. core (insert_row L 0 e 0)) (\<lambda>e t. core (merge_row L 0 e t)) tr_terminal e orr)"
proof -
  have "tx_sim L (case ot of None \<Rightarrow> merge_entry e (new_transaction e) | Some t \<Rightarrow> merge_entry e t)
      (case orr of None \<Rightarrow> core (insert_row L 0 e 0) | Some r \<Rightarrow> core (merge_row L 0 e r))"
    using assms by (cases ot; cases orr) (auto simp: tx_sim_insert tx_sim_merge)
  then show ?thesis by (auto simp: queue_step_def Let_def tx_sim_def)
qed

lemma queue_fold_sim:
  assumes "rel_option (tx_sim L) ot orr" and "\<forall>r. orr = Some r \<longrightarrow> \<not> tr_terminal r"
    and "\<forall>e \<in> set es. le_Raw e \<noteq> [] \<and> storable L e"
  shows "rel_option (tx_sim L)
      (fold (queue_step (\<lambda>e. merge_entry e (new_transaction e)) merge_entry (\<lambda>t. isTerminalStatus L (mt_Status t))) es ot)
      (fold (queue_step (\<lambda>e. core (insert_row L 0 e 0)) (\<lambda>e t. core (merge_row L 0 e t)) tr_terminal) es orr)"
  using assms
proof (induction es arbitrary: ot orr)
  case (Cons e es)
  have "\<forall>r. queue_step (\<lambda>e. core (insert_row L 0 e 0)) (\<lambda>e t. core (merge_row L 0 e t)) tr_terminal e orr = Some r
      \<longrightarrow> \<not> tr_terminal r"
    by (auto simp: queue_step_def Let_def)
  then show ?case
    using Cons.IH[OF queue_step_sim[OF Cons.prems(1,2)]] Cons.prems(3) by simp
qed simp

lemma tx_ok_empty: "tx_ok L ([], i)"
  by (simp add: tx_ok_def)

text \<open>
  C5. The database stitches like the in-memory stitcher. Feed the same entries (each with a queue
  id, a non-empty raw line and storable values) to \<^verbatim>\<open>TransactionStitcher.Apply\<close> and to the
  statements of \<^verbatim>\<open>mergeMailTransaction\<close>: for every queue id, the table has an open row exactly
  when the stitcher has an open transaction, and the row holds the values of that transaction.
\<close>

theorem db_refines_stitcher:
  assumes "\<forall>x \<in> set xs. le_QueueID (snd x) \<noteq> [] \<and> le_Raw (snd x) \<noteq> [] \<and> storable L (snd x)"
  shows "rel_option (tx_sim L)
      (stitcher_active (fold (\<lambda>(now, e) s. snd (Apply L now (Some e) s)) xs (NewTransactionStitcher d)) q)
      (db_active (fold (\<lambda>(now, e). merge_table L now e) xs ([], 1)) q)"
proof -
  have q: "\<forall>x \<in> set xs. le_QueueID (snd x) \<noteq> []" using assms by auto
  have init: "stitcher_active (NewTransactionStitcher d) q = None" "db_active ([], 1) q = None"
    by (simp_all add: stitcher_active_def NewTransactionStitcher_def db_active_def)
  show ?thesis
    unfolding mem.active_fold[OF stitcher_ok_new q] sql.active_fold[OF tx_ok_empty q] init
    using assms by (intro queue_fold_sim) auto
qed

theorem db_refines_stitcher_witness:
  "let e1 = LogEntry_zero\<lparr>le_QueueID := ''A'', le_MailFrom := ''s'', le_Raw := ''l1''\<rparr>;
       e2 = LogEntry_zero\<lparr>le_QueueID := ''A'', le_Status := ''deferred'', le_Raw := ''l2''\<rparr>;
       xs = [(1, e1), (2, e2)]
   in rel_option (tx_sim example_lib)
        (stitcher_active (fold (\<lambda>(now, e) s. snd (Apply example_lib now (Some e) s)) xs (NewTransactionStitcher Hour)) ''A'')
        (db_active (fold (\<lambda>(now, e). merge_table example_lib now e) xs ([], 1)) ''A'')"
proof -
  let ?e1 = "LogEntry_zero\<lparr>le_QueueID := ''A'', le_MailFrom := ''s'', le_Raw := ''l1''\<rparr>"
  let ?e2 = "LogEntry_zero\<lparr>le_QueueID := ''A'', le_Status := ''deferred'', le_Raw := ''l2''\<rparr>"
  have "\<forall>x \<in> set [(1 :: instant, ?e1), (2, ?e2)]. le_QueueID (snd x) \<noteq> [] \<and> le_Raw (snd x) \<noteq> [] \<and> storable example_lib (snd x)"
    by (simp add: storable_def LogEntry_zero_def int4_ok_def real_ok_def entry_texts_def example_lib_def)
  from db_refines_stitcher[OF this, of Hour "''A''"] show ?thesis by (simp add: Let_def)
qed

section \<open>The interface of a checkpointed pipeline\<close>

text \<open>
  Both log pipelines persist a record and its checkpoint together. From a persist operation that
  leaves the checkpoint at the record it persisted follows what a whole run leaves.
\<close>

locale checkpointed =
  fixes inv :: "'d \<Rightarrow> bool"
    and persist :: "'r \<Rightarrow> 'd \<Rightarrow> 'd result"
    and ckpt :: "'d \<Rightarrow> ingestState"
    and pos :: "'r \<Rightarrow> ingestState"
  assumes persist_inv: "inv d \<Longrightarrow> persist r d = Inr d' \<Longrightarrow> inv d'"
    and persist_ckpt: "inv d \<Longrightarrow> persist r d = Inr d' \<Longrightarrow> ckpt d' = pos r"
begin

lemma fold_inv: "inv d \<Longrightarrow> fold_result persist rs d = Inr d' \<Longrightarrow> inv d'"
  by (rule fold_result_invariant[where P = inv]) (auto intro: persist_inv)

lemma fold_ckpt:
  assumes "inv d" and "fold_result persist rs d = Inr d'"
  shows "ckpt d' = (if rs = [] then ckpt d else pos (last rs))"
proof (cases rs rule: rev_cases)
  case Nil
  then show ?thesis using assms by simp
next
  case (snoc qs r)
  then obtain d1 where d1: "fold_result persist qs d = Inr d1" "persist r d1 = Inr d'"
    using assms(2) by (auto simp: fold_result_append split: sum.splits)
  from persist_ckpt[OF fold_inv[OF assms(1) d1(1)] d1(2)] snoc show ?thesis by simp
qed

end

section \<open>Invariant and effect of persisting a line\<close>

definition db_ok :: "lib \<Rightarrow> db \<Rightarrow> bool" where
  "db_ok L d \<longleftrightarrow> tx_ok L (mail_transactions d, mail_transactions_seq d)
    \<and> pk_ok le_RawHash (maillog_entries d) \<and> pk_ok ir_key (ingest_state_tbl d)"

definition checkpoint :: "string \<Rightarrow> db \<Rightarrow> ingestState" where
  "checkpoint key d = (case select_by ir_key key (ingest_state_tbl d) of
     None \<Rightarrow> \<lparr>OffsetBytes = 0, Inode = 0\<rparr>
   | Some r \<Rightarrow> \<lparr>OffsetBytes = ir_offset_bytes r, Inode = ir_inode r\<rparr>)"

lemma getIngestState_checkpoint: "flt LoadCheckpoint = None \<Longrightarrow> getIngestState flt key d = Inr (checkpoint key d)"
  by (simp add: getIngestState_def checkpoint_def split: option.splits)

lemma setIngestStateTx_effect:
  assumes "setIngestStateTx flt now key off ino d = Inr d'"
  shows "checkpoint k d' = (if k = key then \<lparr>OffsetBytes = off, Inode = ino\<rparr> else checkpoint k d)"
    and "pk_ok ir_key (ingest_state_tbl d) \<Longrightarrow> pk_ok ir_key (ingest_state_tbl d')"
    and "d'\<lparr>ingest_state_tbl := []\<rparr> = d\<lparr>ingest_state_tbl := []\<rparr>"
  using assms
  by (auto simp: setIngestStateTx_def checkpoint_def select_by_upsert pk_ok_upsert split: option.splits)

lemma insertRawEntry_effect:
  assumes "insertRawEntry L flt e d = Inr (b, d')"
  shows "storable L e" and "le_RawHash e \<in> le_RawHash ` set (maillog_entries d')"
    and "b \<longleftrightarrow> le_RawHash e \<notin> le_RawHash ` set (maillog_entries d)"
    and "map le_RawHash (maillog_entries d') = map le_RawHash (maillog_entries d) @ (if b then [le_RawHash e] else [])"
    and "d'\<lparr>maillog_entries := [], maillog_entries_seq := 0\<rparr> = d\<lparr>maillog_entries := [], maillog_entries_seq := 0\<rparr>"
  using assms
  by (auto simp: insertRawEntry_def Let_def LogEntry.extend_def maillog_row.fields_def image_iff eq_commute
      split: option.splits if_splits)

lemma mergeMailTransaction_effect:
  assumes "mergeMailTransaction L flt now e d = Inr d'"
  shows "(mail_transactions d', mail_transactions_seq d') =
      merge_table L now e (mail_transactions d, mail_transactions_seq d)"
    and "d'\<lparr>mail_transactions := [], mail_transactions_seq := 0\<rparr> = d\<lparr>mail_transactions := [], mail_transactions_seq := 0\<rparr>"
  using assms
  by (auto simp: mergeMailTransaction_def Let_def split: option.splits if_splits prod.splits)

text \<open>The transaction table after a line, and the raw hash a line adds.\<close>

definition tx_after :: "lib \<Rightarrow> instant \<Rightarrow> LogEntry option \<Rightarrow> db \<Rightarrow> tx_table" where
  "tx_after L now entry d =
    (case entry of None \<Rightarrow> (mail_transactions d, mail_transactions_seq d)
     | Some e \<Rightarrow> if le_QueueID e = [] then (mail_transactions d, mail_transactions_seq d)
                else merge_table L now e (mail_transactions d, mail_transactions_seq d))"

definition new_hashes :: "LogEntry option \<Rightarrow> db \<Rightarrow> string list" where
  "new_hashes entry d = (case entry of None \<Rightarrow> [] | Some e \<Rightarrow>
     if le_RawHash e \<in> le_RawHash ` set (maillog_entries d) then [] else [le_RawHash e])"

lemma persist_entry_effect:
  assumes "persist_entry L flt now entry d = Inr d'"
  shows "ingest_state_tbl d' = ingest_state_tbl d"
    and "(mail_transactions d', mail_transactions_seq d') = tx_after L now entry d"
    and "map le_RawHash (maillog_entries d') = map le_RawHash (maillog_entries d) @ new_hashes entry d"
    and "entry = Some e \<Longrightarrow> storable L e"
proof -
  have "ingest_state_tbl d' = ingest_state_tbl d \<and>
      (mail_transactions d', mail_transactions_seq d') = tx_after L now entry d \<and>
      map le_RawHash (maillog_entries d') = map le_RawHash (maillog_entries d) @ new_hashes entry d \<and>
      (\<forall>e. entry = Some e \<longrightarrow> storable L e)"
  proof (cases entry)
    case None
    then show ?thesis using assms by (simp add: persist_entry_def tx_after_def new_hashes_def)
  next
    case (Some e)
    with assms obtain b d0 where i: "insertRawEntry L flt e d = Inr (b, d0)"
      and m: "if le_QueueID e = [] then d' = d0 else mergeMailTransaction L flt now e d0 = Inr d'"
      by (auto simp: persist_entry_def split: sum.splits if_splits)
    note ie = insertRawEntry_effect[OF i]
    have f0: "mail_transactions d0 = mail_transactions d" "mail_transactions_seq d0 = mail_transactions_seq d"
        "ingest_state_tbl d0 = ingest_state_tbl d"
      using arg_cong[OF ie(5), of mail_transactions] arg_cong[OF ie(5), of mail_transactions_seq]
        arg_cong[OF ie(5), of ingest_state_tbl] by simp_all
    show ?thesis
    proof (cases "le_QueueID e = []")
      case True
      then show ?thesis using m f0 ie(1,3,4) Some by (simp add: tx_after_def new_hashes_def)
    next
      case False
      then have mm: "mergeMailTransaction L flt now e d0 = Inr d'" using m by simp
      note me = mergeMailTransaction_effect[OF mm]
      have "ingest_state_tbl d' = ingest_state_tbl d0" "maillog_entries d' = maillog_entries d0"
        using arg_cong[OF me(2), of ingest_state_tbl] arg_cong[OF me(2), of maillog_entries] by simp_all
      then show ?thesis using False me(1) f0 ie(1,3,4) Some by (simp add: tx_after_def new_hashes_def)
    qed
  qed
  then show "ingest_state_tbl d' = ingest_state_tbl d"
    and "(mail_transactions d', mail_transactions_seq d') = tx_after L now entry d"
    and "map le_RawHash (maillog_entries d') = map le_RawHash (maillog_entries d) @ new_hashes entry d"
    and "entry = Some e \<Longrightarrow> storable L e" by auto
qed

lemma persistMailLogRecord_effect:
  assumes "persistMailLogRecord L flt now key rc entry d = Inr d'"
  shows "checkpoint k d' = (if k = key then \<lparr>OffsetBytes = lr_Offset rc, Inode = lr_Inode rc\<rparr> else checkpoint k d)"
    and "(mail_transactions d', mail_transactions_seq d') = tx_after L now entry d"
    and "map le_RawHash (maillog_entries d') = map le_RawHash (maillog_entries d) @ new_hashes entry d"
    and "pk_ok ir_key (ingest_state_tbl d) \<Longrightarrow> pk_ok ir_key (ingest_state_tbl d')"
    and "entry = Some e \<Longrightarrow> storable L e"
proof -
  obtain d1 where mid: "persist_entry L flt now entry d = Inr d1"
    and st: "setIngestStateTx flt now key (lr_Offset rc) (lr_Inode rc) d1 = Inr d'"
    using assms by (auto simp: persistMailLogRecord_def split: option.splits sum.splits)
  note c = setIngestStateTx_effect[OF st] and f = persist_entry_effect[OF mid]
  have "mail_transactions d' = mail_transactions d1" "mail_transactions_seq d' = mail_transactions_seq d1"
      "maillog_entries d' = maillog_entries d1"
    using arg_cong[OF c(3), of mail_transactions] arg_cong[OF c(3), of mail_transactions_seq]
      arg_cong[OF c(3), of maillog_entries] by simp_all
  then show "(mail_transactions d', mail_transactions_seq d') = tx_after L now entry d"
    and "map le_RawHash (maillog_entries d') = map le_RawHash (maillog_entries d) @ new_hashes entry d"
    using f by simp_all
  show "checkpoint k d' = (if k = key then \<lparr>OffsetBytes = lr_Offset rc, Inode = lr_Inode rc\<rparr> else checkpoint k d)"
    using c(1) f(1) by (simp add: checkpoint_def)
  show "pk_ok ir_key (ingest_state_tbl d) \<Longrightarrow> pk_ok ir_key (ingest_state_tbl d')"
    using c(2) f(1) by simp
  show "entry = Some e \<Longrightarrow> storable L e" by (rule f(4))
qed

lemma persistMailLogRecord_ok [inv_intros]:
  assumes "db_ok L d" and "persistMailLogRecord L flt now key rc entry d = Inr d'"
  shows "db_ok L d'"
proof -
  note eff = persistMailLogRecord_effect[OF assms(2)]
  have "tx_ok L (mail_transactions d', mail_transactions_seq d')"
    unfolding eff(2) using assms(1) by (auto simp: db_ok_def tx_after_def intro: merge_table_ok split: option.splits)
  moreover have "distinct (map le_RawHash (maillog_entries d'))"
    unfolding eff(3) using assms(1)
    by (auto simp: db_ok_def pk_ok_def new_hashes_def image_iff eq_commute split: option.splits)
  ultimately show ?thesis using eff(4) assms(1) by (simp add: db_ok_def pk_ok_def)
qed

interpretation mail: checkpointed "db_ok L"
  "\<lambda>(flt, now, rc, entry). persistMailLogRecord L flt now key rc entry" "checkpoint key"
  "\<lambda>(flt, now, rc, entry). \<lparr>OffsetBytes = lr_Offset rc, Inode = lr_Inode rc\<rparr>"
  for L key
  by unfold_locales
    (auto intro: persistMailLogRecord_ok simp: persistMailLogRecord_effect(1))

text \<open>
  C6. A persisted line is persisted completely. When \<^verbatim>\<open>persistMailLogRecord\<close> succeeds, the
  checkpoint of its log is at the end of that line (offset and inode of the record) and the
  checkpoints of other logs are untouched; the raw entry's hash is stored, exactly once however
  often the line was seen; the transaction table is what merging the entry gives; and the table
  invariants (unique hashes, unique ids, at most one open transaction per queue) still hold.
\<close>

theorem persist_complete:
  assumes "db_ok L d" and "persistMailLogRecord L flt now key rc (Some e) d = Inr d'"
  shows "getIngestState no_faults key d' = Inr \<lparr>OffsetBytes = lr_Offset rc, Inode = lr_Inode rc\<rparr>
    \<and> (k \<noteq> key \<longrightarrow> getIngestState no_faults k d' = getIngestState no_faults k d)
    \<and> count (mset (map le_RawHash (maillog_entries d'))) (le_RawHash e) = 1
    \<and> (mail_transactions d', mail_transactions_seq d') =
        (if le_QueueID e = [] then (mail_transactions d, mail_transactions_seq d)
         else merge_table L now e (mail_transactions d, mail_transactions_seq d))
    \<and> db_ok L d'"
proof -
  note eff = persistMailLogRecord_effect[OF assms(2)] and ok = persistMailLogRecord_ok[OF assms]
  have "le_RawHash e \<in> set (map le_RawHash (maillog_entries d'))"
    unfolding eff(3) by (auto simp: new_hashes_def)
  then have "count (mset (map le_RawHash (maillog_entries d'))) (le_RawHash e) = 1"
    using ok by (simp add: db_ok_def pk_ok_def distinct_count_atmost_1)
  then show ?thesis using ok eff(1,2)
    by (simp add: getIngestState_checkpoint no_faults_def tx_after_def)
qed

theorem persist_complete_witness:
  "let e = LogEntry_zero\<lparr>le_QueueID := ''A'', le_Raw := ''l'', le_RawHash := ''h''\<rparr>;
       rc = \<lparr>lr_Sequence = 0, lr_Text = ''l'', lr_Inode = 7, lr_Offset = 2\<rparr>
   in \<exists>d'. persistMailLogRecord example_lib no_faults 5 ''k'' rc (Some e) empty_db = Inr d' \<and>
        getIngestState no_faults ''k'' d' = Inr \<lparr>OffsetBytes = 2, Inode = 7\<rparr>"
proof -
  let ?e = "LogEntry_zero\<lparr>le_QueueID := ''A'', le_Raw := ''l'', le_RawHash := ''h''\<rparr>"
  let ?rc = "\<lparr>lr_Sequence = 0, lr_Text = ''l'', lr_Inode = 7, lr_Offset = 2\<rparr>"
  have ok: "db_ok example_lib empty_db"
    by (simp add: db_ok_def empty_db_def tx_ok_def pk_ok_def)
  have "\<exists>d'. persistMailLogRecord example_lib no_faults 5 ''k'' ?rc (Some ?e) empty_db = Inr d'"
    by (simp add: persistMailLogRecord_def persist_entry_def insertRawEntry_def mergeMailTransaction_def
        setIngestStateTx_def no_faults_def storable_def LogEntry_zero_def int4_ok_def real_ok_def
        entry_texts_def example_lib_def empty_db_def Let_def split: prod.splits)
  then obtain d' where "persistMailLogRecord example_lib no_faults 5 ''k'' ?rc (Some ?e) empty_db = Inr d'" ..
  with persist_complete[OF ok this] show ?thesis by (simp add: Let_def)
qed

text \<open>
  C7. A line whose \<^verbatim>\<open>size\<close> does not fit the INTEGER column can never be persisted: whatever the
  state of the database, \<^verbatim>\<open>persistMailLogRecord\<close> returns an error. The parser accepts 64-bit sizes
  while \<^verbatim>\<open>maillog_entries.size_bytes\<close> and \<^verbatim>\<open>mail_transactions.size_bytes\<close> are 32-bit columns, so
  such a line stops the ingest at its checkpoint.
\<close>

theorem oversized_line_never_persisted:
  assumes "le_SizeBytes e = Some n" and "2 ^ 31 \<le> n"
  shows "\<exists>x. persistMailLogRecord L flt now key rc (Some e) d = Inl x"
proof (cases "persistMailLogRecord L flt now key rc (Some e) d")
  case (Inr d')
  from persistMailLogRecord_effect(5)[OF this, of e] assms show ?thesis
    by (simp add: storable_def int4_ok_def)
qed simp

theorem oversized_line_never_persisted_witness:
  "\<exists>x. persistMailLogRecord example_lib no_faults 5 ''k'' \<lparr>lr_Sequence = 0, lr_Text = [], lr_Inode = 7, lr_Offset = 2\<rparr>
     (Some (LogEntry_zero\<lparr>le_SizeBytes := Some 3000000000\<rparr>)) empty_db = Inl x"
  by (rule oversized_line_never_persisted[where n = 3000000000]) simp_all

end
