(* ===== verification/Follower.thy ===== *)
theory Follower
  imports Store
begin

text \<open>
  The log follower (\<^verbatim>\<open>src/stream.go\<close>, \<^verbatim>\<open>followMailLog\<close>): it reads a growing file line by line from
  a byte checkpoint, and notices truncation and rotation of the file. One iteration of its
  endless loop is a function of the follower's state and of what the operating system shows it
  during that iteration (a \<open>view\<close>); a run is a list of views.
\<close>

section \<open>Configuration and files\<close>

record StreamConfig =
  sc_Path :: string
  sc_PollInterval :: duration
  sc_RotationDrainTimeout :: duration
  sc_QueueIdleTimeout :: duration
  sc_ProcessingWorkers :: int

definition validateStreamConfig :: "StreamConfig \<Rightarrow> err option" where
  "validateStreamConfig cfg =
    (if sc_Path cfg = [] then Some ''maillog path is required''
     else if sc_PollInterval cfg \<le> 0 \<or> sc_RotationDrainTimeout cfg \<le> 0 \<or> sc_QueueIdleTimeout cfg \<le> 0
     then Some ''poll interval, rotation drain timeout, and queue idle timeout must be positive''
     else if sc_ProcessingWorkers cfg \<le> 0 then Some ''processing workers must be positive''
     else None)"

text \<open>What opening the path gives: errors of \<^verbatim>\<open>os.Open\<close>, \<^verbatim>\<open>Stat\<close> and \<^verbatim>\<open>Seek\<close>, inode and size.\<close>

record open_env =
  oe_open :: "err option"
  oe_stat :: "(int \<times> int) result"
  oe_seek :: "int \<Rightarrow> err option"

definition openMailLog :: "string \<Rightarrow> ingestState \<Rightarrow> open_env \<Rightarrow> (int \<times> int) result" where
  "openMailLog path ck env =
    (case oe_open env of Some x \<Rightarrow> Inl (''open maillog '' @ path @ '': '' @ x)
     | None \<Rightarrow>
      (case oe_stat env of Inl x \<Rightarrow> Inl (''stat maillog '' @ path @ '': '' @ x)
       | Inr (inode, sz) \<Rightarrow>
          let offset = (if Inode ck = inode \<and> OffsetBytes ck \<ge> 0 \<and> OffsetBytes ck \<le> sz
                        then OffsetBytes ck else 0)
          in (case oe_seek env offset of Some x \<Rightarrow> Inl (''seek maillog '' @ path @ '': '' @ x)
              | None \<Rightarrow> Inr (inode, offset))))"

definition reopenMailLog :: "string \<Rightarrow> open_env \<Rightarrow> err option \<Rightarrow> (int \<times> int) result" where
  "reopenMailLog path env closeErr =
    (case openMailLog path \<lparr>OffsetBytes = 0, Inode = 0\<rparr> env of Inl x \<Rightarrow> Inl x
     | Inr r \<Rightarrow> (case closeErr of Some x \<Rightarrow> Inl (''close rotated maillog: '' @ x) | None \<Rightarrow> Inr r))"

section \<open>One iteration of the loop\<close>

datatype path_stat = PathError err | PathMissing | PathInode int

text \<open>
  The surroundings of one iteration: the bytes of the open file, a read error other than EOF,
  whether the context is done at the two selects, the size of the open file, what the path
  points to, the clock, and what reopening would give.
\<close>

record view =
  v_content :: string
  v_readErr :: "err option"
  v_send_done :: bool
  v_fstat :: "int result"
  v_path :: path_stat
  v_now :: instant
  v_reopen :: open_env
  v_close :: "err option"
  v_wait_done :: bool

record follower =
  fo_inode :: int
  fo_offset :: int
  fo_pending :: string
  fo_rotatedAt :: "instant option"
  fo_sequence :: int

abbreviation newline :: char where "newline \<equiv> CHR 0x0A"

text \<open>\<^verbatim>\<open>bufio.Reader.ReadString\<close> up to a newline: the chunk, and whether it ended before EOF.\<close>

definition ReadString :: "string \<Rightarrow> string \<times> bool" where
  "ReadString s = (if newline \<in> set s then (takeWhile (\<lambda>c. c \<noteq> newline) s @ [newline], True) else (s, False))"

text \<open>The branch after a successful reopen: continue at the new file.\<close>

definition switch_file :: "StreamConfig \<Rightarrow> view \<Rightarrow> follower \<Rightarrow> follower result" where
  "switch_file cfg v st =
    (case reopenMailLog (sc_Path cfg) (v_reopen v) (v_close v) of Inl x \<Rightarrow> Inl x
     | Inr (inode, offset) \<Rightarrow>
        Inr (st\<lparr>fo_inode := inode, fo_offset := offset, fo_pending := [], fo_rotatedAt := None\<rparr>))"

definition poll_wait :: "view \<Rightarrow> follower \<Rightarrow> follower result" where
  "poll_wait v st = (if v_wait_done v then Inl ''context canceled'' else Inr st)"

text \<open>What happens at EOF: compare the open file with the path, switch files or wait.\<close>

definition at_eof :: "StreamConfig \<Rightarrow> view \<Rightarrow> follower \<Rightarrow> follower result" where
  "at_eof cfg v st =
    (case v_fstat v of Inl x \<Rightarrow> Inl (''stat open maillog: '' @ x)
     | Inr sz \<Rightarrow>
      (case v_path v of
         PathError x \<Rightarrow> Inl (''stat maillog path: '' @ x)
       | PathMissing \<Rightarrow> poll_wait v (st\<lparr>fo_rotatedAt := None\<rparr>)
       | PathInode i \<Rightarrow>
          if i = fo_inode st \<and> sz < fo_offset st then switch_file cfg v st
          else if i \<noteq> fo_inode st then
            let rotatedAt = (case fo_rotatedAt st of None \<Rightarrow> v_now v | Some t \<Rightarrow> t)
            in if time_Sub (v_now v) rotatedAt \<ge> sc_RotationDrainTimeout cfg then switch_file cfg v st
               else poll_wait v (st\<lparr>fo_rotatedAt := Some rotatedAt\<rparr>)
          else poll_wait v (st\<lparr>fo_rotatedAt := None\<rparr>)))"

definition follow_iter :: "StreamConfig \<Rightarrow> view \<Rightarrow> follower \<Rightarrow> lineRecord list \<times> follower result" where
  "follow_iter cfg v st =
    (let (chunk, found) = ReadString (drop (nat (fo_offset st)) (v_content v));
         st1 = st\<lparr>fo_offset := fo_offset st + int (length chunk), fo_pending := fo_pending st @ chunk\<rparr>;
         ends = HasSuffix chunk [newline];
         rc = \<lparr>lr_Sequence = fo_sequence st1, lr_Text = TrimSuffix (fo_pending st1) [newline],
               lr_Inode = fo_inode st1, lr_Offset = fo_offset st1\<rparr>;
         st2 = (if ends then st1\<lparr>fo_sequence := fo_sequence st1 + 1, fo_pending := []\<rparr> else st1);
         out = (if ends then [rc] else [])
     in if ends \<and> v_send_done v then ([], Inl ''context canceled'')
        else if found then (out, Inr st2)
        else case v_readErr v of
               Some x \<Rightarrow> (out, Inl (''read '' @ sc_Path cfg @ '': '' @ x))
             | None \<Rightarrow> (out, at_eof cfg v st2))"

section \<open>Runs\<close>

fun follow_run :: "StreamConfig \<Rightarrow> view list \<Rightarrow> follower \<Rightarrow> lineRecord list \<times> follower result" where
  "follow_run cfg [] st = ([], Inr st)"
| "follow_run cfg (v # vs) st =
    (case follow_iter cfg v st of
       (out, Inl x) \<Rightarrow> (out, Inl x)
     | (out, Inr st') \<Rightarrow> (let (outs, r) = follow_run cfg vs st' in (out @ outs, r)))"

definition followMailLog :: "StreamConfig \<Rightarrow> ingestState \<Rightarrow> open_env \<Rightarrow> view list
    \<Rightarrow> lineRecord list \<times> follower result" where
  "followMailLog cfg ck env vs =
    (case validateStreamConfig cfg of Some x \<Rightarrow> ([], Inl x)
     | None \<Rightarrow>
      (case openMailLog (sc_Path cfg) ck env of Inl x \<Rightarrow> ([], Inl x)
       | Inr (inode, offset) \<Rightarrow>
          follow_run cfg vs \<lparr>fo_inode = inode, fo_offset = offset, fo_pending = [], fo_rotatedAt = None, fo_sequence = 0\<rparr>))"

section \<open>Specification: the lines of a file\<close>

text \<open>The complete lines of a text (an unterminated rest is no line), and their records.\<close>

fun split_lines :: "string \<Rightarrow> string \<Rightarrow> string list" where
  "split_lines acc [] = []"
| "split_lines acc (c # s) = (if c = newline then acc # split_lines [] s else split_lines (acc @ [c]) s)"

definition lines_of :: "string \<Rightarrow> string list" where
  "lines_of s = split_lines [] s"

fun records_from :: "int \<Rightarrow> int \<Rightarrow> int \<Rightarrow> string list \<Rightarrow> lineRecord list" where
  "records_from k inode off [] = []"
| "records_from k inode off (l # ls) =
    \<lparr>lr_Sequence = k, lr_Text = l, lr_Inode = inode, lr_Offset = off + int (length l) + 1\<rparr>
      # records_from (k + 1) inode (off + int (length l) + 1) ls"

definition unlines :: "string list \<Rightarrow> string" where
  "unlines ls = concat (map (\<lambda>l. l @ [newline]) ls)"

lemma split_lines_plain: "newline \<notin> set l \<Longrightarrow> split_lines acc (l @ s) = split_lines (acc @ l) s"
  by (induction l arbitrary: acc) auto

lemma lines_of_Nil_iff: "newline \<notin> set s \<Longrightarrow> lines_of s = []"
  using split_lines_plain[of s "[]" "[]"] by (simp add: lines_of_def)

lemma lines_of_line: "newline \<notin> set l \<Longrightarrow> lines_of (l @ newline # s) = l # lines_of s"
  by (simp add: lines_of_def split_lines_plain)

lemma lines_of_unlines: "\<forall>l \<in> set ls. newline \<notin> set l \<Longrightarrow> lines_of (unlines ls @ s) = ls @ lines_of s"
  by (induction ls) (auto simp: unlines_def lines_of_line)

lemma unlines_simps [simp]:
  "unlines [] = []" "unlines (l # ls) = l @ newline # unlines ls" "unlines (ls @ ls') = unlines ls @ unlines ls'"
  by (simp_all add: unlines_def)

lemma records_from_append:
  "records_from k i off (ls @ ls') =
    records_from k i off ls @ records_from (k + int (length ls)) i (off + int (length (unlines ls))) ls'"
  by (induction ls arbitrary: k off) (auto simp: algebra_simps)

lemma length_records_from [simp]: "length (records_from k i off ls) = length ls"
  by (induction ls arbitrary: k off) auto

lemma records_from_text: "map lr_Text (records_from k i off ls) = ls"
  by (induction ls arbitrary: k off) auto

lemma records_from_nth:
  "n < length ls \<Longrightarrow> lr_Offset (records_from k i off ls ! n) = off + int (length (unlines (take (Suc n) ls)))"
  by (induction ls arbitrary: k off n) (auto simp: nth_Cons split: nat.splits)

section \<open>Following a growing file\<close>

text \<open>
  A steady view: no errors, no cancellation, the path still names the open file. Over a list of
  views the file only grows.
\<close>

definition steady :: "int \<Rightarrow> view \<Rightarrow> bool" where
  "steady ino v \<longleftrightarrow> v_readErr v = None \<and> \<not> v_send_done v \<and> \<not> v_wait_done v
    \<and> v_fstat v = Inr (int (length (v_content v))) \<and> v_path v = PathInode ino"

fun growing :: "int \<Rightarrow> string \<Rightarrow> view list \<Rightarrow> bool" where
  "growing ino c [] = True"
| "growing ino c (v # vs) = (steady ino v \<and> prefix c (v_content v) \<and> growing ino (v_content v) vs)"

fun final_content :: "string \<Rightarrow> view list \<Rightarrow> string" where
  "final_content c [] = c"
| "final_content c (v # vs) = final_content (v_content v) vs"

text \<open>
  The loop invariant: what has been read from the start offset on is the emitted lines and then
  the pending partial line, and offset and sequence number agree with that.
\<close>

definition follow_inv :: "int \<Rightarrow> nat \<Rightarrow> string \<Rightarrow> string list \<Rightarrow> follower \<Rightarrow> bool" where
  "follow_inv ino start c ls st \<longleftrightarrow> start \<le> length c \<and> fo_inode st = ino \<and>
    prefix (unlines ls @ fo_pending st) (drop start c) \<and>
    (\<forall>l \<in> set ls. newline \<notin> set l) \<and> newline \<notin> set (fo_pending st) \<and>
    fo_offset st = int (start + length (unlines ls) + length (fo_pending st)) \<and>
    fo_sequence st = int (length ls)"

lemma follow_inv_grow:
  assumes "follow_inv ino start c ls st" and "prefix c c'"
  shows "follow_inv ino start c' ls st"
proof -
  obtain x where x: "c' = c @ x" using assms(2) by (auto simp: prefix_def)
  have "drop start c' = drop start c @ x" using assms(1) x by (simp add: follow_inv_def)
  then show ?thesis using assms(1) x by (auto simp: follow_inv_def)
qed

lemma follow_inv_split:
  assumes "follow_inv ino start c ls st"
  shows "drop start c = unlines ls @ fo_pending st @ drop (nat (fo_offset st)) c"
proof -
  have off: "nat (fo_offset st) = start + length (unlines ls) + length (fo_pending st)"
    using assms by (simp only: follow_inv_def nat_int)
  obtain x where x: "drop start c = unlines ls @ fo_pending st @ x"
    using assms by (auto simp: follow_inv_def prefix_def)
  have "drop (nat (fo_offset st)) c = drop (length (unlines ls) + length (fo_pending st)) (drop start c)"
    by (simp add: off add_ac)
  then show ?thesis unfolding x by simp
qed

lemma follow_inv_lines:
  assumes "follow_inv ino start c ls st"
  shows "lines_of (drop start c) = ls @ lines_of (fo_pending st @ drop (nat (fo_offset st)) c)"
  unfolding follow_inv_split[OF assms] using assms by (simp add: follow_inv_def lines_of_unlines)

lemma follow_inv_size:
  assumes "follow_inv ino start c ls st"
  shows "fo_offset st + int (length (drop (nat (fo_offset st)) c)) = int (length c)"
proof -
  have "length (drop start c) = length (unlines ls) + length (fo_pending st) + length (drop (nat (fo_offset st)) c)"
    using arg_cong[OF follow_inv_split[OF assms], of length] by simp
  moreover have "length (drop start c) + start = length c" using assms by (simp add: follow_inv_def)
  ultimately have "start + length (unlines ls) + length (fo_pending st) + length (drop (nat (fo_offset st)) c) = length c"
    by linarith
  then show ?thesis using assms unfolding follow_inv_def by linarith
qed

lemma takeWhile_line: "x \<notin> set l \<Longrightarrow> takeWhile (\<lambda>c. c \<noteq> x) (l @ x # y) = l"
  by (induction l) auto

lemma follow_iter_line:
  assumes "ReadString (drop (nat (fo_offset st)) (v_content v)) = (l @ [newline], True)" and "\<not> v_send_done v"
  shows "follow_iter cfg v st =
    ([\<lparr>lr_Sequence = fo_sequence st, lr_Text = fo_pending st @ l, lr_Inode = fo_inode st,
       lr_Offset = fo_offset st + int (length l) + 1\<rparr>],
     Inr (st\<lparr>fo_offset := fo_offset st + int (length l) + 1, fo_pending := [], fo_sequence := fo_sequence st + 1\<rparr>))"
proof -
  have "suffix [newline] (fo_pending st @ l @ [newline])" by (simp add: suffix_def)
  then have "TrimSuffix (fo_pending st @ l @ [newline]) [newline] = fo_pending st @ l"
    by (simp add: TrimSuffix_def HasSuffix_def)
  then show ?thesis using assms by (simp add: follow_iter_def HasSuffix_def)
qed

lemma follow_step_line:
  assumes inv: "follow_inv ino start (v_content v) ls st" and st: "steady ino v"
    and nl: "newline \<in> set (drop (nat (fo_offset st)) (v_content v))"
  shows "\<exists>l st'. follow_iter cfg v st =
      (records_from (int (length ls)) ino (int (start + length (unlines ls))) [l], Inr st')
    \<and> follow_inv ino start (v_content v) (ls @ [l]) st'
    \<and> length ls < length (lines_of (drop start (v_content v)))"
proof -
  let ?x = "drop (nat (fo_offset st)) (v_content v)"
  from nl obtain l y where y: "?x = l @ newline # y" "newline \<notin> set l" by (meson split_list_first)
  have rs: "ReadString ?x = (l @ [newline], True)"
    using y by (simp add: ReadString_def takeWhile_line)
  have all: "drop start (v_content v) = unlines ls @ fo_pending st @ l @ newline # y"
    using follow_inv_split[OF inv] y(1) by simp
  let ?st = "st\<lparr>fo_offset := fo_offset st + int (length l) + 1, fo_pending := [], fo_sequence := fo_sequence st + 1\<rparr>"
  have "follow_inv ino start (v_content v) (ls @ [fo_pending st @ l]) ?st"
    using inv y(2) all by (auto simp: follow_inv_def)
  moreover have "follow_iter cfg v st =
      (records_from (int (length ls)) ino (int (start + length (unlines ls))) [fo_pending st @ l], Inr ?st)"
    using follow_iter_line[OF rs] st inv by (simp add: steady_def follow_inv_def)
  moreover have "length ls < length (lines_of (drop start (v_content v)))"
    unfolding follow_inv_lines[OF inv] using y inv lines_of_line[of "fo_pending st @ l" y]
    by (simp add: follow_inv_def)
  ultimately show ?thesis by blast
qed

lemma follow_step_eof:
  assumes inv: "follow_inv ino start (v_content v) ls st" and st: "steady ino v"
    and nl: "newline \<notin> set (drop (nat (fo_offset st)) (v_content v))"
  shows "\<exists>st'. follow_iter cfg v st = ([], Inr st') \<and> follow_inv ino start (v_content v) ls st'
    \<and> \<not> length ls < length (lines_of (drop start (v_content v)))"
proof -
  let ?x = "drop (nat (fo_offset st)) (v_content v)"
  let ?st1 = "st\<lparr>fo_offset := fo_offset st + int (length ?x), fo_pending := fo_pending st @ ?x\<rparr>"
  have "at_eof cfg v ?st1 = Inr (?st1\<lparr>fo_rotatedAt := None\<rparr>)"
    using st inv follow_inv_size[OF inv] by (auto simp: at_eof_def steady_def poll_wait_def follow_inv_def)
  moreover have "\<not> suffix [newline] ?x" using nl by (auto simp: suffix_def)
  ultimately have "follow_iter cfg v st = ([], Inr (?st1\<lparr>fo_rotatedAt := None\<rparr>))"
    using nl st by (simp add: follow_iter_def HasSuffix_def steady_def ReadString_def)
  moreover have "follow_inv ino start (v_content v) ls (?st1\<lparr>fo_rotatedAt := None\<rparr>)"
    using inv nl follow_inv_split[OF inv] by (auto simp: follow_inv_def)
  moreover have "\<not> length ls < length (lines_of (drop start (v_content v)))"
    unfolding follow_inv_lines[OF inv] using nl inv by (simp add: follow_inv_def lines_of_Nil_iff)
  ultimately show ?thesis by blast
qed

lemma follow_step:
  assumes "follow_inv ino start (v_content v) ls st" and "steady ino v"
  obtains new st' where
    "follow_iter cfg v st = (records_from (int (length ls)) ino (int (start + length (unlines ls))) new, Inr st')"
    and "follow_inv ino start (v_content v) (ls @ new) st'"
    and "length new = (if length ls < length (lines_of (drop start (v_content v))) then 1 else 0)"
proof (cases "newline \<in> set (drop (nat (fo_offset st)) (v_content v))")
  case True
  from follow_step_line[OF assms True, of cfg] that show thesis by fastforce
next
  case False
  from follow_step_eof[OF assms False, of cfg] that[of "[]"] show thesis by fastforce
qed

text \<open>
  A whole run: the records emitted are those of the first lines, and each iteration emits one as
  long as complete lines are left.
\<close>

lemma follow_run_growing:
  assumes "follow_inv ino start c ls st" and "growing ino c vs"
  shows "\<exists>new st'. follow_run cfg vs st =
      (records_from (int (length ls)) ino (int (start + length (unlines ls))) new, Inr st')
    \<and> follow_inv ino start (final_content c vs) (ls @ new) st'
    \<and> (\<forall>n. (\<forall>v \<in> set vs. length ls + n \<le> length (lines_of (drop start (v_content v)))) \<longrightarrow> n \<le> length vs \<longrightarrow> n \<le> length new)"
  using assms
proof (induction vs arbitrary: c ls st)
  case Nil
  then show ?case by (intro exI[of _ "[]"] exI[of _ st]) simp
next
  case (Cons v vs)
  have inv: "follow_inv ino start (v_content v) ls st"
    using Cons.prems by (auto intro: follow_inv_grow)
  have sv: "steady ino v" using Cons.prems(2) by simp
  obtain new st1 where it:
      "follow_iter cfg v st = (records_from (int (length ls)) ino (int (start + length (unlines ls))) new, Inr st1)"
    and inv1: "follow_inv ino start (v_content v) (ls @ new) st1"
    and len: "length new = (if length ls < length (lines_of (drop start (v_content v))) then 1 else 0)"
    using follow_step[OF inv sv] by metis
  obtain more st2 where run:
      "follow_run cfg vs st1 = (records_from (int (length (ls @ new))) ino (int (start + length (unlines (ls @ new)))) more, Inr st2)"
    and inv2: "follow_inv ino start (final_content (v_content v) vs) ((ls @ new) @ more) st2"
    and live: "\<And>n. (\<forall>v \<in> set vs. length (ls @ new) + n \<le> length (lines_of (drop start (v_content v)))) \<Longrightarrow> n \<le> length vs \<Longrightarrow> n \<le> length more"
    using Cons.IH[OF inv1] Cons.prems(2) by auto
  have "follow_run cfg (v # vs) st =
      (records_from (int (length ls)) ino (int (start + length (unlines ls))) (new @ more), Inr st2)"
    using it run by (simp add: records_from_append algebra_simps)
  moreover have "n \<le> length (new @ more)"
    if "\<forall>w \<in> set (v # vs). length ls + n \<le> length (lines_of (drop start (v_content w)))" "n \<le> length (v # vs)" for n
    using that len live[of "n - 1"] by (cases n) auto
  ultimately show ?case using inv2 by (intro exI[of _ "new @ more"] exI[of _ st2]) simp
qed

lemma split_lines_append: "prefix (split_lines acc x) (split_lines acc (x @ y))"
  by (induction acc x rule: split_lines.induct) auto

lemma lines_of_mono:
  assumes "prefix c c'" and "start \<le> length c"
  shows "prefix (lines_of (drop start c)) (lines_of (drop start c'))"
  using assms split_lines_append by (auto simp: lines_of_def prefix_def)

lemma split_lines_decomp:
  "newline \<notin> set acc \<Longrightarrow> \<exists>rest. acc @ s = unlines (split_lines acc s) @ rest \<and> newline \<notin> set rest
     \<and> (\<forall>l \<in> set (split_lines acc s). newline \<notin> set l)"
proof (induction acc s rule: split_lines.induct)
  case (1 acc)
  then show ?case by simp
next
  case (2 acc c s)
  then show ?case by (cases "c = newline") auto
qed

lemma lines_of_decomp:
  obtains rest where "s = unlines (lines_of s) @ rest" and "newline \<notin> set rest"
    and "\<forall>l \<in> set (lines_of s). newline \<notin> set l"
  using split_lines_decomp[of "[]" s] by (auto simp: lines_of_def)

lemma growing_lines:
  assumes "growing ino c vs" and "start \<le> length c" and "v \<in> set vs"
  shows "length (lines_of (drop start c)) \<le> length (lines_of (drop start (v_content v)))"
  using assms
proof (induction vs arbitrary: c)
  case (Cons w vs)
  have p: "prefix c (v_content w)" and g: "growing ino (v_content w) vs" using Cons.prems(1) by auto
  have le: "length (lines_of (drop start c)) \<le> length (lines_of (drop start (v_content w)))"
    using lines_of_mono[OF p Cons.prems(2)] by (rule prefix_length_le)
  have "start \<le> length (v_content w)" using p Cons.prems(2) prefix_length_le by fastforce
  then show ?case using Cons.IH[OF g] le Cons.prems(3) by fastforce
qed simp

section \<open>Properties\<close>

text \<open>
  C8. The follower emits the lines of the file, each once and in order. While the file only grows
  and nothing fails, what \<^verbatim>\<open>followMailLog\<close> sends is exactly the records of the first complete
  lines after the start offset: consecutive sequence numbers from 0, the text without its
  newline, and the byte offset just behind the line. It never stops, never emits a partial line,
  and every iteration makes progress: after as many iterations as the file had complete lines
  at the start, all of those have been emitted.
\<close>

theorem follow_exact:
  assumes "validateStreamConfig cfg = None" and "openMailLog (sc_Path cfg) ck env = Inr (ino, int start)"
    and "start \<le> length c" and "growing ino c vs"
  shows "\<exists>n st. followMailLog cfg ck env vs =
      (records_from 0 ino (int start) (take n (lines_of (drop start (final_content c vs)))), Inr st)
    \<and> min (length vs) (length (lines_of (drop start c))) \<le> n
    \<and> n \<le> length (lines_of (drop start (final_content c vs)))"
proof -
  let ?st = "\<lparr>fo_inode = ino, fo_offset = int start, fo_pending = [], fo_rotatedAt = None, fo_sequence = 0\<rparr>"
  have "follow_inv ino start c [] ?st" using assms(3) by (simp add: follow_inv_def)
  from follow_run_growing[OF this assms(4), of cfg] obtain new st' where
    run: "follow_run cfg vs ?st = (records_from 0 ino (int start) new, Inr st')"
    and inv: "follow_inv ino start (final_content c vs) new st'"
    and live: "\<And>n. (\<forall>v \<in> set vs. n \<le> length (lines_of (drop start (v_content v)))) \<Longrightarrow> n \<le> length vs \<Longrightarrow> n \<le> length new"
    by auto
  have "take (length new) (lines_of (drop start (final_content c vs))) = new"
    using follow_inv_lines[OF inv] by simp
  moreover have "min (length vs) (length (lines_of (drop start c))) \<le> length new"
  proof (rule live)
    show "\<forall>v \<in> set vs. min (length vs) (length (lines_of (drop start c))) \<le> length (lines_of (drop start (v_content v)))"
      using growing_lines[OF assms(4,3)] by (meson min.coboundedI2)
  qed simp
  moreover have "length new \<le> length (lines_of (drop start (final_content c vs)))"
    using follow_inv_lines[OF inv] by simp
  ultimately show ?thesis using run assms(1,2)
    by (intro exI[of _ "length new"] exI[of _ st']) (simp add: followMailLog_def)
qed

definition example_cfg :: StreamConfig where
  "example_cfg = \<lparr>sc_Path = ''log'', sc_PollInterval = 1, sc_RotationDrainTimeout = 5, sc_QueueIdleTimeout = 9,
     sc_ProcessingWorkers = 1\<rparr>"

definition example_view :: "int \<Rightarrow> string \<Rightarrow> view" where
  "example_view ino c = \<lparr>v_content = c, v_readErr = None, v_send_done = False, v_fstat = Inr (int (length c)),
     v_path = PathInode ino, v_now = 0, v_reopen = \<lparr>oe_open = None, oe_stat = Inr (ino, 0), oe_seek = (\<lambda>_. None)\<rparr>,
     v_close = None, v_wait_done = False\<rparr>"

theorem follow_exact_witness:
  "let c = ''ab'' @ [newline] @ ''cd'' @ [newline] @ ''e'';
       env = \<lparr>oe_open = None, oe_stat = Inr (7, 7), oe_seek = (\<lambda>_. None)\<rparr>
   in \<exists>st. followMailLog example_cfg \<lparr>OffsetBytes = 3, Inode = 7\<rparr> env [example_view 7 c, example_view 7 c] =
     ([\<lparr>lr_Sequence = 0, lr_Text = ''cd'', lr_Inode = 7, lr_Offset = 6\<rparr>], Inr st)"
proof -
  let ?c = "''ab'' @ [newline] @ ''cd'' @ [newline] @ ''e''"
  let ?env = "\<lparr>oe_open = None, oe_stat = Inr (7, 7), oe_seek = (\<lambda>_. None)\<rparr>"
  let ?vs = "[example_view 7 ?c, example_view 7 ?c]"
  have "openMailLog (sc_Path example_cfg) \<lparr>OffsetBytes = 3, Inode = 7\<rparr> ?env = Inr (7, int 3)"
    by (simp add: openMailLog_def)
  moreover have "validateStreamConfig example_cfg = None"
    by (simp add: validateStreamConfig_def example_cfg_def)
  moreover have "growing 7 ?c ?vs" by (simp add: steady_def example_view_def)
  ultimately obtain n st where n: "followMailLog example_cfg \<lparr>OffsetBytes = 3, Inode = 7\<rparr> ?env ?vs =
      (records_from 0 7 (int 3) (take n (lines_of (drop 3 (final_content ?c ?vs)))), Inr st)"
      "min (length ?vs) (length (lines_of (drop 3 ?c))) \<le> n"
    using follow_exact[of example_cfg "\<lparr>OffsetBytes = 3, Inode = 7\<rparr>" ?env 7 3 ?c ?vs] by auto
  moreover have "lines_of (drop 3 ?c) = [''cd'']" by (simp add: lines_of_def)
  ultimately show ?thesis by (simp add: Let_def example_view_def)
qed

lemma resume_lines:
  assumes "k < length (lines_of (drop start c))"
  shows "lines_of (drop (start + length (unlines (take (Suc k) (lines_of (drop start c))))) c) =
    drop (Suc k) (lines_of (drop start c))"
proof -
  let ?ls = "lines_of (drop start c)"
  obtain rest where rest: "drop start c = unlines ?ls @ rest" "newline \<notin> set rest"
      "\<forall>l \<in> set ?ls. newline \<notin> set l"
    using lines_of_decomp by blast
  have "unlines ?ls = unlines (take (Suc k) ?ls) @ unlines (drop (Suc k) ?ls)"
    by (metis append_take_drop_id unlines_simps(3))
  then have "drop (length (unlines (take (Suc k) ?ls))) (drop start c) = unlines (drop (Suc k) ?ls) @ rest"
    using rest(1) by (metis append.assoc append_eq_conv_conj)
  then have eq: "drop (start + length (unlines (take (Suc k) ?ls))) c = unlines (drop (Suc k) ?ls) @ rest"
    by (simp only: drop_drop add.commute)
  have "\<forall>l \<in> set (drop (Suc k) ?ls). newline \<notin> set l"
    using rest(3) by (meson in_set_dropD)
  from lines_of_unlines[OF this, of rest] show ?thesis
    unfolding eq lines_of_Nil_iff[OF rest(2)] by (simp only: append_Nil2)
qed

lemma resume_offset_le:
  assumes "start \<le> length c"
  shows "start + length (unlines (take n (lines_of (drop start c)))) \<le> length c"
proof -
  let ?ls = "lines_of (drop start c)"
  obtain rest where eq: "drop start c = unlines ?ls @ rest" using lines_of_decomp by blast
  have "unlines ?ls @ rest = unlines (take n ?ls) @ unlines (drop n ?ls) @ rest"
    by (metis append.assoc append_take_drop_id unlines_simps(3))
  from arg_cong[OF trans[OF eq this], of length] have "length (unlines (take n ?ls)) \<le> length (drop start c)"
    by (simp only: length_append)
  then show ?thesis using assms by simp
qed





end
