(* ===== verification/Regexp.thy ===== *)
theory Regexp
  imports Prelude
begin

text \<open>
  Go's package \<^verbatim>\<open>regexp\<close> for the expressions of the program: leftmost-first matching, as a
  backtracking matcher that lists all ways to match in order of preference. It works on bytes.
  Every expression of the program starts and ends its parts at ASCII characters, and its classes
  either are ASCII or exclude only ASCII characters, so matching bytes and matching UTF-8 runes
  agree; under \<^verbatim>\<open>(?i)\<close> the letters s and k also match U+017F and U+212A, which are written out
  as byte sequences.
\<close>

section \<open>Expressions and states\<close>

datatype re = Empty | Cls "char \<Rightarrow> bool" | Seq re re | Alt re re | Star re | Grp nat re
  | Bol | Eol | Wb

text \<open>The byte before the position, the text after it, and the groups captured so far.\<close>

record mstate =
  ms_prev :: "char option"
  ms_rest :: string
  ms_caps :: "(nat \<times> string) list"

definition word_char :: "char \<Rightarrow> bool" where
  "word_char c = (let n = of_char c :: nat in
     48 \<le> n \<and> n \<le> 57 \<or> 65 \<le> n \<and> n \<le> 90 \<or> 97 \<le> n \<and> n \<le> 122 \<or> n = 95)"

definition word_at :: "char option \<Rightarrow> bool" where
  "word_at c = (case c of None \<Rightarrow> False | Some x \<Rightarrow> word_char x)"

definition head :: "string \<Rightarrow> char option" where
  "head s = (case s of [] \<Rightarrow> None | c # _ \<Rightarrow> Some c)"

section \<open>The matcher\<close>

fun star_iter :: "nat \<Rightarrow> (mstate \<Rightarrow> mstate list) \<Rightarrow> mstate \<Rightarrow> mstate list" where
  "star_iter 0 f s = [s]"
| "star_iter (Suc n) f s =
    concat (map (star_iter n f) (filter (\<lambda>t. length (ms_rest t) < length (ms_rest s)) (f s))) @ [s]"

fun matches :: "re \<Rightarrow> mstate \<Rightarrow> mstate list" where
  "matches Empty s = [s]"
| "matches (Cls p) s = (case ms_rest s of [] \<Rightarrow> []
     | c # t \<Rightarrow> if p c then [s\<lparr>ms_prev := Some c, ms_rest := t\<rparr>] else [])"
| "matches (Seq a b) s = concat (map (matches b) (matches a s))"
| "matches (Alt a b) s = matches a s @ matches b s"
| "matches (Star r) s = star_iter (length (ms_rest s)) (matches r) s"
| "matches (Grp n r) s = map (\<lambda>t. t\<lparr>ms_caps :=
     (n, take (length (ms_rest s) - length (ms_rest t)) (ms_rest s)) # ms_caps t\<rparr>) (matches r s)"
| "matches Bol s = (if ms_prev s = None then [s] else [])"
| "matches Eol s = (if ms_rest s = [] then [s] else [])"
| "matches Wb s = (if word_at (ms_prev s) \<noteq> word_at (head (ms_rest s)) then [s] else [])"

text \<open>A match at the leftmost position where there is one: the groups and the state behind it.\<close>

fun find_from :: "re \<Rightarrow> char option \<Rightarrow> string \<Rightarrow> mstate option" where
  "find_from r p [] = (case matches r \<lparr>ms_prev = p, ms_rest = [], ms_caps = []\<rparr> of [] \<Rightarrow> None | t # _ \<Rightarrow> Some t)"
| "find_from r p (c # s) =
    (case matches r \<lparr>ms_prev = p, ms_rest = c # s, ms_caps = []\<rparr> of
       t # _ \<Rightarrow> Some t | [] \<Rightarrow> find_from r (Some c) s)"

text \<open>A submatch that took no part in the match is the empty string, as in \<^verbatim>\<open>FindStringSubmatch\<close>.\<close>

definition submatch :: "mstate \<Rightarrow> nat \<Rightarrow> string" where
  "submatch t n = (case map_of (ms_caps t) n of None \<Rightarrow> [] | Some s \<Rightarrow> s)"

definition FindStringSubmatch :: "re \<Rightarrow> string \<Rightarrow> mstate option" where
  "FindStringSubmatch r s = find_from r None s"

definition MatchString :: "re \<Rightarrow> string \<Rightarrow> bool" where
  "MatchString r s \<longleftrightarrow> find_from r None s \<noteq> None"

text \<open>
  \<^verbatim>\<open>FindAllStringSubmatch(s, -1)\<close> for an expression that never matches the empty string: the
  search goes on behind each match.
\<close>

function find_all :: "re \<Rightarrow> char option \<Rightarrow> string \<Rightarrow> mstate list" where
  "find_all r p s = (case find_from r p s of None \<Rightarrow> []
     | Some t \<Rightarrow> if length (ms_rest t) < length s then t # find_all r (ms_prev t) (ms_rest t) else [t])"
  by pat_completeness auto
termination
  by (relation "measure (\<lambda>(r, p, s). length s)") auto

declare find_all.simps [simp del]

definition FindAllStringSubmatch :: "re \<Rightarrow> string \<Rightarrow> mstate list" where
  "FindAllStringSubmatch r s = find_all r None s"

section \<open>Notation of the expressions\<close>

definition Plus :: "re \<Rightarrow> re" where "Plus r = Seq r (Star r)"
definition Opt :: "re \<Rightarrow> re" where "Opt r = Alt r Empty"
definition seqs :: "re list \<Rightarrow> re" where "seqs rs = foldr Seq rs Empty"
definition alts :: "re list \<Rightarrow> re" where "alts rs = foldr Alt (butlast rs) (last rs)"
definition times :: "nat \<Rightarrow> re \<Rightarrow> re" where "times n r = seqs (replicate n r)"
definition lit :: "string \<Rightarrow> re" where "lit s = seqs (map (\<lambda>c. Cls (\<lambda>x. x = c)) s)"

definition space :: re where "space = Cls (\<lambda>c. c = CHR '' '' \<or> c = CHR 0x09 \<or> c = CHR 0x0A \<or> c = CHR 0x0C \<or> c = CHR 0x0D)"
definition non_space :: re where
  "non_space = Cls (\<lambda>c. \<not> (c = CHR '' '' \<or> c = CHR 0x09 \<or> c = CHR 0x0A \<or> c = CHR 0x0C \<or> c = CHR 0x0D))"
definition dot :: re where "dot = Cls (\<lambda>c. c \<noteq> CHR 0x0A)"
definition not_in :: "string \<Rightarrow> re" where "not_in cs = Cls (\<lambda>c. c \<notin> set cs)"
definition one_of :: "string \<Rightarrow> re" where "one_of cs = Cls (\<lambda>c. c \<in> set cs)"

definition in_rng :: "nat \<Rightarrow> nat \<Rightarrow> char \<Rightarrow> bool" where
  "in_rng lo hi c = (let n = of_char c in lo \<le> n \<and> n \<le> hi)"

abbreviation upper :: "char \<Rightarrow> bool" where "upper \<equiv> in_rng 65 90"
abbreviation lower :: "char \<Rightarrow> bool" where "lower \<equiv> in_rng 97 122"
abbreviation digit :: "char \<Rightarrow> bool" where "digit \<equiv> in_rng 48 57"

definition alnum :: "char \<Rightarrow> bool" where "alnum c \<longleftrightarrow> upper c \<or> lower c \<or> digit c"

text \<open>
  Under \<^verbatim>\<open>(?i)\<close>: a literal letter by letter, and a class that contains the letters s and k.
\<close>

definition long_s :: re where "long_s = lit [CHR 0xC5, CHR 0xBF]"
definition kelvin :: re where "kelvin = lit [CHR 0xE2, CHR 0x84, CHR 0xAA]"

definition ifold :: "char \<Rightarrow> re" where
  "ifold c = (let l = ascii_lower c; r = Cls (\<lambda>x. ascii_lower x = l)
     in if l = CHR ''s'' then Alt r long_s else if l = CHR ''k'' then Alt r kelvin else r)"

definition ilit :: "string \<Rightarrow> re" where "ilit s = seqs (map ifold s)"
definition icls :: "(char \<Rightarrow> bool) \<Rightarrow> re" where "icls p = Alt (Cls p) (Alt long_s kelvin)"


section \<open>What a match consumes and captures\<close>

fun chars :: "re \<Rightarrow> char \<Rightarrow> bool" where
  "chars (Cls p) c = p c"
| "chars (Seq a b) c = (chars a c \<or> chars b c)"
| "chars (Alt a b) c = (chars a c \<or> chars b c)"
| "chars (Star r) c = chars r c"
| "chars (Grp n r) c = chars r c"
| "chars _ c = False"

fun group_chars :: "re \<Rightarrow> nat \<Rightarrow> char \<Rightarrow> bool" where
  "group_chars (Seq a b) n c = (group_chars a n c \<or> group_chars b n c)"
| "group_chars (Alt a b) n c = (group_chars a n c \<or> group_chars b n c)"
| "group_chars (Star r) n c = group_chars r n c"
| "group_chars (Grp m r) n c = (m = n \<and> chars r c \<or> group_chars r n c)"
| "group_chars _ n c = False"

definition consumes :: "(char \<Rightarrow> bool) \<Rightarrow> mstate \<Rightarrow> mstate \<Rightarrow> bool" where
  "consumes p s t \<longleftrightarrow> (\<exists>w. ms_rest s = w @ ms_rest t \<and> list_all p w)"

lemma consumes_refl: "consumes p s s"
  by (simp add: consumes_def)

lemma consumes_trans: "consumes p s t \<Longrightarrow> consumes p t u \<Longrightarrow> consumes p s u"
  unfolding consumes_def by (metis append.assoc list_all_append)

lemma consumes_mono: "consumes p s t \<Longrightarrow> (\<And>c. p c \<Longrightarrow> q c) \<Longrightarrow> consumes q s t"
  unfolding consumes_def by (metis list.pred_mono_strong)

lemma star_iter_induct:
  assumes "t \<in> set (star_iter n f s)" and "\<And>s. P s s" and "\<And>s t u. t \<in> set (f s) \<Longrightarrow> P t u \<Longrightarrow> P s u"
  shows "P s t"
  using assms(1)
proof (induction n arbitrary: s)
  case (Suc n)
  then show ?case using assms(2,3) by auto
qed (simp add: assms(2))

lemma matches_consumes: "t \<in> set (matches r s) \<Longrightarrow> consumes (chars r) s t"
proof (induction r arbitrary: s t)
  case (Cls p)
  then obtain c u where "ms_rest s = c # u" "p c" "t = s\<lparr>ms_prev := Some c, ms_rest := u\<rparr>"
    by (cases "ms_rest s") (auto split: if_splits)
  then show ?case unfolding consumes_def by (intro exI[of _ "[c]"]) simp
next
  case (Seq a b)
  then obtain u where "u \<in> set (matches a s)" "t \<in> set (matches b u)" by auto
  then have "consumes (chars a) s u" "consumes (chars b) u t" using Seq.IH by blast+
  then show ?case by (auto intro: consumes_trans consumes_mono)
next
  case (Alt a b)
  then have "consumes (chars a) s t \<or> consumes (chars b) s t" by auto
  then show ?case by (auto intro: consumes_mono)
next
  case (Star r)
  have "consumes (chars r) s t"
    by (rule star_iter_induct[where P = "consumes (chars r)", of t "length (ms_rest s)" "matches r"])
      (use Star in \<open>auto intro: consumes_refl consumes_trans\<close>)
  then show ?case by (auto intro: consumes_mono)
next
  case (Grp n r)
  then show ?case by (auto simp: consumes_def)
qed (auto simp: consumes_refl split: if_splits)

lemma matches_captures:
  "t \<in> set (matches r s) \<Longrightarrow> (n, w) \<in> set (ms_caps t) \<Longrightarrow> (n, w) \<in> set (ms_caps s) \<or> list_all (group_chars r n) w"
proof (induction r arbitrary: s t)
  case (Cls p)
  then show ?case by (auto split: list.splits if_splits)
next
  case (Seq a b)
  then obtain u where u: "u \<in> set (matches a s)" "t \<in> set (matches b u)" by auto
  then show ?case using Seq.IH(1)[OF u(1)] Seq.IH(2)[OF u(2) Seq.prems(2)] by (auto simp: list_all_iff)
next
  case (Alt a b)
  from Alt.prems(1) consider "t \<in> set (matches a s)" | "t \<in> set (matches b s)" by auto
  then show ?case
  proof cases
    case 1
    from Alt.IH(1)[OF 1 Alt.prems(2)] show ?thesis by (auto simp: list_all_iff)
  next
    case 2
    from Alt.IH(2)[OF 2 Alt.prems(2)] show ?thesis by (auto simp: list_all_iff)
  qed
next
  case (Star r)
  have "(n, w) \<in> set (ms_caps t) \<longrightarrow> (n, w) \<in> set (ms_caps s) \<or> list_all (group_chars r n) w"
    by (rule star_iter_induct[where P = "\<lambda>s t. (n, w) \<in> set (ms_caps t) \<longrightarrow> (n, w) \<in> set (ms_caps s) \<or> list_all (group_chars r n) w",
        of t "length (ms_rest s)" "matches r"]) (use Star.IH Star.prems(1) in auto)
  then show ?case using Star.prems by auto
next
  case (Grp m r)
  then obtain u where u: "u \<in> set (matches r s)" and t: "t = u\<lparr>ms_caps :=
     (m, take (length (ms_rest s) - length (ms_rest u)) (ms_rest s)) # ms_caps u\<rparr>" by auto
  obtain v where "ms_rest s = v @ ms_rest u" "list_all (chars r) v"
    using matches_consumes[OF u] by (auto simp: consumes_def)
  then show ?case using Grp.IH[OF u] Grp.prems(2) t by (auto simp: list_all_iff)
qed (auto split: if_splits)

lemma find_from_matches:
  "find_from r p s = Some t \<Longrightarrow> \<exists>q u. suffix u s \<and> t \<in> set (matches r \<lparr>ms_prev = q, ms_rest = u, ms_caps = []\<rparr>)"
proof (induction s arbitrary: p)
  case Nil
  then show ?case by (auto split: list.splits) (metis list.set_intros(1))
next
  case (Cons c s)
  show ?case
  proof (cases "matches r \<lparr>ms_prev = p, ms_rest = c # s, ms_caps = []\<rparr>")
    case Nil
    then obtain q u where "suffix u s" "t \<in> set (matches r \<lparr>ms_prev = q, ms_rest = u, ms_caps = []\<rparr>)"
      using Cons.IH[of "Some c"] Cons.prems Nil by fastforce
    then show ?thesis by (metis suffix_ConsI)
  next
    case (Cons x xs)
    then have "t \<in> set (matches r \<lparr>ms_prev = p, ms_rest = c # s, ms_caps = []\<rparr>)" using Cons.prems by simp
    then show ?thesis by blast
  qed
qed

lemma submatch_in_caps: "submatch t n \<noteq> [] \<Longrightarrow> (n, submatch t n) \<in> set (ms_caps t)"
  by (auto simp: submatch_def split: option.splits dest: map_of_SomeD)

lemma find_from_submatch: "find_from r p s = Some t \<Longrightarrow> list_all (group_chars r n) (submatch t n)"
  using matches_captures submatch_in_caps[of t n] by (cases "submatch t n = []") (fastforce dest!: find_from_matches)+

lemma FindStringSubmatch_group: "FindStringSubmatch r s = Some t \<Longrightarrow> list_all (group_chars r n) (submatch t n)"
  unfolding FindStringSubmatch_def by (rule find_from_submatch)

lemma find_all_group: "t \<in> set (find_all r p s) \<Longrightarrow> list_all (group_chars r n) (submatch t n)"
proof (induction r p s rule: find_all.induct)
  case (1 r p s)
  obtain x where x: "find_from r p s = Some x" using 1(2)
    by (cases "find_from r p s") (auto simp: find_all.simps)
  then have "t = x \<or> (length (ms_rest x) < length s \<and> t \<in> set (find_all r (ms_prev x) (ms_rest x)))"
    using 1(2) by (subst (asm) find_all.simps) (auto split: if_splits)
  then show ?case using 1(1)[OF x] find_from_submatch[OF x] by blast
qed

lemma FindAll_group: "t \<in> set (FindAllStringSubmatch r s) \<Longrightarrow> list_all (group_chars r n) (submatch t n)"
  unfolding FindAllStringSubmatch_def by (rule find_all_group)

section \<open>The preferred match\<close>

definition first :: "re \<Rightarrow> mstate \<Rightarrow> mstate option" where
  "first r s = (case matches r s of [] \<Rightarrow> None | t # _ \<Rightarrow> Some t)"

lemma first_Some: "first r s = Some t \<longleftrightarrow> (\<exists>ts. matches r s = t # ts)"
  by (auto simp: first_def split: list.splits)

definition after :: "char option \<Rightarrow> string \<Rightarrow> char option" where
  "after p w = (if w = [] then p else Some (last w))"

lemma after_append [simp]: "after (after p w) v = after p (w @ v)"
  by (simp add: after_def)

lemma after_Nil [simp]: "after p [] = p"
  by (simp add: after_def)

text \<open>
  In front of \<open>u\<close>, the preferred match of the expression is the text \<open>w\<close>, with these captures.
  The rules compose the expressions of the program.
\<close>

definition eats :: "re \<Rightarrow> char option \<Rightarrow> string \<Rightarrow> string \<Rightarrow> (nat \<times> string) list \<Rightarrow> bool" where
  "eats r p w u cs \<longleftrightarrow> (\<forall>k. first r \<lparr>ms_prev = p, ms_rest = w @ u, ms_caps = k\<rparr> =
     Some \<lparr>ms_prev = after p w, ms_rest = u, ms_caps = cs @ k\<rparr>)"

lemma eats_Empty: "eats Empty p [] u []"
  by (simp add: eats_def first_def after_def)

lemma eats_Bol: "eats Bol None [] u []"
  by (simp add: eats_def first_def after_def)

lemma eats_Eol: "eats Eol p [] [] []"
  by (simp add: eats_def first_def after_def)

lemma eats_Cls: "q c \<Longrightarrow> eats (Cls q) p [c] u []"
  by (simp add: eats_def first_def after_def)

lemma eatsD: "eats r p w u cs \<Longrightarrow> \<exists>ts. matches r \<lparr>ms_prev = p, ms_rest = w @ u, ms_caps = k\<rparr> =
    \<lparr>ms_prev = after p w, ms_rest = u, ms_caps = cs @ k\<rparr> # ts"
  unfolding eats_def first_Some by blast

lemma eatsI: "(\<And>k. \<exists>ts. matches r \<lparr>ms_prev = p, ms_rest = w @ u, ms_caps = k\<rparr> =
    \<lparr>ms_prev = after p w, ms_rest = u, ms_caps = cs @ k\<rparr> # ts) \<Longrightarrow> eats r p w u cs"
  unfolding eats_def first_Some by blast

lemma eats_Seq:
  assumes "eats a p w (v @ u) cs" and "eats b (after p w) v u ds"
  shows "eats (Seq a b) p (w @ v) u (ds @ cs)"
proof (rule eatsI)
  fix k
  obtain ts where "matches a \<lparr>ms_prev = p, ms_rest = w @ v @ u, ms_caps = k\<rparr> =
      \<lparr>ms_prev = after p w, ms_rest = v @ u, ms_caps = cs @ k\<rparr> # ts" using eatsD[OF assms(1)] by blast
  moreover obtain us where "matches b \<lparr>ms_prev = after p w, ms_rest = v @ u, ms_caps = cs @ k\<rparr> =
      \<lparr>ms_prev = after p (w @ v), ms_rest = u, ms_caps = ds @ cs @ k\<rparr> # us"
    using eatsD[OF assms(2), of "cs @ k"] by auto
  ultimately show "\<exists>ts. matches (Seq a b) \<lparr>ms_prev = p, ms_rest = (w @ v) @ u, ms_caps = k\<rparr> =
      \<lparr>ms_prev = after p (w @ v), ms_rest = u, ms_caps = (ds @ cs) @ k\<rparr> # ts" by simp
qed

lemma eats_Grp:
  assumes "eats r p w u cs"
  shows "eats (Grp n r) p w u ((n, w) # cs)"
proof (rule eatsI)
  show "\<exists>ts. matches (Grp n r) \<lparr>ms_prev = p, ms_rest = w @ u, ms_caps = k\<rparr> =
      \<lparr>ms_prev = after p w, ms_rest = u, ms_caps = ((n, w) # cs) @ k\<rparr> # ts" for k
    using eatsD[OF assms, of k] by auto
qed

lemma eats_Alt1:
  assumes "eats a p w u cs"
  shows "eats (Alt a b) p w u cs"
proof (rule eatsI)
  show "\<exists>ts. matches (Alt a b) \<lparr>ms_prev = p, ms_rest = w @ u, ms_caps = k\<rparr> =
      \<lparr>ms_prev = after p w, ms_rest = u, ms_caps = cs @ k\<rparr> # ts" for k
    using eatsD[OF assms, of k] by auto
qed

lemma eats_Alt2:
  "(\<And>k. matches a \<lparr>ms_prev = p, ms_rest = w @ u, ms_caps = k\<rparr> = []) \<Longrightarrow> eats b p w u cs \<Longrightarrow> eats (Alt a b) p w u cs"
  by (simp add: eats_def first_def)

lemma star_iter_greedy:
  assumes "list_all q w" and "u = [] \<or> \<not> q (hd u)" and "length w \<le> n"
  shows "\<exists>ts. star_iter n (matches (Cls q)) \<lparr>ms_prev = p, ms_rest = w @ u, ms_caps = k\<rparr> =
    \<lparr>ms_prev = after p w, ms_rest = u, ms_caps = k\<rparr> # ts"
  using assms
proof (induction w arbitrary: p n)
  case Nil
  have "matches (Cls q) \<lparr>ms_prev = p, ms_rest = u, ms_caps = k\<rparr> = []" using Nil by (cases u) auto
  then show ?case by (cases n) (simp_all add: after_def del: matches.simps)
next
  case (Cons c w)
  then obtain m where n: "n = Suc m" by (cases n) auto
  have one: "matches (Cls q) \<lparr>ms_prev = p, ms_rest = c # w @ u, ms_caps = k\<rparr> = [\<lparr>ms_prev = Some c, ms_rest = w @ u, ms_caps = k\<rparr>]"
    using Cons.prems by simp
  obtain ts where "star_iter m (matches (Cls q)) \<lparr>ms_prev = Some c, ms_rest = w @ u, ms_caps = k\<rparr> =
      \<lparr>ms_prev = after (Some c) w, ms_rest = u, ms_caps = k\<rparr> # ts"
    using Cons.IH[OF _ Cons.prems(2), of m "Some c"] Cons.prems n by (auto simp del: matches.simps)
  moreover have "after (Some c) w = after p (c # w)" by (simp add: after_def)
  ultimately show ?case using n one by (simp del: matches.simps)
qed

lemma eats_Star: "list_all q w \<Longrightarrow> u = [] \<or> \<not> q (hd u) \<Longrightarrow> eats (Star (Cls q)) p w u []"
  using star_iter_greedy[of q w u "length (w @ u)" p] by (simp add: eats_def first_Some del: matches.simps(2))

lemma eats_Plus:
  assumes "list_all q w" and "w \<noteq> []" and "u = [] \<or> \<not> q (hd u)"
  shows "eats (Plus (Cls q)) p w u []"
proof -
  obtain c v where "w = c # v" using assms(2) by (cases w) auto
  then show ?thesis
    using eats_Seq[of "Cls q" p "[c]" v u "[]" "Star (Cls q)" "[]"] eats_Cls[of q c p] eats_Star[of q v u] assms
    by (simp add: Plus_def)
qed

lemma eats_seqs_Nil: "eats (seqs []) p [] u []"
  by (simp add: seqs_def eats_Empty)

lemma eats_seqs_Cons:
  "eats r p w (v @ u) cs \<Longrightarrow> eats (seqs rs) (after p w) v u ds \<Longrightarrow> eats (seqs (r # rs)) p (w @ v) u (ds @ cs)"
  by (simp add: seqs_def eats_Seq)

lemma eats_lit: "eats (lit w) p w u []"
proof (induction w arbitrary: p)
  case (Cons c w)
  then show ?case
    using eats_seqs_Cons[of "Cls (\<lambda>x. x = c)" p "[c]" w u "[]" _ "[]"] eats_Cls[of "\<lambda>x. x = c" c] by (simp add: lit_def)
qed (simp add: lit_def eats_seqs_Nil)

lemma eats_times: "list_all q w \<Longrightarrow> length w = n \<Longrightarrow> eats (times n (Cls q)) p w u []"
proof (induction w arbitrary: p n)
  case (Cons c w)
  then show ?case
    using eats_seqs_Cons[of "Cls q" p "[c]" w u "[]" _ "[]"] eats_Cls[of q c p "w @ u"] by (auto simp: times_def)
qed (simp add: times_def eats_seqs_Nil)

lemma find_from_eats:
  "eats r p w u cs \<Longrightarrow> find_from r p (w @ u) = Some \<lparr>ms_prev = after p w, ms_rest = u, ms_caps = cs\<rparr>"
  by (cases "w @ u") (auto simp: eats_def first_def split: list.splits)

text \<open>The parts of a sequence with the text and the captures of each.\<close>

fun eats_list :: "re list \<Rightarrow> char option \<Rightarrow> string list \<Rightarrow> string \<Rightarrow> (nat \<times> string) list list \<Rightarrow> bool" where
  "eats_list [] p [] u [] = True"
| "eats_list (r # rs) p (w # ws) u (c # cs) = (eats r p w (concat ws @ u) c \<and> eats_list rs (after p w) ws u cs)"
| "eats_list _ _ _ _ _ = False"

lemma eats_seqs: "eats_list rs p ws u css \<Longrightarrow> eats (seqs rs) p (concat ws) u (concat (rev css))"
proof (induction rs p ws u css rule: eats_list.induct)
  case (2 r rs p w ws u c cs)
  then show ?case using eats_seqs_Cons[of r p w "concat ws" u c rs "concat (rev cs)"] by simp
qed (simp_all add: eats_seqs_Nil)

definition spacing :: "char \<Rightarrow> bool" where
  "spacing c \<longleftrightarrow> c = CHR '' '' \<or> c = CHR 0x09 \<or> c = CHR 0x0A \<or> c = CHR 0x0C \<or> c = CHR 0x0D"

lemma space_Cls: "space = Cls spacing" "non_space = Cls (\<lambda>c. \<not> spacing c)"
  by (simp_all add: space_def non_space_def spacing_def fun_eq_iff)

lemma spacing_eval [simp]: "spacing (CHR '' '')" "\<not> spacing (CHR '':'')" "\<not> spacing (CHR ''['')" "\<not> spacing (CHR 0x22)"
  by (simp_all add: spacing_def)

lemma eats_blank: "u \<noteq> [] \<Longrightarrow> \<not> spacing (hd u) \<Longrightarrow> eats (Plus space) p '' '' u []"
  using eats_Plus[of spacing "'' ''" u] by (simp add: space_Cls)

lemma eats_word:
  "list_all (\<lambda>c. \<not> spacing c) w \<Longrightarrow> w \<noteq> [] \<Longrightarrow> eats (Plus non_space) p w (CHR '' '' # u) []"
  using eats_Plus[of "\<lambda>c. \<not> spacing c" w "CHR '' '' # u"] by (simp add: space_Cls)

end
