(* ===== verification/ParseLine.thy ===== *)
theory ParseLine
  imports Parser Regexp Timestamps
begin

text \<open>
  The mail log parser (\<^verbatim>\<open>src/parser.go\<close>): its regular expressions, \<^verbatim>\<open>ParseLine\<close> from the raw line to
  the entry, and what holds of every entry it produces.
\<close>

section \<open>The regular expressions\<close>

definition two_digits :: re where "two_digits = times 2 (Cls digit)"

definition reSyslog :: re where
  "reSyslog = seqs [Bol, Grp 1 (Seq (Cls upper) (times 2 (Cls lower))), Plus space,
     Grp 2 (times 2 (Cls (\<lambda>c. c = CHR '' '' \<or> digit c))), Plus space,
     Grp 3 (seqs [two_digits, lit '':'', two_digits, lit '':'', two_digits]), Plus space,
     Grp 4 (Plus non_space), Plus space, Grp 5 (Plus (not_in '':'')), lit '':'', Plus space, Grp 6 (Star dot), Eol]"

definition reRFC3339 :: re where
  "reRFC3339 = seqs [Bol,
     Grp 1 (seqs [times 4 (Cls digit), lit ''-'', two_digits, lit ''-'', two_digits, lit ''T'',
       Plus (Cls (\<lambda>c. digit c \<or> c = CHR '':'' \<or> c = CHR ''.'')),
       Alt (lit ''Z'') (Seq (one_of ''+-'') (Plus (Cls (\<lambda>c. digit c \<or> c = CHR '':''))))]),
     Plus space, Grp 2 (Plus non_space), Plus space, Grp 3 (Plus (not_in '':'')), lit '':'', Plus space, Grp 4 (Star dot), Eol]"

definition reQueue :: re where
  "reQueue = seqs [Bol, Grp 1 (Plus (Cls alnum)), lit '':'', Plus space, Grp 2 (Star dot), Eol]"

definition reKV :: re where
  "reKV = Alt
     (seqs [Grp 1 (Plus (Cls word_char)), lit ''=<'', Grp 2 (Star (not_in ''>'')), lit ''>''])
     (seqs [Grp 3 (Plus (Cls word_char)), lit ''='',
        Grp 4 (Plus (Cls (\<lambda>c. c \<noteq> CHR '','' \<and> c \<notin> {CHR '' '', CHR 0x09, CHR 0x0A, CHR 0x0C, CHR 0x0D})))])"

definition reAmavisFrom :: re where
  "reAmavisFrom = seqs [Wb, ilit ''From:'', Star space, lit ''<'', Grp 1 (Plus (not_in ''>'')), lit ''>'']"

definition reAmavisArrow :: re where
  "reAmavisArrow = seqs [lit ''>'', Star space, lit ''->'', Star space, lit ''<'', Grp 1 (Plus (not_in ''>'')), lit ''>'']"

definition reAmavisQueueID :: re where
  "reAmavisQueueID = seqs [Wb, ilit ''Queue-ID:'', Star space, Grp 1 (Plus (icls alnum))]"

definition reAmavisStatus :: re where
  "reAmavisStatus = seqs [Wb, Grp 1 (alts [ilit ''Passed'', ilit ''Blocked'', ilit ''Rejected'']), Plus space,
     Grp 2 (Plus (icls (\<lambda>c. upper c \<or> lower c)))]"

definition reAmavisQueuedAs :: re where
  "reAmavisQueuedAs = seqs [Wb, ilit ''queued_as:'', Star space, Grp 1 (Plus (icls alnum))]"

definition reAmavisMailID :: re where
  "reAmavisMailID = seqs [Wb, ilit ''mail_id:'', Star space, Grp 1 (Plus (icls word_char))]"

definition reAmavisSubject :: re where
  "reAmavisSubject = seqs [Wb, ilit ''Subject:'', Star space, lit [CHR 0x22], Grp 1 (Star (not_in [CHR 0x22])), lit [CHR 0x22]]"

definition reAmavisHits :: re where
  "reAmavisHits = seqs [Wb, ilit ''Hits:'', Star space, Grp 1 (Plus (Cls (\<lambda>c. c = CHR ''-'' \<or> digit c \<or> c = CHR ''.'')))]"

definition reAmavisHelo :: re where
  "reAmavisHelo = seqs [Wb, ilit ''helo='',
     Grp 1 (Plus (Cls (\<lambda>c. c \<noteq> CHR '','' \<and> c \<notin> {CHR '' '', CHR 0x09, CHR 0x0A, CHR 0x0C, CHR 0x0D})))]"

definition reAmavisOrigin :: re where
  "reAmavisOrigin = seqs [lit ''{'', Grp 1 (alts [ilit ''RelayedInbound'', ilit ''RelayedInternal'', ilit ''RelayedOutbound'']), lit ''}'']"

definition reDovecotQueueID :: re where
  "reDovecotQueueID = seqs [Wb, ilit ''Queue-ID:'', Star space, Grp 1 (Plus (icls alnum))]"

definition reDovecotLMTP :: re where
  "reDovecotLMTP = seqs [Wb, ilit ''dovecot'', Wb, Star dot, Wb, ilit ''lmtp'',
     Opt (seqs [lit ''('', Star (not_in '')''), lit '')''])]"

definition reDovecotJunk :: re where
  "reDovecotJunk = seqs [Wb, alts [ilit ''saved'', ilit ''stored'', ilit ''delivered''], Wb, Star dot, Wb,
     alts [ilit ''Junk'', ilit ''Spam''], Wb]"

section \<open>The header of a line\<close>

record header =
  hd_ts :: instant
  hd_host :: string
  hd_process :: string
  hd_msg :: string

text \<open>
  A line is tried as RFC 3339 first; when that expression matches, a timestamp it cannot parse
  rejects the line.
\<close>

definition parse_header :: "instant \<Rightarrow> location \<Rightarrow> string \<Rightarrow> header option" where
  "parse_header now loc line =
    (case FindStringSubmatch reRFC3339 line of
       Some m \<Rightarrow>
         (case parse_RFC3339 (submatch m 1) of None \<Rightarrow> None
          | Some ts \<Rightarrow> Some \<lparr>hd_ts = ts, hd_host = submatch m 2, hd_process = submatch m 3, hd_msg = submatch m 4\<rparr>)
     | None \<Rightarrow>
         (case FindStringSubmatch reSyslog line of None \<Rightarrow> None
          | Some m \<Rightarrow>
             (case Atoi (TrimSpace (submatch m 2)) of None \<Rightarrow> None
              | Some day \<Rightarrow>
                 (case parse_month (submatch m 1) of None \<Rightarrow> None
                  | Some month \<Rightarrow>
                     (case parse_clock (submatch m 3) of None \<Rightarrow> None
                      | Some clock \<Rightarrow> Some \<lparr>hd_ts = inferLegacyTimestamp now loc month day clock,
                          hd_host = submatch m 4, hd_process = submatch m 5, hd_msg = submatch m 6\<rparr>)))))"

section \<open>Key-value pairs\<close>

definition kv_pair :: "mstate \<Rightarrow> string \<times> string" where
  "kv_pair m = (if submatch m 1 \<noteq> [] then (submatch m 1, submatch m 2) else (submatch m 3, submatch m 4))"

definition apply_kv :: "lib \<Rightarrow> string \<times> string \<Rightarrow> LogEntry \<Rightarrow> LogEntry" where
  "apply_kv L kv e =
    (case kv of (key, v) \<Rightarrow>
      if key = ''from'' then e\<lparr>le_MailFrom := TrimSpace v\<rparr>
      else if key = ''to'' then e\<lparr>le_MailTo := TrimSpace v\<rparr>
      else if key = ''status'' then e\<lparr>le_Status := TrimSpace v\<rparr>
      else if key = ''relay'' then e\<lparr>le_Relay := TrimSpace v\<rparr>
      else if key = ''delay'' then (case strconv_ParseFloat L v of None \<Rightarrow> e | Some d \<Rightarrow> e\<lparr>le_Delay := Some d\<rparr>)
      else if key = ''delays'' then e\<lparr>le_Delays := TrimSpace v\<rparr>
      else if key = ''dsn'' then e\<lparr>le_DSN := TrimSpace v\<rparr>
      else if key = ''message-id'' then e\<lparr>le_MessageID := Trim (TrimSpace v) ''<>''\<rparr>
      else if key = ''size'' then (case Atoi v of None \<Rightarrow> e | Some s \<Rightarrow> e\<lparr>le_SizeBytes := Some s\<rparr>)
      else e)"

section \<open>Amavis and Dovecot fields\<close>

text \<open>The trimmed first submatch of an expression, when the field is still empty and it matches.\<close>

definition fill :: "string \<Rightarrow> re \<Rightarrow> string \<Rightarrow> string" where
  "fill old r payload =
    (if old = [] then (case FindStringSubmatch r payload of None \<Rightarrow> old | Some m \<Rightarrow> TrimSpace (submatch m 1)) else old)"

definition fill_status :: "lib \<Rightarrow> string \<Rightarrow> string \<Rightarrow> string" where
  "fill_status L old payload =
    (if old = [] then
       (case FindStringSubmatch reAmavisStatus payload of None \<Rightarrow> old
        | Some m \<Rightarrow> ToLower L (TrimSpace (submatch m 1 @ '' '' @ submatch m 2)))
     else old)"

definition fill_hits :: "lib \<Rightarrow> float64 option \<Rightarrow> string \<Rightarrow> float64 option" where
  "fill_hits L old payload =
    (if old = None then
       (case FindStringSubmatch reAmavisHits payload of None \<Rightarrow> old
        | Some m \<Rightarrow> (case strconv_ParseFloat L (submatch m 1) of None \<Rightarrow> old | Some v \<Rightarrow> Some v))
     else old)"

definition amavis_fields :: "lib \<Rightarrow> string \<Rightarrow> LogEntry \<Rightarrow> LogEntry" where
  "amavis_fields L payload e = e\<lparr>
     le_MailFrom := fill (le_MailFrom e) reAmavisFrom payload,
     le_MailTo := fill (le_MailTo e) reAmavisArrow payload,
     le_QueueID := fill (le_QueueID e) reAmavisQueueID payload,
     le_Status := fill_status L (le_Status e) payload,
     le_QueuedAs := fill (le_QueuedAs e) reAmavisQueuedAs payload,
     le_MailID := fill (le_MailID e) reAmavisMailID payload,
     le_Subject := fill (le_Subject e) reAmavisSubject payload,
     le_Hits := fill_hits L (le_Hits e) payload,
     le_Helo := fill (le_Helo e) reAmavisHelo payload,
     le_AmavisOrigin := fill (le_AmavisOrigin e) reAmavisOrigin payload\<rparr>"

definition amavis_verdict :: "lib \<Rightarrow> string \<Rightarrow> LogEntry \<Rightarrow> LogEntry" where
  "amavis_verdict L process e =
    (if HasPrefix (ToLower L process) ''amavis['' then
       (let status = ToLower L (le_Status e)
        in e\<lparr>le_IsJunk := (le_IsJunk e \<or> status = ''passed spam'' \<or> status = ''passed spammy''),
            le_SpamScore := (case le_Hits e of None \<Rightarrow> le_SpamScore e | Some h \<Rightarrow> Some h)\<rparr>)
     else e)"

definition dovecot_fields :: "string \<Rightarrow> string \<Rightarrow> LogEntry \<Rightarrow> LogEntry" where
  "dovecot_fields process payload e =
    (if MatchString reDovecotLMTP (process @ '' '' @ payload) then
       e\<lparr>le_QueueID := fill (le_QueueID e) reDovecotQueueID payload,
         le_IsJunk := (le_IsJunk e \<or> MatchString reDovecotJunk payload)\<rparr>
     else e)"

section \<open>The whole line\<close>

definition split_queue :: "string \<Rightarrow> string \<times> string" where
  "split_queue msg = (case FindStringSubmatch reQueue msg of None \<Rightarrow> ([], msg) | Some m \<Rightarrow> (submatch m 1, submatch m 2))"

definition build_entry :: "lib \<Rightarrow> string \<Rightarrow> header \<Rightarrow> LogEntry" where
  "build_entry L line h =
    (let (queueID, payload) = split_queue (hd_msg h);
         e0 = LogEntry_zero\<lparr>le_TSUTC := hd_ts h, le_Host := hd_host h, le_Process := hd_process h,
                le_QueueID := queueID, le_Raw := line\<rparr>;
         e1 = fold (apply_kv L) (map kv_pair (FindAllStringSubmatch reKV payload)) e0;
         e2 = dovecot_fields (hd_process h) payload (amavis_verdict L (hd_process h) (amavis_fields L payload e1))
     in e2\<lparr>le_RawHash := EncodeToString (sha256_Sum256 L line)\<rparr>)"

definition ParseLine :: "lib \<Rightarrow> string \<Rightarrow> instant \<Rightarrow> location \<Rightarrow> LogEntry option" where
  "ParseLine L raw now loc =
    (let line = TrimSpace raw
     in if line = [] then None
        else case parse_header now loc line of None \<Rightarrow> None | Some h \<Rightarrow> Some (build_entry L line h))"


section \<open>What every entry satisfies\<close>

lemma chars_seqs [simp]: "chars (seqs rs) c = (\<exists>r \<in> set rs. chars r c)"
  by (induction rs) (auto simp: seqs_def)

lemma group_chars_seqs [simp]: "group_chars (seqs rs) n c = (\<exists>r \<in> set rs. group_chars r n c)"
  by (induction rs) (auto simp: seqs_def)

lemma chars_lit [simp]: "chars (lit w) c = (c \<in> set w)"
  by (auto simp: lit_def)

lemma group_chars_lit [simp]: "\<not> group_chars (lit w) n c"
  by (auto simp: lit_def)

lemma chars_Plus [simp]: "chars (Plus r) c = chars r c" "group_chars (Plus r) n c = group_chars r n c"
  by (simp_all add: Plus_def)

lemma kv_key_word:
  assumes "m \<in> set (FindAllStringSubmatch reKV payload)"
  shows "list_all word_char (fst (kv_pair m))"
proof -
  have "list_all (group_chars reKV 1) (submatch m 1)" "list_all (group_chars reKV 3) (submatch m 3)"
    using FindAll_group[OF assms] by blast+
  moreover have "group_chars reKV n c \<Longrightarrow> n \<in> {1, 3} \<Longrightarrow> word_char c" for n c
    by (auto simp: reKV_def not_in_def)
  ultimately show ?thesis unfolding kv_pair_def by (auto simp: list_all_iff)
qed

lemma not_message_id:
  assumes "list_all word_char key"
  shows "key \<noteq> ''message-id''"
  using assms by (auto simp: word_char_def)

lemma apply_kv_frame:
  "fst kv \<noteq> ''message-id'' \<Longrightarrow> le_MessageID (apply_kv L kv e) = le_MessageID e"
  "le_TSUTC (apply_kv L kv e) = le_TSUTC e" "le_Host (apply_kv L kv e) = le_Host e"
  "le_Process (apply_kv L kv e) = le_Process e" "le_QueueID (apply_kv L kv e) = le_QueueID e"
  "le_Raw (apply_kv L kv e) = le_Raw e"
  by (cases kv; simp add: apply_kv_def split: option.splits)+

lemma fold_kv_frame:
  "le_TSUTC (fold (apply_kv L) kvs e) = le_TSUTC e" "le_Host (fold (apply_kv L) kvs e) = le_Host e"
  "le_Process (fold (apply_kv L) kvs e) = le_Process e" "le_QueueID (fold (apply_kv L) kvs e) = le_QueueID e"
  "le_Raw (fold (apply_kv L) kvs e) = le_Raw e"
  by (induction kvs arbitrary: e) (simp_all add: apply_kv_frame)

lemma fold_kv_message_id:
  "(\<And>kv. kv \<in> set kvs \<Longrightarrow> fst kv \<noteq> ''message-id'') \<Longrightarrow> le_MessageID (fold (apply_kv L) kvs e) = le_MessageID e"
  by (induction kvs arbitrary: e) (simp_all add: apply_kv_frame)

lemma amavis_fields_frame [simp]:
  "le_MessageID (amavis_fields L p e) = le_MessageID e" "le_TSUTC (amavis_fields L p e) = le_TSUTC e"
  "le_Host (amavis_fields L p e) = le_Host e" "le_Process (amavis_fields L p e) = le_Process e" "le_Raw (amavis_fields L p e) = le_Raw e"
  "le_QueueID (amavis_fields L p e) = fill (le_QueueID e) reAmavisQueueID p"
  by (simp_all add: amavis_fields_def)

lemma amavis_verdict_frame [simp]:
  "le_MessageID (amavis_verdict L p e) = le_MessageID e" "le_TSUTC (amavis_verdict L p e) = le_TSUTC e"
  "le_Host (amavis_verdict L p e) = le_Host e" "le_Process (amavis_verdict L p e) = le_Process e" "le_Raw (amavis_verdict L p e) = le_Raw e"
  "le_QueueID (amavis_verdict L p e) = le_QueueID e" "le_MailFrom (amavis_verdict L p e) = le_MailFrom e"
  "le_MailTo (amavis_verdict L p e) = le_MailTo e" "le_Status (amavis_verdict L p e) = le_Status e"
  "le_Relay (amavis_verdict L p e) = le_Relay e" "le_DSN (amavis_verdict L p e) = le_DSN e"
  "le_Delays (amavis_verdict L p e) = le_Delays e" "le_SizeBytes (amavis_verdict L p e) = le_SizeBytes e"
  by (simp_all add: amavis_verdict_def Let_def)

lemma dovecot_fields_frame [simp]:
  "le_MessageID (dovecot_fields q p e) = le_MessageID e" "le_TSUTC (dovecot_fields q p e) = le_TSUTC e"
  "le_Host (dovecot_fields q p e) = le_Host e" "le_Process (dovecot_fields q p e) = le_Process e" "le_Raw (dovecot_fields q p e) = le_Raw e"
  "le_MailFrom (dovecot_fields q p e) = le_MailFrom e"
  "le_MailTo (dovecot_fields q p e) = le_MailTo e" "le_Status (dovecot_fields q p e) = le_Status e"
  "le_Relay (dovecot_fields q p e) = le_Relay e" "le_DSN (dovecot_fields q p e) = le_DSN e"
  "le_Delays (dovecot_fields q p e) = le_Delays e" "le_SizeBytes (dovecot_fields q p e) = le_SizeBytes e"
  by (simp_all add: dovecot_fields_def)

lemma ParseLine_cases:
  assumes "ParseLine L raw now loc = Some e"
  obtains h where "TrimSpace raw \<noteq> []" "parse_header now loc (TrimSpace raw) = Some h" "e = build_entry L (TrimSpace raw) h"
  using assms by (auto simp: ParseLine_def Let_def split: if_splits option.splits)

text \<open>
  C21. The message id of a line is never parsed. The key of \<^verbatim>\<open>reKV\<close> is a run of word characters and
  \<^verbatim>\<open>message-id\<close> contains a hyphen, so the case of the \<^verbatim>\<open>switch\<close> for it is dead: \<^verbatim>\<open>MessageID\<close> is empty in
  every entry, whatever the line.
\<close>

theorem message_id_never_parsed:
  assumes "ParseLine L raw now loc = Some e"
  shows "le_MessageID e = []"
proof -
  obtain h where e: "e = build_entry L (TrimSpace raw) h" using assms by (rule ParseLine_cases)
  have "le_MessageID (fold (apply_kv L) (map kv_pair (FindAllStringSubmatch reKV payload)) e0) = le_MessageID e0" for payload e0
    by (rule fold_kv_message_id) (use kv_key_word not_message_id in auto)
  then show ?thesis by (simp add: e build_entry_def Let_def LogEntry_zero_def split: prod.splits)
qed

section \<open>Well-formed lines\<close>

text \<open>The shape of an RFC 3339 timestamp the header expression accepts.\<close>

definition rfc_shape :: "string \<Rightarrow> bool" where
  "rfc_shape ts \<longleftrightarrow> (\<exists>y m d ck z. ts = y @ ''-'' @ m @ ''-'' @ d @ ''T'' @ ck @ z
     \<and> list_all digit y \<and> length y = 4 \<and> list_all digit m \<and> length m = 2 \<and> list_all digit d \<and> length d = 2
     \<and> ck \<noteq> [] \<and> list_all (\<lambda>c. digit c \<or> c = CHR '':'' \<or> c = CHR ''.'') ck
     \<and> (z = ''Z'' \<or> (\<exists>sg zz. z = sg # zz \<and> sg \<in> {CHR ''+'', CHR ''-''} \<and> zz \<noteq> [] \<and> list_all (\<lambda>c. digit c \<or> c = CHR '':'') zz)))"

lemma eats_zone:
  assumes "z = ''Z'' \<or> (\<exists>sg zz. z = sg # zz \<and> sg \<in> {CHR ''+'', CHR ''-''} \<and> zz \<noteq> [] \<and> list_all (\<lambda>c. digit c \<or> c = CHR '':'') zz)"
  shows "eats (Alt (lit ''Z'') (Seq (one_of ''+-'') (Plus (Cls (\<lambda>c. digit c \<or> c = CHR '':''))))) p z (CHR '' '' # u) []"
  using assms
proof
  assume "z = ''Z''"
  then show ?thesis using eats_lit by (intro eats_Alt1) simp
next
  assume "\<exists>sg zz. z = sg # zz \<and> sg \<in> {CHR ''+'', CHR ''-''} \<and> zz \<noteq> [] \<and> list_all (\<lambda>c. digit c \<or> c = CHR '':'') zz"
  then obtain sg zz where z: "z = sg # zz" "sg \<in> {CHR ''+'', CHR ''-''}" "zz \<noteq> []" "list_all (\<lambda>c. digit c \<or> c = CHR '':'') zz" by blast
  show ?thesis
  proof (rule eats_Alt2)
    show "matches (lit ''Z'') \<lparr>ms_prev = p, ms_rest = z @ CHR '' '' # u, ms_caps = k\<rparr> = []" for k
      using z by (auto simp: lit_def seqs_def)
    have "eats (Plus (Cls (\<lambda>c. digit c \<or> c = CHR '':''))) (after p [sg]) zz (CHR '' '' # u) []"
      by (rule eats_Plus) (use z in \<open>auto simp: in_rng_def\<close>)
    then show "eats (Seq (one_of ''+-'') (Plus (Cls (\<lambda>c. digit c \<or> c = CHR '':'')))) p z (CHR '' '' # u) []"
      using eats_Seq[of "one_of ''+-''" p "[sg]" zz "CHR '' '' # u" "[]"] eats_Cls[of "\<lambda>c. c \<in> set ''+-''" sg p] z
      by (simp add: one_of_def)
  qed
qed

lemma eats_rfc:
  assumes "rfc_shape ts"
  shows "eats (Grp 1 (seqs [times 4 (Cls digit), lit ''-'', two_digits, lit ''-'', two_digits, lit ''T'',
       Plus (Cls (\<lambda>c. digit c \<or> c = CHR '':'' \<or> c = CHR ''.'')),
       Alt (lit ''Z'') (Seq (one_of ''+-'') (Plus (Cls (\<lambda>c. digit c \<or> c = CHR '':''))))])) p ts (CHR '' '' # u) [(1, ts)]"
proof -
  obtain y m d ck z where ts: "ts = y @ ''-'' @ m @ ''-'' @ d @ ''T'' @ ck @ z"
    and y: "list_all digit y" "length y = 4" and m: "list_all digit m" "length m = 2" and d: "list_all digit d" "length d = 2"
    and ck: "ck \<noteq> []" "list_all (\<lambda>c. digit c \<or> c = CHR '':'' \<or> c = CHR ''.'') ck"
    and z: "z = ''Z'' \<or> (\<exists>sg zz. z = sg # zz \<and> sg \<in> {CHR ''+'', CHR ''-''} \<and> zz \<noteq> [] \<and> list_all (\<lambda>c. digit c \<or> c = CHR '':'') zz)"
    using assms unfolding rfc_shape_def by blast
  have zhd: "z @ CHR '' '' # u \<noteq> []" "\<not> (digit (hd (z @ CHR '' '' # u)) \<or> hd (z @ CHR '' '' # u) = CHR '':'' \<or> hd (z @ CHR '' '' # u) = CHR ''.'')"
    using z by (auto simp: in_rng_def)
  have "eats_list [times 4 (Cls digit), lit ''-'', two_digits, lit ''-'', two_digits, lit ''T'',
      Plus (Cls (\<lambda>c. digit c \<or> c = CHR '':'' \<or> c = CHR ''.'')),
      Alt (lit ''Z'') (Seq (one_of ''+-'') (Plus (Cls (\<lambda>c. digit c \<or> c = CHR '':''))))]
      p [y, ''-'', m, ''-'', d, ''T'', ck, z] (CHR '' '' # u) [[], [], [], [], [], [], [], []]"
    using y m d ck zhd eats_zone[OF z] by (simp add: eats_times eats_lit eats_Plus two_digits_def)
  from eats_Grp[OF eats_seqs[OF this]] show ?thesis by (simp add: ts)
qed

text \<open>A line with a header in the usual form.\<close>

definition header_line :: "string \<Rightarrow> string \<Rightarrow> string \<Rightarrow> string \<Rightarrow> string" where
  "header_line ts host process msg = ts @ '' '' @ host @ '' '' @ process @ '': '' @ msg"

definition header_ok :: "string \<Rightarrow> string \<Rightarrow> string \<Rightarrow> bool" where
  "header_ok host process msg \<longleftrightarrow> host \<noteq> [] \<and> list_all (\<lambda>c. \<not> spacing c) host
     \<and> process \<noteq> [] \<and> CHR '':'' \<notin> set process \<and> \<not> spacing (hd process)
     \<and> msg \<noteq> [] \<and> \<not> spacing (hd msg) \<and> CHR 0x0A \<notin> set msg"

lemma header_match:
  assumes "rfc_shape ts" and "header_ok host process msg"
  shows "FindStringSubmatch reRFC3339 (header_line ts host process msg) =
    Some \<lparr>ms_prev = Some (last msg), ms_rest = [], ms_caps = [(4, msg), (3, process), (2, host), (1, ts)]\<rparr>"
proof -
  have sp: "spacing (CHR '' '')" "\<not> spacing (CHR '':'')" by (simp_all add: spacing_def)
  have ne: "host \<noteq> []" "process \<noteq> []" "msg \<noteq> []" and h: "list_all (\<lambda>c. \<not> spacing c) host" "\<not> spacing (hd host)"
    and pr: "list_all (\<lambda>c. c \<noteq> CHR '':'') process" "\<not> spacing (hd process)"
    and ms: "\<not> spacing (hd msg)" "list_all (\<lambda>c. c \<noteq> CHR 0x0A) msg"
    using assms(2) by (auto simp: header_ok_def list_all_iff)
  have g4: "eats (Grp 4 (Star dot)) p msg [] [(4, msg)]" for p
    using eats_Grp[OF eats_Star[OF ms(2), of "[]"]] by (simp add: dot_def)
  have g3: "eats (Grp 3 (Plus (not_in '':''))) p process ('':'' @ u) [(3, process)]" for p u
    using eats_Grp[OF eats_Plus[OF pr(1) ne(2), of "'':'' @ u"]] by (simp add: not_in_def)
  have g2: "eats (Grp 2 (Plus non_space)) p host ('' '' @ u) [(2, host)]" for p u
    using eats_Grp[OF eats_Plus[OF h(1) ne(1), of "'' '' @ u"]] sp by (simp add: space_Cls)
  have "eats_list [Bol, Grp 1 (seqs [times 4 (Cls digit), lit ''-'', two_digits, lit ''-'', two_digits, lit ''T'',
       Plus (Cls (\<lambda>c. digit c \<or> c = CHR '':'' \<or> c = CHR ''.'')),
       Alt (lit ''Z'') (Seq (one_of ''+-'') (Plus (Cls (\<lambda>c. digit c \<or> c = CHR '':''))))]),
     Plus space, Grp 2 (Plus non_space), Plus space, Grp 3 (Plus (not_in '':'')), lit '':'', Plus space, Grp 4 (Star dot), Eol]
     None [[], ts, '' '', host, '' '', process, '':'', '' '', msg, []] []
     [[], [(1, ts)], [], [(2, host)], [], [(3, process)], [], [], [(4, msg)], []]"
    using ne h(2) pr(2) ms(1) eats_rfc[OF assms(1)] g2[of _ "process @ '': '' @ msg"] g3[of _ "'' '' @ msg"]
    by (simp add: eats_Bol eats_Eol eats_lit g4 eats_blank)
  note m = find_from_eats[OF eats_seqs[OF this]]
  have "concat [[], ts, '' '', host, '' '', process, '':'', '' '', msg, []] @ [] = header_line ts host process msg"
    by (simp add: header_line_def)
  moreover have "header_line ts host process msg \<noteq> []" "last (header_line ts host process msg) = last msg"
    using ne(3) by (simp_all add: header_line_def)
  ultimately show ?thesis using m by (simp add: FindStringSubmatch_def reRFC3339_def after_def)
qed

lemma parse_header_rfc:
  assumes "rfc_shape ts" and "parse_RFC3339 ts = Some t" and "header_ok host process msg"
  shows "parse_header now loc (header_line ts host process msg) =
    Some \<lparr>hd_ts = t, hd_host = host, hd_process = process, hd_msg = msg\<rparr>"
  using assms(2) by (simp add: parse_header_def header_match[OF assms(1,3)] submatch_def)


section \<open>Key-value pairs of a line\<close>

definition value_char :: "char \<Rightarrow> bool" where
  "value_char c \<longleftrightarrow> c \<noteq> CHR '','' \<and> \<not> spacing c"

text \<open>A pair, in angle brackets or plain.\<close>

fun kv_text :: "bool \<times> string \<times> string \<Rightarrow> string" where
  "kv_text (True, k, v) = k @ ''=<'' @ v @ ''>''"
| "kv_text (False, k, v) = k @ ''='' @ v"

fun kv_ok :: "bool \<times> string \<times> string \<Rightarrow> bool" where
  "kv_ok (True, k, v) = (k \<noteq> [] \<and> list_all word_char k \<and> CHR ''>'' \<notin> set v)"
| "kv_ok (False, k, v) = (k \<noteq> [] \<and> list_all word_char k \<and> v \<noteq> [] \<and> list_all value_char v \<and> hd v \<noteq> CHR ''<'')"

definition tail_ok :: "string \<Rightarrow> bool" where
  "tail_ok u \<longleftrightarrow> CHR ''='' \<notin> set u \<and> (u = [] \<or> \<not> value_char (hd u))"

lemma reKV_alt:
  "reKV = Alt
     (seqs [Grp 1 (Plus (Cls word_char)), lit ''=<'', Grp 2 (Star (not_in ''>'')), lit ''>''])
     (seqs [Grp 3 (Plus (Cls word_char)), lit ''='', Grp 4 (Plus (Cls value_char))])"
proof -
  have "(\<lambda>c. c \<noteq> CHR '','' \<and> c \<notin> {CHR '' '', CHR 0x09, CHR 0x0A, CHR 0x0C, CHR 0x0D}) = value_char"
    by (auto simp: fun_eq_iff value_char_def spacing_def)
  then show ?thesis by (simp add: reKV_def)
qed

lemma word_punct: "\<not> word_char (CHR ''='')" "\<not> word_char (CHR '','')" "\<not> word_char (CHR '' '')"
  by (simp_all add: word_char_def)

lemma matches_seqs_Cons: "matches (seqs (r # rs)) s = concat (map (matches (seqs rs)) (matches r s))"
  by (simp add: seqs_def)

lemma lit_matches: "t \<in> set (matches (lit w) s) \<Longrightarrow> ms_rest s = w @ ms_rest t"
proof (induction w arbitrary: s)
  case Nil
  then show ?case by (simp add: lit_def seqs_def)
next
  case (Cons c w)
  then obtain u where "u \<in> set (matches (Cls (\<lambda>x. x = c)) s)" "t \<in> set (matches (lit w) u)"
    by (auto simp: lit_def matches_seqs_Cons simp del: matches.simps)
  then show ?case using Cons.IH[of u] by (cases "ms_rest s") (auto split: if_splits)
qed

text \<open>A pair starts with a word and the sign after it.\<close>

lemma pair_shape:
  assumes "t \<in> set (matches (seqs (Grp n (Plus (Cls word_char)) # lit x # rs)) s)"
  shows "\<exists>w u. ms_rest s = w @ x @ u \<and> w \<noteq> [] \<and> list_all word_char w"
proof -
  obtain s1 s2 where s1: "s1 \<in> set (matches (Grp n (Plus (Cls word_char))) s)" and s2: "s2 \<in> set (matches (lit x) s1)"
    using assms by (auto simp: matches_seqs_Cons simp del: matches.simps)
  obtain w where w: "ms_rest s = w @ ms_rest s1" "list_all word_char w"
  proof -
    have "chars (Grp n (Plus (Cls word_char))) = word_char" by (simp add: fun_eq_iff)
    then show thesis using matches_consumes[OF s1] that by (auto simp: consumes_def)
  qed
  have "w \<noteq> []"
  proof
    assume "w = []"
    then have same: "ms_rest s1 = ms_rest s" using w by simp
    from s1 obtain s0 where s0: "s0 \<in> set (matches (Plus (Cls word_char)) s)" "ms_rest s0 = ms_rest s1" by auto
    then obtain s' where "s' \<in> set (matches (Cls word_char) s)" "s0 \<in> set (matches (Star (Cls word_char)) s')"
      by (auto simp: Plus_def simp del: matches.simps(2,5))
    then have "length (ms_rest s') < length (ms_rest s)" "consumes (chars (Star (Cls word_char))) s' s0"
      using matches_consumes[of s0] by (cases "ms_rest s"; auto split: if_splits simp del: matches.simps(5))+
    then show False using same s0(2) by (auto simp: consumes_def)
  qed
  then show ?thesis using w lit_matches[OF s2] by auto
qed

lemma reKV_needs:
  assumes "s = [] \<or> \<not> word_char (hd s) \<or> CHR ''='' \<notin> set s"
  shows "matches reKV \<lparr>ms_prev = p, ms_rest = s, ms_caps = k\<rparr> = []"
proof (rule ccontr)
  assume "matches reKV \<lparr>ms_prev = p, ms_rest = s, ms_caps = k\<rparr> \<noteq> []"
  then obtain t where "t \<in> set (matches reKV \<lparr>ms_prev = p, ms_rest = s, ms_caps = k\<rparr>)" by (meson hd_in_set)
  then consider "t \<in> set (matches (seqs [Grp 1 (Plus (Cls word_char)), lit ''=<'', Grp 2 (Star (not_in ''>'')), lit ''>'']) \<lparr>ms_prev = p, ms_rest = s, ms_caps = k\<rparr>)"
    | "t \<in> set (matches (seqs [Grp 3 (Plus (Cls word_char)), lit ''='', Grp 4 (Plus (Cls value_char))]) \<lparr>ms_prev = p, ms_rest = s, ms_caps = k\<rparr>)"
    unfolding reKV_alt matches.simps set_append by blast
  then obtain w u where "s = w @ CHR ''='' # u" "w \<noteq> []" "list_all word_char w"
    by cases (drule pair_shape, force)+
  then show False using assms by (cases w) auto
qed

lemma eats_angle:
  assumes "kv_ok (True, k, v)"
  shows "eats reKV p (kv_text (True, k, v)) u [(2, v), (1, k)]"
proof -
  have k: "list_all word_char k" "k \<noteq> []" and v: "list_all (\<lambda>c. c \<noteq> CHR ''>'') v" using assms by (auto simp: list_all_iff)
  have g1: "eats (Grp 1 (Plus (Cls word_char))) p k (''=<'' @ x) [(1, k)]" for p x
    using eats_Grp[OF eats_Plus[OF k, of "''=<'' @ x"]] word_punct by simp
  have g2: "eats (Grp 2 (Star (not_in ''>''))) p v (''>'' @ x) [(2, v)]" for p x
    using eats_Grp[OF eats_Star[OF v, of "''>'' @ x"]] by (simp add: not_in_def)
  have "eats_list [Grp 1 (Plus (Cls word_char)), lit ''=<'', Grp 2 (Star (not_in ''>'')), lit ''>''] p
      [k, ''=<'', v, ''>''] u [[(1, k)], [], [(2, v)], []]"
    using g1[of p "v @ ''>'' @ u"] g2[of _ u] by (simp add: eats_lit)
  from eats_Alt1[OF eats_seqs[OF this]] show ?thesis by (simp add: reKV_alt)
qed

lemma eats_plain:
  assumes "kv_ok (False, k, v)" and "u = [] \<or> \<not> value_char (hd u)"
  shows "eats reKV p (kv_text (False, k, v)) u [(4, v), (3, k)]"
proof -
  have k: "list_all word_char k" "k \<noteq> []" and v: "list_all value_char v" "v \<noteq> []" "hd v \<noteq> CHR ''<''" using assms by auto
  have no: "matches (seqs [Grp 1 (Plus (Cls word_char)), lit ''=<'', Grp 2 (Star (not_in ''>'')), lit ''>''])
      \<lparr>ms_prev = p, ms_rest = kv_text (False, k, v) @ u, ms_caps = c\<rparr> = []" for c
  proof (rule ccontr)
    assume "matches (seqs [Grp 1 (Plus (Cls word_char)), lit ''=<'', Grp 2 (Star (not_in ''>'')), lit ''>''])
      \<lparr>ms_prev = p, ms_rest = kv_text (False, k, v) @ u, ms_caps = c\<rparr> \<noteq> []"
    then obtain w x where eq: "k @ CHR ''='' # v @ u = w @ CHR ''='' # CHR ''<'' # x" and w: "list_all word_char w"
      using pair_shape by (fastforce dest: hd_in_set)
    have "takeWhile (\<lambda>c. c \<noteq> CHR ''='') (k @ CHR ''='' # v @ u) = k" "takeWhile (\<lambda>c. c \<noteq> CHR ''='') (w @ CHR ''='' # CHR ''<'' # x) = w"
      using k(1) w word_punct(1) by (subst takeWhile_append2; force simp: list_all_iff)+
    then have "v @ u = CHR ''<'' # x" using eq by simp
    then show False using v by (cases v) auto
  qed
  have g3: "eats (Grp 3 (Plus (Cls word_char))) p k (''='' @ x) [(3, k)]" for p x
    using eats_Grp[OF eats_Plus[OF k, of "''='' @ x"]] word_punct by simp
  have g4: "eats (Grp 4 (Plus (Cls value_char))) p v u [(4, v)]" for p
    using eats_Grp[OF eats_Plus[OF v(1,2) assms(2)]] by simp
  have "eats_list [Grp 3 (Plus (Cls word_char)), lit ''='', Grp 4 (Plus (Cls value_char))] p
      [k, ''='', v] u [[(3, k)], [], [(4, v)]]"
    using g3[of p "v @ u"] g4 by (simp add: eats_lit)
  from eats_Alt2[OF _ eats_seqs[OF this]] no show ?thesis by (simp add: reKV_alt)
qed


lemma find_from_skip:
  assumes "\<And>c s q. c \<in> set x \<Longrightarrow> matches r \<lparr>ms_prev = q, ms_rest = c # s, ms_caps = []\<rparr> = []"
  shows "find_from r p (x @ s) = find_from r (after p x) s"
  using assms
proof (induction x arbitrary: p)
  case (Cons c x)
  then have "find_from r p ((c # x) @ s) = find_from r (Some c) (x @ s)" by simp
  also have "\<dots> = find_from r (after (Some c) x) s" using Cons by simp
  finally show ?case by (simp add: after_def)
qed simp

lemma find_from_no_sign: "CHR ''='' \<notin> set s \<Longrightarrow> find_from reKV p s = None"
  by (induction s arbitrary: p) (simp_all add: reKV_needs)

lemma find_all_eats:
  assumes "eats reKV p w u cs" and "w \<noteq> []"
  shows "find_all reKV p (w @ u) = \<lparr>ms_prev = after p w, ms_rest = u, ms_caps = cs\<rparr> # find_all reKV (after p w) u"
  using assms(2) by (subst find_all.simps) (simp add: find_from_eats[OF assms(1)])

lemma find_all_sep: "find_all reKV p ('', '' @ s) = (case find_from reKV (after p '', '') s of None \<Rightarrow> []
    | Some t \<Rightarrow> if length (ms_rest t) < length s + 2 then t # find_all reKV (ms_prev t) (ms_rest t) else [t])"
proof -
  have "find_from reKV p ('', '' @ s) = find_from reKV (after p '', '') s"
    by (rule find_from_skip) (use word_punct in \<open>auto intro: reKV_needs\<close>)
  moreover have "length ('', '' @ s) = length s + 2" by simp
  ultimately show ?thesis unfolding find_all.simps[of reKV p "'', '' @ s"] by (simp only:)
qed

lemma kv_step:
  assumes "kv_ok kv" and "u = [] \<or> \<not> value_char (hd u)"
  shows "\<exists>cs. eats reKV p (kv_text kv) u cs \<and> kv_text kv \<noteq> [] \<and> (\<forall>q r. kv_pair \<lparr>ms_prev = q, ms_rest = r, ms_caps = cs\<rparr> = snd kv)"
proof -
  obtain a k v where kv: "kv = (a, k, v)" by (cases kv) auto
  show ?thesis
  proof (cases a)
    case True
    then have "eats reKV p (kv_text kv) u [(2, v), (1, k)]" using assms(1) kv eats_angle by simp
    moreover have "k \<noteq> []" using assms(1) kv True by simp
    ultimately show ?thesis using kv True by (intro exI[of _ "[(2, v), (1, k)]"]) (simp add: kv_pair_def submatch_def)
  next
    case False
    then have "eats reKV p (kv_text kv) u [(4, v), (3, k)]" using assms kv eats_plain by simp
    then show ?thesis using kv False by (intro exI[of _ "[(4, v), (3, k)]"]) (simp add: kv_pair_def submatch_def)
  qed
qed

lemma find_all_kvs:
  assumes "kvs \<noteq> []" and "list_all kv_ok kvs" and "tail_ok u"
  shows "map kv_pair (find_all reKV p (Join (map kv_text kvs) '', '' @ u)) = map snd kvs"
  using assms(1,2)
proof (induction kvs arbitrary: p rule: list_nonempty_induct)
  case (single kv)
  then obtain cs where cs: "eats reKV p (kv_text kv) u cs" "kv_text kv \<noteq> []"
      "kv_pair \<lparr>ms_prev = after p (kv_text kv), ms_rest = u, ms_caps = cs\<rparr> = snd kv"
    using kv_step[of kv u p] assms(3) by (auto simp: tail_ok_def)
  have "find_all reKV q u = []" for q
    using find_from_no_sign assms(3) by (subst find_all.simps) (simp add: tail_ok_def)
  then show ?case using find_all_eats[OF cs(1,2)] cs(3) by simp
next
  case (cons kv kvs)
  let ?rest = "Join (map kv_text kvs) '', '' @ u"
  have join: "Join (map kv_text (kv # kvs)) '', '' @ u = kv_text kv @ '', '' @ ?rest"
    using cons(1) by (cases kvs) simp_all
  obtain cs where cs: "eats reKV p (kv_text kv) ('', '' @ ?rest) cs" "kv_text kv \<noteq> []"
      "kv_pair \<lparr>ms_prev = after p (kv_text kv), ms_rest = '', '' @ ?rest, ms_caps = cs\<rparr> = snd kv"
    using kv_step[of kv "'', '' @ ?rest" p] cons.prems by (auto simp: value_char_def)
  let ?q = "after (after p (kv_text kv)) '', ''"
  obtain kv2 kvs2 where kvs: "kvs = kv2 # kvs2" using cons(1) by (cases kvs) auto
  obtain w where w: "?rest = kv_text kv2 @ w" and wu: "w = [] \<or> \<not> value_char (hd w)"
    using assms(3) by (cases kvs2) (auto simp: kvs tail_ok_def value_char_def)
  obtain ds where ds: "eats reKV ?q (kv_text kv2) w ds" "kv_text kv2 \<noteq> []"
    using kv_step[of kv2 w ?q] cons.prems kvs wu by auto
  have "find_all reKV (after p (kv_text kv)) ('', '' @ ?rest) = find_all reKV ?q ?rest"
    unfolding find_all_sep w find_from_eats[OF ds(1)] find_all_eats[OF ds] using ds(2) by simp
  then show ?case unfolding join find_all_eats[OF cs(1,2)] using cs(3) cons.IH[of ?q] cons.prems by simp
qed

text \<open>What the pairs leave in the entry: the last value of each key.\<close>

definition last_value :: "(string \<times> string) list \<Rightarrow> string \<Rightarrow> string option" where
  "last_value kvs key = map_of (rev kvs) key"

lemma fold_kv_fields:
  fixes L :: lib and kvs :: "(string \<times> string) list" and e :: LogEntry
  defines "r \<equiv> fold (apply_kv L) kvs e"
  shows "le_MailFrom r = (case last_value kvs ''from'' of None \<Rightarrow> le_MailFrom e | Some v \<Rightarrow> TrimSpace v)"
    and "le_MailTo r = (case last_value kvs ''to'' of None \<Rightarrow> le_MailTo e | Some v \<Rightarrow> TrimSpace v)"
    and "le_Status r = (case last_value kvs ''status'' of None \<Rightarrow> le_Status e | Some v \<Rightarrow> TrimSpace v)"
    and "le_Relay r = (case last_value kvs ''relay'' of None \<Rightarrow> le_Relay e | Some v \<Rightarrow> TrimSpace v)"
    and "le_Delays r = (case last_value kvs ''delays'' of None \<Rightarrow> le_Delays e | Some v \<Rightarrow> TrimSpace v)"
    and "le_DSN r = (case last_value kvs ''dsn'' of None \<Rightarrow> le_DSN e | Some v \<Rightarrow> TrimSpace v)"
  unfolding r_def
  by (induction kvs rule: rev_induct; auto simp: last_value_def apply_kv_def split: option.splits)+


section \<open>A Postfix line\<close>

definition postfix_line :: "string \<Rightarrow> string \<Rightarrow> string \<Rightarrow> string \<Rightarrow> (bool \<times> string \<times> string) list \<Rightarrow> string \<Rightarrow> string" where
  "postfix_line ts host process qid kvs u =
     header_line ts host process (qid @ '': '' @ Join (map kv_text kvs) '', '' @ u)"

definition postfix_ok :: "string \<Rightarrow> string \<Rightarrow> string \<Rightarrow> string \<Rightarrow> (bool \<times> string \<times> string) list \<Rightarrow> string \<Rightarrow> bool" where
  "postfix_ok ts host process qid kvs u \<longleftrightarrow> rfc_shape ts
     \<and> host \<noteq> [] \<and> list_all (\<lambda>c. \<not> spacing c) host \<and> process \<noteq> [] \<and> CHR '':'' \<notin> set process \<and> \<not> spacing (hd process)
     \<and> qid \<noteq> [] \<and> list_all alnum qid \<and> kvs \<noteq> [] \<and> list_all kv_ok kvs \<and> tail_ok u
     \<and> CHR 0x0A \<notin> set (Join (map kv_text kvs) '', '' @ u)"

lemma alnum_not: "alnum c \<Longrightarrow> \<not> spacing c \<and> c \<noteq> CHR 0x0A \<and> c \<noteq> CHR '':''"
  by (auto simp: alnum_def in_rng_def spacing_def)

lemma word_not_spacing: "word_char c \<Longrightarrow> \<not> spacing c"
  by (auto simp: word_char_def spacing_def)

lemma payload_hd:
  assumes "kvs \<noteq> []" and "list_all kv_ok kvs"
  shows "Join (map kv_text kvs) '', '' @ u \<noteq> []" "\<not> spacing (hd (Join (map kv_text kvs) '', '' @ u))"
proof -
  obtain a k v rest where kvs: "kvs = (a, k, v) # rest" using assms(1) by (cases kvs) auto
  have k: "k \<noteq> []" "word_char (hd k)" using assms(2) kvs by (cases a; cases k; simp)+
  obtain x where x: "kv_text (a, k, v) = k @ x" by (cases a) auto
  have "\<exists>y. Join (map kv_text kvs) '', '' = k @ y" using x by (cases rest) (auto simp: kvs)
  then show "Join (map kv_text kvs) '', '' @ u \<noteq> []" "\<not> spacing (hd (Join (map kv_text kvs) '', '' @ u))"
    using k word_not_spacing by auto
qed

lemma split_queue_msg:
  assumes "qid \<noteq> []" and "list_all alnum qid" and "p \<noteq> []" and "\<not> spacing (hd p)" and "CHR 0x0A \<notin> set p"
  shows "split_queue (qid @ '': '' @ p) = (qid, p)"
proof -
  have g1: "eats (Grp 1 (Plus (Cls alnum))) None qid ('':'' @ x) [(1, qid)]" for x
    using eats_Grp[OF eats_Plus[OF assms(2,1), of "'':'' @ x"]] alnum_not[of "CHR '':''"] by auto
  have sp: "eats (Plus space) q '' '' p []" for q
    using eats_Plus[of spacing "'' ''" p] assms(3,4) by (simp add: space_Cls spacing_def)
  have g2: "eats (Grp 2 (Star dot)) q p [] [(2, p)]" for q
    using eats_Grp[OF eats_Star[of "\<lambda>c. c \<noteq> CHR 0x0A" p "[]"]] assms(5) by (auto simp: dot_def list_all_iff)
  have "eats_list [Bol, Grp 1 (Plus (Cls alnum)), lit '':'', Plus space, Grp 2 (Star dot), Eol] None
      [[], qid, '':'', '' '', p, []] [] [[], [(1, qid)], [], [], [(2, p)], []]"
    using g1[of "'' '' @ p"] sp g2 by (simp add: eats_Bol eats_Eol eats_lit)
  from find_from_eats[OF eats_seqs[OF this]] show ?thesis
    by (simp add: split_queue_def FindStringSubmatch_def reQueue_def submatch_def)
qed


text \<open>A line for the examples, its pairs and its timestamp.\<close>

definition example_ts :: string where "example_ts = ''2026-01-23T19:27:18Z''"

definition example_kvs :: "(bool \<times> string \<times> string) list" where
  "example_kvs = [(True, ''to'', ''c@d.com''), (False, ''dsn'', ''2.0.0''), (False, ''status'', ''sent'')]"

lemma example_ts_ok: "rfc_shape example_ts"
  unfolding rfc_shape_def
  by (rule exI[of _ "''2026''"], rule exI[of _ "''01''"], rule exI[of _ "''23''"], rule exI[of _ "''19:27:18''"], rule exI[of _ "''Z''"])
    (simp add: example_ts_def in_rng_def)

lemma example_ts_value: "parse_RFC3339 example_ts = Some 1769196438000000000"
  unfolding example_ts_def by code_simp

theorem message_id_never_parsed_witness:
  "\<exists>e. ParseLine example_lib ''2026-01-23T19:27:18Z mail p: A1: message-id=<x@y>, status=sent'' 0 UTC = Some e \<and> le_MessageID e = []"
proof -
  let ?msg = "''A1: message-id=<x@y>, status=sent''"
  have line: "''2026-01-23T19:27:18Z mail p: A1: message-id=<x@y>, status=sent'' = header_line example_ts ''mail'' ''p'' ?msg"
    by (simp add: header_line_def example_ts_def)
  have "header_ok ''mail'' ''p'' ?msg" by (simp add: header_ok_def spacing_def)
  note hd = parse_header_rfc[OF example_ts_ok example_ts_value this, of 0 UTC, folded line]
  have "TrimSpace ''2026-01-23T19:27:18Z mail p: A1: message-id=<x@y>, status=sent'' = ''2026-01-23T19:27:18Z mail p: A1: message-id=<x@y>, status=sent''"
    by (simp add: plain_eval)
  then have "\<exists>e. ParseLine example_lib ''2026-01-23T19:27:18Z mail p: A1: message-id=<x@y>, status=sent'' 0 UTC = Some e"
    by (simp add: ParseLine_def hd)
  then show ?thesis using message_id_never_parsed by blast
qed


end
