(* ===== verification/Ingestor.thy ===== *)
theory Ingestor
  imports Follower ParseLine
begin

text \<open>
  The continuous ingestor (\<^verbatim>\<open>src/continuous_ingest.go\<close>, \<^verbatim>\<open>RunMailLogIngestor\<close>): several parser
  workers take line records from the follower and hand the parsed records over in any order; the
  main loop puts them back into sequence, persists each and feeds it to the stitcher. Channels
  are the order in which events reach the loop: a run is a list of events.
\<close>

section \<open>Processing one parsed record\<close>

record parsedRecord =
  pr_record :: lineRecord
  pr_entry :: "LogEntry option"
  pr_ok :: bool

text \<open>What the loop writes to: the database, the stitcher and standard output.\<close>

record sink =
  sk_db :: db
  sk_stitcher :: TransactionStitcher
  sk_stdout :: "MailTransaction list"

text \<open>
  \<^verbatim>\<open>processParsedRecord\<close>; \<open>enc\<close> is the error, if any, of encoding a transaction to standard
  output. The database commit stays when the encoding fails.
\<close>

definition processParsedRecord :: "lib \<Rightarrow> faults \<Rightarrow> (MailTransaction \<Rightarrow> err option) \<Rightarrow> instant \<Rightarrow> string
    \<Rightarrow> parsedRecord \<Rightarrow> sink \<Rightarrow> sink \<times> err option" where
  "processParsedRecord L flt enc now stateKey p s =
    (case persistMailLogRecord L flt now stateKey (pr_record p) (pr_entry p) (sk_db s) of
       Inl x \<Rightarrow> (s, Some x)
     | Inr d \<Rightarrow>
        if pr_ok p then
          (case Apply L now (pr_entry p) (sk_stitcher s) of
             (None, st) \<Rightarrow> (s\<lparr>sk_db := d, sk_stitcher := st\<rparr>, None)
           | (Some t, st) \<Rightarrow>
              (case enc t of
                 Some x \<Rightarrow> (s\<lparr>sk_db := d, sk_stitcher := st\<rparr>, Some (''encode mail transaction: '' @ x))
               | None \<Rightarrow> (s\<lparr>sk_db := d, sk_stitcher := st, sk_stdout := sk_stdout s @ [t]\<rparr>, None)))
        else (s\<lparr>sk_db := d\<rparr>, None))"

section \<open>The parser workers\<close>

text \<open>
  What a worker's two selects may see: the context is done, or a line record arrives, with the
  clock at that moment and whether the context is done before the result can be sent.
\<close>

datatype worker_event = WorkerDone | TakeRecord instant lineRecord bool

definition parse_record :: "lib \<Rightarrow> location \<Rightarrow> instant \<Rightarrow> lineRecord \<Rightarrow> parsedRecord" where
  "parse_record L loc now rc =
    (let entry = ParseLine L (lr_Text rc) now loc in \<lparr>pr_record = rc, pr_entry = entry, pr_ok = (entry \<noteq> None)\<rparr>)"

fun parseMailLogRecords :: "lib \<Rightarrow> location \<Rightarrow> worker_event list \<Rightarrow> parsedRecord list" where
  "parseMailLogRecords L loc [] = []"
| "parseMailLogRecords L loc (WorkerDone # evs) = []"
| "parseMailLogRecords L loc (TakeRecord now rc done # evs) =
    (if done then [] else parse_record L loc now rc # parseMailLogRecords L loc evs)"

text \<open>A worker hands over what it took, in that order, and drops at most the last record, when it is told to stop.\<close>

definition taken :: "worker_event list \<Rightarrow> lineRecord list" where
  "taken evs = concat (map (\<lambda>e. case e of TakeRecord now rc done \<Rightarrow> [rc] | WorkerDone \<Rightarrow> []) evs)"

lemma worker_prefix:
  "prefix (map pr_record (parseMailLogRecords L loc evs)) (taken evs)"
  by (induction L loc evs rule: parseMailLogRecords.induct) (simp_all add: taken_def parse_record_def Let_def)

lemma worker_parses:
  "p \<in> set (parseMailLogRecords L loc evs) \<Longrightarrow>
   \<exists>now. pr_entry p = ParseLine L (lr_Text (pr_record p)) now loc \<and> (pr_ok p \<longleftrightarrow> pr_entry p \<noteq> None)"
  by (induction L loc evs rule: parseMailLogRecords.induct) (auto simp: parse_record_def Let_def split: if_splits)

section \<open>The reorder buffer\<close>

text \<open>
  The map \<^verbatim>\<open>pending\<close> is an association list. The inner loop takes out the record with the next
  sequence number as long as there is one; it stops at the first error.
\<close>

function drain :: "('p \<Rightarrow> 's \<Rightarrow> 's \<times> err option) \<Rightarrow> (int \<times> 'p) list \<Rightarrow> int \<Rightarrow> 's
    \<Rightarrow> ((int \<times> 'p) list \<times> int \<times> 's) \<times> err option" where
  "drain f pend nxt s =
    (case map_of pend nxt of None \<Rightarrow> ((pend, nxt, s), None)
     | Some p \<Rightarrow>
        let pend' = filter (\<lambda>kp. fst kp \<noteq> nxt) pend
        in (case f p s of
              (s', Some x) \<Rightarrow> ((pend', nxt, s'), Some x)
            | (s', None) \<Rightarrow> drain f pend' (nxt + 1) s'))"
  by pat_completeness auto
termination
proof (relation "measure (\<lambda>(f, pend, nxt, s). length pend)")
  fix f :: "'p \<Rightarrow> 's \<Rightarrow> 's \<times> err option" and pend :: "(int \<times> 'p) list" and nxt s p pend' r s' x
  assume "map_of pend nxt = Some p" and "pend' = filter (\<lambda>kp. fst kp \<noteq> nxt) pend"
  then have "length pend' < length pend"
    by (auto dest!: map_of_SomeD intro!: length_filter_less)
  then show "((f, pend', nxt + 1, s'), f, pend, nxt, s) \<in> measure (\<lambda>(f, pend, nxt, s). length pend)"
    by simp
qed simp

declare drain.simps [simp del]

definition receive :: "('p \<Rightarrow> 's \<Rightarrow> 's \<times> err option) \<Rightarrow> int \<Rightarrow> 'p \<Rightarrow> (int \<times> 'p) list \<times> int \<times> 's
    \<Rightarrow> ((int \<times> 'p) list \<times> int \<times> 's) \<times> err option" where
  "receive f k p st = (case st of (pend, nxt, s) \<Rightarrow> drain f ((k, p) # filter (\<lambda>kp. fst kp \<noteq> k) pend) nxt s)"

section \<open>The main loop\<close>

text \<open>
  The cases of the select: a parsed record, the eviction ticker, an error of the follower, the
  context. Each event carries the clock and the faults of the statements it runs.
\<close>

datatype ingest_event =
    Parsed instant faults parsedRecord
  | Ticker instant faults "string list"
  | FollowEnded err
  | CtxDone

fun encode_all :: "(MailTransaction \<Rightarrow> err option) \<Rightarrow> MailTransaction list \<Rightarrow> sink \<Rightarrow> sink \<times> err option" where
  "encode_all enc [] s = (s, None)"
| "encode_all enc (t # ts) s =
    (case enc t of Some x \<Rightarrow> (s, Some (''encode expired mail transaction: '' @ x))
     | None \<Rightarrow> encode_all enc ts (s\<lparr>sk_stdout := sk_stdout s @ [t]\<rparr>))"

definition on_ticker :: "lib \<Rightarrow> (MailTransaction \<Rightarrow> err option) \<Rightarrow> StreamConfig \<Rightarrow> instant \<Rightarrow> faults \<Rightarrow> string list
    \<Rightarrow> sink \<Rightarrow> sink \<times> err option" where
  "on_ticker L enc cfg now flt keys s =
    (let (expired, st) = EvictExpired keys now (sk_stitcher s)
     in case encode_all enc expired (s\<lparr>sk_stitcher := st\<rparr>) of
          (s1, Some x) \<Rightarrow> (s1, Some x)
        | (s1, None) \<Rightarrow>
            (case evictExpiredTransactions L flt now (now - sc_QueueIdleTimeout cfg) (sk_db s1) of
               Inl x \<Rightarrow> (s1, Some x) | Inr d \<Rightarrow> (s1\<lparr>sk_db := d\<rparr>, None)))"

type_synonym loop_state = "(int \<times> parsedRecord) list \<times> int \<times> sink"

text \<open>The loop returns (\<open>Some\<close>) or waits for more events (\<open>None\<close>); a returned \<open>None\<close> error is nil.\<close>

fun ingest_loop :: "lib \<Rightarrow> (MailTransaction \<Rightarrow> err option) \<Rightarrow> StreamConfig \<Rightarrow> string \<Rightarrow> ingest_event list
    \<Rightarrow> loop_state \<Rightarrow> loop_state \<times> err option option" where
  "ingest_loop L enc cfg key [] st = (st, None)"
| "ingest_loop L enc cfg key (CtxDone # evs) st = (st, Some None)"
| "ingest_loop L enc cfg key (FollowEnded x # evs) st =
    (st, Some (if x = ''context canceled'' then None else Some x))"
| "ingest_loop L enc cfg key (Parsed now flt p # evs) st =
    (case receive (processParsedRecord L flt enc now key) (lr_Sequence (pr_record p)) p st of
       (st', Some x) \<Rightarrow> (st', Some (Some x))
     | (st', None) \<Rightarrow> ingest_loop L enc cfg key evs st')"
| "ingest_loop L enc cfg key (Ticker now flt keys # evs) st =
    (case st of (pend, nxt, s) \<Rightarrow>
      (case on_ticker L enc cfg now flt keys s of
         (s', Some x) \<Rightarrow> ((pend, nxt, s'), Some (Some x))
       | (s', None) \<Rightarrow> ingest_loop L enc cfg key evs (pend, nxt, s')))"

text \<open>
  The interval of the eviction ticker. The configuration is validated by the follower only, in
  its own goroutine, so the idle timeout may be anything here; Go's division truncates towards zero.
\<close>

definition minDuration :: "duration \<Rightarrow> duration \<Rightarrow> duration" where
  "minDuration a b = (if a < b then a else b)"

definition evictionInterval :: "StreamConfig \<Rightarrow> duration" where
  "evictionInterval cfg =
    (let half = sgn (sc_QueueIdleTimeout cfg) * (\<bar>sc_QueueIdleTimeout cfg\<bar> div 2);
         i = minDuration half Minute
     in if i \<le> 0 then 1 else i)"

lemma evictionInterval_bounds: "0 < evictionInterval cfg" "evictionInterval cfg \<le> Minute"
  by (auto simp: evictionInterval_def minDuration_def Let_def duration_defs)

text \<open>
  \<^verbatim>\<open>time.NewTicker\<close> panics when its interval is not positive. The events of the loop depend on the
  checkpoint the follower starts from.
\<close>

definition RunMailLogIngestor :: "lib \<Rightarrow> (MailTransaction \<Rightarrow> err option) \<Rightarrow> faults \<Rightarrow> StreamConfig
    \<Rightarrow> (ingestState \<Rightarrow> ingest_event list) \<Rightarrow> db \<Rightarrow> sink \<times> err option option" where
  "RunMailLogIngestor L enc flt cfg events d =
    (let s = \<lparr>sk_db = d, sk_stitcher = NewTransactionStitcher (sc_QueueIdleTimeout cfg), sk_stdout = []\<rparr>
     in case getIngestState flt (continuousIngestStateKey (sc_Path cfg)) d of
          Inl x \<Rightarrow> (s, Some (Some (''load ingest checkpoint: '' @ x)))
        | Inr state \<Rightarrow>
            if evictionInterval cfg \<le> 0 then (s, Some (Some ''panic: non-positive interval for NewTicker''))
            else (case ingest_loop L enc cfg (continuousIngestStateKey (sc_Path cfg)) (events state) ([], 0, s) of
               ((pend, nxt, s'), r) \<Rightarrow> (s', r)))"

section \<open>Specification: in-order processing\<close>

text \<open>Processing records one after the other, up to the first error.\<close>

fun run_seq :: "('p \<Rightarrow> 's \<Rightarrow> 's \<times> err option) \<Rightarrow> 'p list \<Rightarrow> 's \<Rightarrow> 's \<times> err option" where
  "run_seq f [] s = (s, None)"
| "run_seq f (p # ps) s = (case f p s of (s', Some x) \<Rightarrow> (s', Some x) | (s', None) \<Rightarrow> run_seq f ps s')"

lemma run_seq_append:
  "run_seq f (ps @ qs) s = (case run_seq f ps s of (s', Some x) \<Rightarrow> (s', Some x) | (s', None) \<Rightarrow> run_seq f qs s')"
  by (induction ps arbitrary: s) (auto split: prod.splits option.splits)

text \<open>A sequence of arrivals of numbered records, up to the first error.\<close>

fun arrivals :: "('p \<Rightarrow> 's \<Rightarrow> 's \<times> err option) \<Rightarrow> (nat \<Rightarrow> 'p) \<Rightarrow> nat list \<Rightarrow> (int \<times> 'p) list \<times> int \<times> 's
    \<Rightarrow> ((int \<times> 'p) list \<times> int \<times> 's) \<times> err option" where
  "arrivals f recs [] st = (st, None)"
| "arrivals f recs (i # is) st =
    (case receive f (int i) (recs i) st of (st', Some x) \<Rightarrow> (st', Some x) | (st', None) \<Rightarrow> arrivals f recs is st')"

text \<open>
  The buffer holds the arrived records that are not yet processed, under their numbers, and the
  next number is not among them.
\<close>

definition buffer_of :: "(nat \<Rightarrow> 'p) \<Rightarrow> nat set \<Rightarrow> (int \<times> 'p) list \<Rightarrow> bool" where
  "buffer_of recs N pend \<longleftrightarrow> distinct (map fst pend) \<and> set pend = (\<lambda>n. (int n, recs n)) ` N"

lemma buffer_of_lookup:
  assumes "buffer_of recs N pend"
  shows "map_of pend (int m) = (if m \<in> N then Some (recs m) else None)"
proof (cases "m \<in> N")
  case True
  then have "(int m, recs m) \<in> set pend" using assms by (auto simp: buffer_of_def)
  then show ?thesis using True assms by (simp add: buffer_of_def)
next
  case False
  then have "int m \<notin> fst ` set pend" using assms by (auto simp: buffer_of_def)
  then show ?thesis using False by (simp add: map_of_eq_None_iff)
qed

lemma buffer_of_remove: "buffer_of recs N pend \<Longrightarrow> buffer_of recs (N - {m}) (filter (\<lambda>kp. fst kp \<noteq> int m) pend)"
  by (auto simp: buffer_of_def distinct_map inj_on_def)

lemma buffer_of_insert:
  assumes "buffer_of recs N pend" and "m \<notin> N"
  shows "buffer_of recs (insert m N) ((int m, recs m) # filter (\<lambda>kp. fst kp \<noteq> int m) pend)"
proof -
  have fresh: "int m \<notin> fst ` set pend" using assms by (auto simp: buffer_of_def)
  then have "filter (\<lambda>kp. fst kp \<noteq> int m) pend = pend" by (induction pend) auto
  then show ?thesis using assms fresh by (simp add: buffer_of_def)
qed

lemma drain_spec:
  assumes "buffer_of recs N pend" and "run_seq f (map recs [0..<m]) s0 = (s, None)"
  shows "\<exists>m' pend' s' e. drain f pend (int m) s = ((pend', int m', s'), e) \<and> m \<le> m' \<and> {m..<m'} \<subseteq> N \<and>
    (case e of None \<Rightarrow> m' \<notin> N \<and> buffer_of recs (N - {m..<m'}) pend' \<and> run_seq f (map recs [0..<m']) s0 = (s', None)
     | Some x \<Rightarrow> m' \<in> N \<and> run_seq f (map recs [0..<Suc m']) s0 = (s', Some x))"
  using assms
proof (induction "card N" arbitrary: N pend m s rule: less_induct)
  case less
  note look = buffer_of_lookup[OF less.prems(1), of m]
  show ?case
  proof (cases "m \<in> N")
    case False
    then have "drain f pend (int m) s = ((pend, int m, s), None)"
      using look by (simp add: drain.simps)
    then show ?thesis using False less.prems by (intro exI[of _ m]) simp
  next
    case True
    let ?pend = "filter (\<lambda>kp. fst kp \<noteq> int m) pend"
    obtain s1 e1 where fs: "f (recs m) s = (s1, e1)" by fastforce
    have seq: "run_seq f (map recs [0..<Suc m]) s0 = (s1, e1)"
      using less.prems(2) fs by (simp add: run_seq_append split: option.splits)
    show ?thesis
    proof (cases e1)
      case (Some x)
      have "drain f pend (int m) s = ((?pend, int m, s1), Some x)"
        using look True fs Some by (simp add: drain.simps[of f pend "int m" s] Let_def)
      then show ?thesis using seq Some True by (intro exI[of _ m]) simp
    next
      case None
      have step: "drain f pend (int m) s = drain f ?pend (int (Suc m)) s1"
        using look True fs None by (simp add: drain.simps[of f pend "int m" s] Let_def add.commute)
      have fin: "finite N"
      proof -
        have "finite ((\<lambda>n. (int n, recs n)) ` N)" using less.prems(1) by (metis buffer_of_def List.finite_set)
        then show ?thesis by (rule finite_imageD) (simp add: inj_on_def)
      qed
      have "card (N - {m}) < card N" using fin True by (rule card_Diff1_less)
      from less.hyps[OF this buffer_of_remove[OF less.prems(1)] seq[unfolded None]]
      obtain m' pend' s' e where ih: "drain f ?pend (int (Suc m)) s1 = ((pend', int m', s'), e)" "Suc m \<le> m'"
          "{Suc m..<m'} \<subseteq> N - {m}"
          "case e of None \<Rightarrow> m' \<notin> N - {m} \<and> buffer_of recs (N - {m} - {Suc m..<m'}) pend' \<and> run_seq f (map recs [0..<m']) s0 = (s', None)
           | Some x \<Rightarrow> m' \<in> N - {m} \<and> run_seq f (map recs [0..<Suc m']) s0 = (s', Some x)"
        by blast
      have "{m..<m'} = insert m {Suc m..<m'}" using ih(2) by auto
      then have "N - {m} - {Suc m..<m'} = N - {m..<m'}" and "{m..<m'} \<subseteq> N"
        using ih(3) True by auto
      then show ?thesis using ih step by (intro exI[of _ m']) (auto split: option.splits)
    qed
  qed
qed

lemma arrivals_spec:
  assumes "buffer_of recs (N - {..<m}) pend" and "{..<m} \<subseteq> N" and "m \<notin> N"
    and "run_seq f (map recs [0..<m]) s0 = (s, None)" and "distinct is" and "set is \<inter> N = {}"
  shows "\<exists>pend' m' s' e. arrivals f recs is (pend, int m, s) = ((pend', int m', s'), e) \<and>
    (case e of
       None \<Rightarrow> {..<m'} \<subseteq> N \<union> set is \<and> m' \<notin> N \<union> set is \<and> run_seq f (map recs [0..<m']) s0 = (s', None)
     | Some x \<Rightarrow> {..m'} \<subseteq> N \<union> set is \<and> run_seq f (map recs [0..<Suc m']) s0 = (s', Some x))"
  using assms
proof (induction "is" arbitrary: N pend m s)
  case Nil
  then show ?case by (intro exI[of _ pend] exI[of _ m]) simp
next
  case (Cons i "is")
  let ?pend = "(int i, recs i) # filter (\<lambda>kp. fst kp \<noteq> int i) pend" and ?M = "insert i N - {..<m}"
  have i: "i \<notin> N" "m \<le> i" using Cons.prems(2,6) by (auto simp: not_less[symmetric])
  have M: "?M = insert i (N - {..<m})" using i(2) by auto
  have buf: "buffer_of recs ?M ?pend"
    unfolding M using buffer_of_insert[OF Cons.prems(1)] i(1) by simp
  obtain m' pend' s' e where d: "drain f ?pend (int m) s = ((pend', int m', s'), e)" "m \<le> m'" "{m..<m'} \<subseteq> ?M"
      "case e of None \<Rightarrow> m' \<notin> ?M \<and> buffer_of recs (?M - {m..<m'}) pend' \<and> run_seq f (map recs [0..<m']) s0 = (s', None)
       | Some x \<Rightarrow> m' \<in> ?M \<and> run_seq f (map recs [0..<Suc m']) s0 = (s', Some x)"
    using drain_spec[OF buf Cons.prems(4)] by blast
  have rec: "receive f (int i) (recs i) (pend, int m, s) = ((pend', int m', s'), e)"
    using d(1) by (simp add: receive_def)
  have low: "{..<m'} \<subseteq> insert i N"
    using d(2,3) Cons.prems(2) by (auto simp: subset_iff) (metis atLeastLessThan_iff not_le)
  show ?case
  proof (cases e)
    case (Some x)
    have "{..m'} \<subseteq> N \<union> set (i # is)"
      using low d(4) Some by (auto simp: le_less)
    then show ?thesis using rec d(4) Some by simp
  next
    case None
    have top: "m' \<notin> insert i N" using d(2,4) None by auto
    have "insert i N - {..<m'} = ?M - {m..<m'}" using d(2) by auto
    then have "buffer_of recs (insert i N - {..<m'}) pend'" using d(4) None by simp
    from Cons.IH[OF this low top] obtain pend2 m2 s2 e2 where
      "arrivals f recs is (pend', int m', s') = ((pend2, int m2, s2), e2)"
      "case e2 of
         None \<Rightarrow> {..<m2} \<subseteq> insert i N \<union> set is \<and> m2 \<notin> insert i N \<union> set is \<and> run_seq f (map recs [0..<m2]) s0 = (s2, None)
       | Some x \<Rightarrow> {..m2} \<subseteq> insert i N \<union> set is \<and> run_seq f (map recs [0..<Suc m2]) s0 = (s2, Some x)"
      using d(4) None Cons.prems(5,6) by auto
    then show ?thesis using rec None
      by (intro exI[of _ pend2] exI[of _ m2] exI[of _ s2] exI[of _ e2]) (simp split: option.splits)
  qed
qed

lemma arrivals_start:
  assumes "distinct is"
  shows "\<exists>pend m s e. arrivals f recs is ([], 0, s0) = ((pend, int m, s), e) \<and>
    (case e of None \<Rightarrow> {..<m} \<subseteq> set is \<and> m \<notin> set is \<and> run_seq f (map recs [0..<m]) s0 = (s, None)
     | Some x \<Rightarrow> {..m} \<subseteq> set is \<and> run_seq f (map recs [0..<Suc m]) s0 = (s, Some x))"
proof -
  have "buffer_of recs ({} - {..<0}) []" by (simp add: buffer_of_def)
  from arrivals_spec[OF this, of f s0 s0 "is"] assms show ?thesis
    unfolding Un_empty_left by simp
qed

section \<open>Properties\<close>

text \<open>
  C11. The reorder buffer hides the parser workers. Whatever the order in which the parsed records
  of the first \<open>n\<close> lines reach the main loop, the effect on database, stitcher and output, and
  the error if there is one, are those of processing the lines one after the other in file
  order; without an error the buffer is empty again for the next line.
\<close>

theorem reorder_exact:
  assumes "distinct is" and "set is = {..<n}"
  shows "\<exists>pend m s e. arrivals f recs is ([], 0, s0) = ((pend, int m, s), e)
    \<and> run_seq f (map recs [0..<n]) s0 = (s, e) \<and> (e = None \<longrightarrow> m = n)"
proof -
  obtain pend m s e where a: "arrivals f recs is ([], 0, s0) = ((pend, int m, s), e)"
    "case e of None \<Rightarrow> {..<m} \<subseteq> set is \<and> m \<notin> set is \<and> run_seq f (map recs [0..<m]) s0 = (s, None)
     | Some x \<Rightarrow> {..m} \<subseteq> set is \<and> run_seq f (map recs [0..<Suc m]) s0 = (s, Some x)"
    using arrivals_start[OF assms(1), of f recs s0] by blast
  show ?thesis
  proof (cases e)
    case None
    then have "m = n" using a(2) assms(2) by (simp add: lessThan_subset_iff not_less)
    then show ?thesis using a None by (intro exI[of _ pend] exI[of _ m]) simp
  next
    case (Some x)
    then have "Suc m \<le> n" using a(2) assms(2) by (auto simp: subset_iff Suc_le_eq)
    then have "map recs [0..<n] = map recs [0..<Suc m] @ map recs [Suc m..<n]"
      by (metis le0 map_append upt_add_eq_append le_add_diff_inverse)
    then have "run_seq f (map recs [0..<n]) s0 = (s, Some x)"
      using a(2) Some by (simp add: run_seq_append del: upt_Suc)
    then show ?thesis using a Some by (intro exI[of _ pend] exI[of _ m]) simp
  qed
qed

theorem reorder_exact_witness:
  "\<exists>pend m s. arrivals (\<lambda>p s. (s @ [p], None)) (\<lambda>i. i * 10) [2, 0, 1] ([], 0, []) = ((pend, int m, s), None)
     \<and> s = [0, 10, 20]"
proof -
  have "set [2, 0, 1] = {..<3 :: nat}" by auto
  from reorder_exact[OF _ this, of "\<lambda>p s. (s @ [p], None)" "\<lambda>i. i * 10" "[]"]
  show ?thesis by (auto simp: upt_rec)
qed

lemma records_from_inode: "n < length ls \<Longrightarrow> lr_Inode (records_from k i off ls ! n) = i"
  by (induction ls arbitrary: k off n) (auto simp: nth_Cons split: nat.splits)

lemma process_persists:
  assumes "processParsedRecord L flt enc now key p s = (s', e)"
  shows "sk_db s' = sk_db s \<and> e \<noteq> None
    \<or> persistMailLogRecord L flt now key (pr_record p) (pr_entry p) (sk_db s) = Inr (sk_db s')"
  using assms by (auto simp: processParsedRecord_def split: sum.splits if_splits prod.splits option.splits)

text \<open>The calls of \<^verbatim>\<open>processParsedRecord\<close> of one run: clock and faults may differ from line to line.\<close>

definition process_line :: "lib \<Rightarrow> (int \<Rightarrow> faults) \<Rightarrow> (MailTransaction \<Rightarrow> err option) \<Rightarrow> (int \<Rightarrow> instant) \<Rightarrow> string
    \<Rightarrow> parsedRecord \<Rightarrow> sink \<Rightarrow> sink \<times> err option" where
  "process_line L flt enc now key p =
    processParsedRecord L (flt (lr_Sequence (pr_record p))) enc (now (lr_Sequence (pr_record p))) key p"

definition persist_args :: "(int \<Rightarrow> faults) \<Rightarrow> (int \<Rightarrow> instant) \<Rightarrow> parsedRecord
    \<Rightarrow> faults \<times> instant \<times> lineRecord \<times> LogEntry option" where
  "persist_args flt now p = (flt (lr_Sequence (pr_record p)), now (lr_Sequence (pr_record p)), pr_record p, pr_entry p)"

lemma run_seq_persists:
  assumes "run_seq (process_line L flt enc now key) ps s = (s', e)"
  shows "\<exists>k \<le> length ps. fold_result (\<lambda>(flt, now, rc, entry). persistMailLogRecord L flt now key rc entry)
      (map (persist_args flt now) (take k ps)) (sk_db s) = Inr (sk_db s')
    \<and> (e = None \<longrightarrow> k = length ps)"
  using assms
proof (induction ps arbitrary: s)
  case (Cons p ps)
  obtain s1 e1 where p: "process_line L flt enc now key p s = (s1, e1)" by fastforce
  note pp = process_persists[OF p[unfolded process_line_def]]
  show ?case
  proof (cases e1)
    case (Some x)
    then have "s' = s1" "e \<noteq> None" using Cons.prems p by auto
    then show ?thesis using pp
      by (elim disjE) (auto intro: exI[of _ 0], auto intro!: exI[of _ "Suc 0"] simp: persist_args_def)
  next
    case None
    then have "run_seq (process_line L flt enc now key) ps s1 = (s', e)" using Cons.prems p by simp
    from Cons.IH[OF this] obtain k where "k \<le> length ps"
      "fold_result (\<lambda>(flt, now, rc, entry). persistMailLogRecord L flt now key rc entry)
        (map (persist_args flt now) (take k ps)) (sk_db s1) = Inr (sk_db s')" "e = None \<longrightarrow> k = length ps" by blast
    moreover have "(\<lambda>(flt, now, rc, entry). persistMailLogRecord L flt now key rc entry)
        (persist_args flt now p) (sk_db s) = Inr (sk_db s1)"
      using pp None by (simp add: persist_args_def)
    ultimately show ?thesis by (intro exI[of _ "Suc k"]) simp
  qed
qed simp

text \<open>
  C12. Crash and restart lose nothing and repeat nothing. Start from a database whose checkpoint
  is a byte position of the log and let the parsed records of the lines behind it arrive in any
  order, with any database or output failure in between. At every moment there is a \<open>k\<close> such
  that the database is the result of persisting exactly the first \<open>k\<close> lines in file order, and
  its checkpoint is a position of the same file from which the lines still to be read are
  exactly the others. A restarted ingestor therefore continues with line \<open>k\<close>.
\<close>

theorem crash_restart_exact:
  assumes "db_ok L d0" and "checkpoint key d0 = \<lparr>OffsetBytes = int start, Inode = ino\<rparr>" and "start \<le> length c"
    and "\<forall>i < length (lines_of (drop start c)).
      pr_record (recs i) = records_from 0 ino (int start) (lines_of (drop start c)) ! i"
    and "distinct is" and "set is \<subseteq> {..<length (lines_of (drop start c))}"
    and "arrivals (process_line L flt enc now key) recs is
      ([], 0, \<lparr>sk_db = d0, sk_stitcher = st, sk_stdout = out\<rparr>) = ((pend, nxt, s), e)"
  shows "\<exists>k \<le> length (lines_of (drop start c)).
    fold_result (\<lambda>(flt, now, rc, entry). persistMailLogRecord L flt now key rc entry)
      (map (persist_args flt now) (map recs [0..<k])) d0 = Inr (sk_db s)
    \<and> Inode (checkpoint key (sk_db s)) = ino
    \<and> lines_of (drop (nat (OffsetBytes (checkpoint key (sk_db s)))) c) = drop k (lines_of (drop start c))"
proof -
  let ?ls = "lines_of (drop start c)" and ?f = "process_line L flt enc now key"
  let ?s0 = "\<lparr>sk_db = d0, sk_stitcher = st, sk_stdout = out\<rparr>"
  obtain m where m: "m \<le> length ?ls" "run_seq ?f (map recs [0..<m]) ?s0 = (s, e)"
  proof (cases e)
    case None
    then obtain m where "{..<m} \<subseteq> set is" "run_seq ?f (map recs [0..<m]) ?s0 = (s, None)"
      using arrivals_start[OF assms(5), of ?f recs ?s0] assms(7) by auto
    then show ?thesis using that[of m] assms(6) None by (force simp: lessThan_subset_iff)
  next
    case (Some x)
    then obtain m where "{..m} \<subseteq> set is" "run_seq ?f (map recs [0..<Suc m]) ?s0 = (s, Some x)"
      using arrivals_start[OF assms(5), of ?f recs ?s0] assms(7) by auto
    then show ?thesis using that[of "Suc m"] assms(6) Some by (force simp: Suc_le_eq)
  qed
  from run_seq_persists[OF m(2)] obtain k where k0: "k \<le> length (map recs [0..<m])"
    "fold_result (\<lambda>(flt, now, rc, entry). persistMailLogRecord L flt now key rc entry)
      (map (persist_args flt now) (take k (map recs [0..<m]))) (sk_db ?s0) = Inr (sk_db s)"
    by blast
  have "take k (map recs [0..<m]) = map recs [0..<k]" using k0(1) by (simp add: take_map)
  with k0 have k: "k \<le> m"
    "fold_result (\<lambda>(flt, now, rc, entry). persistMailLogRecord L flt now key rc entry)
      (map (persist_args flt now) (map recs [0..<k])) d0 = Inr (sk_db s)"
    by (simp_all only: length_map length_upt minus_nat.diff_0 sink.simps)
  note ck = mail.fold_ckpt[OF assms(1) k(2)]
  have "Inode (checkpoint key (sk_db s)) = ino \<and>
      lines_of (drop (nat (OffsetBytes (checkpoint key (sk_db s)))) c) = drop k ?ls"
  proof (cases k)
    case 0
    then show ?thesis using ck assms(2) by simp
  next
    case (Suc j)
    have j: "j < length ?ls" using k(1) m(1) Suc by simp
    have "pr_record (recs j) = records_from 0 ino (int start) ?ls ! j" using assms(4) j by blast
    then have "checkpoint key (sk_db s) = \<lparr>OffsetBytes = int (start + length (unlines (take (Suc j) ?ls))),
        Inode = lr_Inode (records_from 0 ino (int start) ?ls ! j)\<rparr>"
      using ck Suc records_from_nth[OF j, of 0 ino "int start"] by (simp add: persist_args_def)
    then show ?thesis
      using resume_lines[OF j] Suc records_from_inode[OF j] by (simp only: ingestState.simps nat_int)
  qed
  then show ?thesis using k(2) le_trans[OF k(1) m(1)] by blast
qed

theorem crash_restart_exact_witness:
  "let c = ''ab'' @ [newline] @ ''cd'' @ [newline];
       recs = (\<lambda>i. \<lparr>pr_record = records_from 0 0 0 [''ab'', ''cd''] ! i, pr_entry = None, pr_ok = False\<rparr>);
       r = arrivals (process_line example_lib (\<lambda>_. no_faults) (\<lambda>_. None) (\<lambda>_. 5) ''k'') recs [1, 0]
             ([], 0, \<lparr>sk_db = empty_db, sk_stitcher = NewTransactionStitcher Hour, sk_stdout = []\<rparr>)
   in \<exists>k \<le> 2. lines_of (drop (nat (OffsetBytes (checkpoint ''k'' (sk_db (snd (snd (fst r))))))) c) = drop k [''ab'', ''cd'']"
proof -
  let ?c = "''ab'' @ [newline] @ ''cd'' @ [newline]"
  let ?recs = "\<lambda>i. \<lparr>pr_record = records_from 0 0 0 [''ab'', ''cd''] ! i, pr_entry = None, pr_ok = False\<rparr>"
  let ?s0 = "\<lparr>sk_db = empty_db, sk_stitcher = NewTransactionStitcher Hour, sk_stdout = []\<rparr>"
  have l: "lines_of (drop 0 ?c) = [''ab'', ''cd'']" by (simp add: lines_of_def)
  have ok: "db_ok example_lib empty_db" by (simp add: db_ok_def empty_db_def tx_ok_def pk_ok_def)
  have ck: "checkpoint ''k'' empty_db = \<lparr>OffsetBytes = int 0, Inode = 0\<rparr>" by (simp add: checkpoint_def empty_db_def)
  obtain pend nxt s e where r: "arrivals (process_line example_lib (\<lambda>_. no_faults) (\<lambda>_. None) (\<lambda>_. 5) ''k'') ?recs [1, 0]
      ([], 0, ?s0) = ((pend, nxt, s), e)" by (metis surj_pair)
  from crash_restart_exact[OF ok ck _ _ _ _ r, of ?c] show ?thesis
    unfolding l Let_def r by (auto simp: less_Suc_eq numeral_2_eq_2)
qed

end
