(* ===== verification/Detection.thy ===== *)
theory Detection
  imports Store Networks
begin

text \<open>
  Brute-force detection on the Nginx access log (\<^verbatim>\<open>src/nginx_security.go\<close>): how a parsed request
  is stored, how the streak of 404 responses of its address and the number of its authentication
  failures are kept, and when the address is flagged. One request is one database transaction,
  which also moves the checkpoint of the access log.
\<close>

section \<open>Configuration and events\<close>

record NginxSecurityConfig =
  nc_Path :: string
  nc_PollInterval :: duration
  nc_RotationDrainTimeout :: duration
  nc_Consecutive404Threshold :: int
  nc_Consecutive404Window :: duration
  nc_AuthFailureThreshold :: int
  nc_AuthFailureWindow :: duration
  nc_IgnoredPaths :: "string \<Rightarrow> bool"
  nc_TrustedProxyCIDRs :: "IPNet list"

record NginxEvent =
  ne_Timestamp :: instant
  ne_RemoteIP :: string
  ne_Method :: string
  ne_Path :: string
  ne_Status :: int
  ne_UserAgent :: string
  ne_Raw :: string
  ne_RawHash :: string

definition httpStatusNotFound :: int where
  "httpStatusNotFound = 404"

text \<open>An INTEGER column or parameter accepts 32-bit values only.\<close>

abbreviation fits_int4 :: "int \<Rightarrow> bool" where
  "fits_int4 n \<equiv> int4_ok (Some n)"

section \<open>Flagging\<close>

definition flagSecurityOffender :: "lib \<Rightarrow> faults \<Rightarrow> instant \<Rightarrow> NginxEvent \<Rightarrow> string \<Rightarrow> int \<Rightarrow> db \<Rightarrow> db result" where
  "flagSecurityOffender L flt now ev reason attempts d =
    (case flt FlagOffender of Some x \<Rightarrow> Inl x
     | None \<Rightarrow>
        if \<not> (fits_int4 attempts \<and> list_all (pg_text_ok L) [ne_RemoteIP ev, reason, ne_Path ev])
        then Inl ''invalid column value''
        else let ts = pg_time L (ne_Timestamp ev) in
          Inr (d\<lparr>security_offenders := upsert or_remote_ip
            \<lparr>or_remote_ip = ne_RemoteIP ev, or_reason = reason, or_first_seen_at = ts, or_last_seen_at = ts,
             or_attempt_count = attempts, or_last_path = ne_Path ev, or_flagged = True, or_dismissed_at = None,
             or_updated_at = now\<rparr>
            (\<lambda>r. r\<lparr>or_reason := reason, or_last_seen_at := ts, or_attempt_count := attempts, or_last_path := ne_Path ev,
                 or_flagged := True, or_dismissed_at := None, or_updated_at := now\<rparr>)
            (security_offenders d)\<rparr>))"

section \<open>The streak of 404 responses\<close>

text \<open>
  The condition of the two CASE expressions: a 404 continues the streak when the last response to
  the address was a 404, time has not gone backwards, and the streak is still in its window (a
  comparison with NULL is not true).
\<close>

definition continues :: "lib \<Rightarrow> NginxSecurityConfig \<Rightarrow> instant \<Rightarrow> detection_row \<Rightarrow> bool" where
  "continues L cfg ts r \<longleftrightarrow> dr_last_status r = 404 \<and> ts \<ge> dr_last_seen_at r \<and>
    (case dr_streak_started_at r of None \<Rightarrow> False
     | Some s \<Rightarrow> ts \<le> s + pg_interval L (nc_Consecutive404Window cfg))"

definition bump_row :: "lib \<Rightarrow> NginxSecurityConfig \<Rightarrow> NginxEvent \<Rightarrow> detection_row \<Rightarrow> detection_row" where
  "bump_row L cfg ev r =
    (let ts = pg_time L (ne_Timestamp ev)
     in r\<lparr>dr_consecutive_404 := (if continues L cfg ts r then dr_consecutive_404 r + 1 else 1),
         dr_streak_started_at := (if continues L cfg ts r then dr_streak_started_at r else Some ts),
         dr_last_seen_at := ts, dr_last_status := ne_Status ev\<rparr>)"

definition first_row :: "lib \<Rightarrow> NginxEvent \<Rightarrow> detection_row" where
  "first_row L ev = (let ts = pg_time L (ne_Timestamp ev)
     in \<lparr>dr_remote_ip = ne_RemoteIP ev, dr_consecutive_404 = 1, dr_streak_started_at = Some ts,
         dr_last_seen_at = ts, dr_last_status = ne_Status ev\<rparr>)"

definition reset_row :: "lib \<Rightarrow> NginxEvent \<Rightarrow> detection_row \<Rightarrow> detection_row" where
  "reset_row L ev r = r\<lparr>dr_consecutive_404 := 0, dr_streak_started_at := None,
     dr_last_seen_at := pg_time L (ne_Timestamp ev), dr_last_status := ne_Status ev\<rparr>"

text \<open>The number of authentication failures of the address in the window that ends at the event.\<close>

definition auth_failure :: "nginx_event_row \<Rightarrow> bool" where
  "auth_failure r \<longleftrightarrow> nr_status r = 401 \<or> nr_status r = 403"

definition count_failures :: "lib \<Rightarrow> NginxSecurityConfig \<Rightarrow> NginxEvent \<Rightarrow> db \<Rightarrow> int" where
  "count_failures L cfg ev d = int (length (filter (\<lambda>r. nr_remote_ip r = ne_RemoteIP ev \<and> auth_failure r
     \<and> pg_time L (ne_Timestamp ev - nc_AuthFailureWindow cfg) \<le> nr_ts_utc r
     \<and> nr_ts_utc r \<le> pg_time L (ne_Timestamp ev)) (nginx_security_events d)))"

definition updateNginxDetection :: "lib \<Rightarrow> faults \<Rightarrow> instant \<Rightarrow> NginxEvent \<Rightarrow> NginxSecurityConfig \<Rightarrow> db \<Rightarrow> db result" where
  "updateNginxDetection L flt now ev cfg d =
    (if ne_Status ev = httpStatusNotFound then
       (case flt UpsertStreak of Some x \<Rightarrow> Inl (''update 404 streak: '' @ x)
        | None \<Rightarrow>
          let consecutive = (case select_by dr_remote_ip (ne_RemoteIP ev) (nginx_ip_detection_state d) of
                None \<Rightarrow> 1 | Some r \<Rightarrow> dr_consecutive_404 (bump_row L cfg ev r));
              d1 = d\<lparr>nginx_ip_detection_state := upsert dr_remote_ip (first_row L ev) (bump_row L cfg ev)
                       (nginx_ip_detection_state d)\<rparr>
          in if \<not> (fits_int4 consecutive \<and> pg_text_ok L (ne_RemoteIP ev)) then Inl ''update 404 streak: invalid column value''
             else if consecutive \<ge> nc_Consecutive404Threshold cfg
             then flagSecurityOffender L flt now ev ''consecutive_404'' consecutive d1
             else Inr d1)
     else
       (case flt ResetStreak of Some x \<Rightarrow> Inl (''reset 404 streak: '' @ x)
        | None \<Rightarrow>
          if \<not> (fits_int4 (ne_Status ev) \<and> pg_text_ok L (ne_RemoteIP ev)) then Inl ''reset 404 streak: invalid column value''
          else
            let d1 = d\<lparr>nginx_ip_detection_state :=
                  update_where (\<lambda>r. dr_remote_ip r = ne_RemoteIP ev) (reset_row L ev) (nginx_ip_detection_state d)\<rparr>
            in if ne_Status ev = 401 \<or> ne_Status ev = 403 then
                 (case flt CountAuthFailures of Some x \<Rightarrow> Inl (''count auth failures: '' @ x)
                  | None \<Rightarrow>
                     let attempts = count_failures L cfg ev d1
                     in if attempts \<ge> nc_AuthFailureThreshold cfg
                        then flagSecurityOffender L flt now ev ''authentication_failures'' attempts d1
                        else Inr d1)
               else Inr d1))"

section \<open>One request, one database transaction\<close>

definition suspicious :: "NginxEvent \<Rightarrow> bool" where
  "suspicious ev \<longleftrightarrow> ne_Status ev = 401 \<or> ne_Status ev = 403 \<or> ne_Status ev = httpStatusNotFound"

definition event_row :: "lib \<Rightarrow> int \<Rightarrow> NginxEvent \<Rightarrow> nginx_event_row" where
  "event_row L i ev = \<lparr>nr_id = i, nr_ts_utc = pg_time L (ne_Timestamp ev), nr_remote_ip = ne_RemoteIP ev,
     nr_method = ne_Method ev, nr_path = ne_Path ev, nr_status = ne_Status ev, nr_user_agent = ne_UserAgent ev,
     nr_raw = ne_Raw ev, nr_raw_hash = ne_RawHash ev\<rparr>"

definition event_texts :: "NginxEvent \<Rightarrow> string list" where
  "event_texts ev = [ne_RemoteIP ev, ne_Method ev, ne_Path ev, ne_UserAgent ev, ne_Raw ev, ne_RawHash ev]"

definition insert_event :: "lib \<Rightarrow> faults \<Rightarrow> NginxEvent \<Rightarrow> db \<Rightarrow> db result" where
  "insert_event L flt ev d =
    (if suspicious ev then
       (case flt InsertNginxEvent of Some x \<Rightarrow> Inl (''insert nginx event: '' @ x)
        | None \<Rightarrow>
           if \<not> list_all (pg_text_ok L) (event_texts ev) then Inl ''insert nginx event: invalid column value''
           else Inr (d\<lparr>nginx_security_events := nginx_security_events d @ [event_row L (nginx_security_events_seq d) ev],
                       nginx_security_events_seq := nginx_security_events_seq d + 1\<rparr>))
     else Inr d)"

definition persist_event :: "lib \<Rightarrow> faults \<Rightarrow> instant \<Rightarrow> NginxEvent option \<Rightarrow> NginxSecurityConfig \<Rightarrow> db \<Rightarrow> db result" where
  "persist_event L flt now event cfg d =
    (case event of None \<Rightarrow> Inr d
     | Some ev \<Rightarrow>
        (case insert_event L flt ev d of Inl x \<Rightarrow> Inl x
         | Inr d1 \<Rightarrow>
            if ne_Status ev \<noteq> httpStatusNotFound \<or> \<not> nc_IgnoredPaths cfg (ne_Path ev)
            then updateNginxDetection L flt now ev cfg d1
            else Inr d1))"

definition persistNginxEvent :: "lib \<Rightarrow> faults \<Rightarrow> instant \<Rightarrow> string \<Rightarrow> lineRecord \<Rightarrow> NginxEvent option
    \<Rightarrow> NginxSecurityConfig \<Rightarrow> db \<Rightarrow> db result" where
  "persistNginxEvent L flt now stateKey rc event cfg d =
    (case flt Begin of Some x \<Rightarrow> Inl x
     | None \<Rightarrow>
      (case persist_event L flt now event cfg d of Inl x \<Rightarrow> Inl x
       | Inr d1 \<Rightarrow>
          (case setIngestStateTx flt now stateKey (lr_Offset rc) (lr_Inode rc) d1 of
             Inl x \<Rightarrow> Inl (''save nginx checkpoint: '' @ x)
           | Inr d2 \<Rightarrow> (case flt Commit of Some x \<Rightarrow> Inl x | None \<Rightarrow> Inr d2))))"

section \<open>What a persisted request changes\<close>

definition ev_ts :: "lib \<Rightarrow> NginxEvent \<Rightarrow> instant" where
  "ev_ts L ev = pg_time L (ne_Timestamp ev)"

text \<open>404 responses for an ignored path do not take part in the detection.\<close>

definition relevant :: "NginxSecurityConfig \<Rightarrow> NginxEvent \<Rightarrow> bool" where
  "relevant cfg ev \<longleftrightarrow> ne_Status ev \<noteq> 404 \<or> \<not> nc_IgnoredPaths cfg (ne_Path ev)"

definition streak_row :: "string \<Rightarrow> db \<Rightarrow> detection_row option" where
  "streak_row ip d = select_by dr_remote_ip ip (nginx_ip_detection_state d)"

definition offender :: "string \<Rightarrow> db \<Rightarrow> offender_row option" where
  "offender ip d = select_by or_remote_ip ip (security_offenders d)"

definition next_row :: "lib \<Rightarrow> NginxSecurityConfig \<Rightarrow> NginxEvent \<Rightarrow> detection_row option \<Rightarrow> detection_row option" where
  "next_row L cfg ev r =
    (if ne_Status ev = 404 then Some (case r of None \<Rightarrow> first_row L ev | Some q \<Rightarrow> bump_row L cfg ev q)
     else map_option (reset_row L ev) r)"

text \<open>The reason and the number an event flags its address with, if it does.\<close>

definition verdict :: "lib \<Rightarrow> NginxSecurityConfig \<Rightarrow> NginxEvent \<Rightarrow> db \<Rightarrow> (string \<times> int) option" where
  "verdict L cfg ev d' =
    (if \<not> relevant cfg ev then None
     else if ne_Status ev = 404 then
       (case streak_row (ne_RemoteIP ev) d' of
          Some r \<Rightarrow> if dr_consecutive_404 r \<ge> nc_Consecutive404Threshold cfg
                   then Some (''consecutive_404'', dr_consecutive_404 r) else None
        | None \<Rightarrow> None)
     else if ne_Status ev = 401 \<or> ne_Status ev = 403 then
       (if count_failures L cfg ev d' \<ge> nc_AuthFailureThreshold cfg
        then Some (''authentication_failures'', count_failures L cfg ev d') else None)
     else None)"

definition flagged_row :: "lib \<Rightarrow> NginxEvent \<Rightarrow> string \<Rightarrow> int \<Rightarrow> offender_row \<Rightarrow> bool" where
  "flagged_row L ev reason n r \<longleftrightarrow> or_remote_ip r = ne_RemoteIP ev \<and> or_reason r = reason \<and> or_attempt_count r = n
     \<and> or_last_seen_at r = ev_ts L ev \<and> or_last_path r = ne_Path ev \<and> or_flagged r \<and> or_dismissed_at r = None"

lemma row_keys [simp]:
  "dr_remote_ip (bump_row L cfg ev r) = dr_remote_ip r" "dr_remote_ip (reset_row L ev r) = dr_remote_ip r"
  "dr_remote_ip (first_row L ev) = ne_RemoteIP ev"
  by (simp_all add: bump_row_def reset_row_def first_row_def Let_def)

lemma flagSecurityOffender_effect:
  assumes "flagSecurityOffender L flt now ev reason n d = Inr d'"
  shows "ip \<noteq> ne_RemoteIP ev \<Longrightarrow> offender ip d' = offender ip d"
    and "\<exists>r. offender (ne_RemoteIP ev) d' = Some r \<and> flagged_row L ev reason n r"
    and "d'\<lparr>security_offenders := []\<rparr> = d\<lparr>security_offenders := []\<rparr>"
    and "pk_ok or_remote_ip (security_offenders d) \<Longrightarrow> pk_ok or_remote_ip (security_offenders d')"
  using assms
  by (auto simp: flagSecurityOffender_def Let_def offender_def select_by_upsert flagged_row_def ev_ts_def pk_ok_upsert
      dest: select_by_key split: option.splits if_splits)

text \<open>
  The effect of the detection on the two tables it keeps: the streak rows, and an offender row
  exactly when there is a verdict.
\<close>

definition det_effect :: "lib \<Rightarrow> NginxSecurityConfig \<Rightarrow> NginxEvent \<Rightarrow> db \<Rightarrow> db \<Rightarrow> bool" where
  "det_effect L cfg ev d d' \<longleftrightarrow>
     (\<forall>ip. streak_row ip d' = (if ip = ne_RemoteIP ev \<and> relevant cfg ev then next_row L cfg ev (streak_row ip d) else streak_row ip d))
   \<and> (\<forall>ip. (ip = ne_RemoteIP ev \<and> verdict L cfg ev d' \<noteq> None) \<or> offender ip d' = offender ip d)
   \<and> (\<forall>reason n. verdict L cfg ev d' = Some (reason, n) \<longrightarrow>
        (\<exists>r. offender (ne_RemoteIP ev) d' = Some r \<and> flagged_row L ev reason n r))"

lemma count_failures_cong:
  "nginx_security_events d = nginx_security_events d' \<Longrightarrow> count_failures L cfg ev d = count_failures L cfg ev d'"
  by (simp add: count_failures_def)

lemma updateNginxDetection_effect:
  assumes "updateNginxDetection L flt now ev cfg d = Inr d'" and "relevant cfg ev"
  shows "det_effect L cfg ev d d'"
    and "d'\<lparr>security_offenders := [], nginx_ip_detection_state := []\<rparr> = d\<lparr>security_offenders := [], nginx_ip_detection_state := []\<rparr>"
proof -
  define rows where "rows = (if ne_Status ev = 404
      then upsert dr_remote_ip (first_row L ev) (bump_row L cfg ev) (nginx_ip_detection_state d)
      else update_where (\<lambda>r. dr_remote_ip r = ne_RemoteIP ev) (reset_row L ev) (nginx_ip_detection_state d))"
  define d1 where "d1 = d\<lparr>nginx_ip_detection_state := rows\<rparr>"
  have st: "streak_row ip d1 = (if ip = ne_RemoteIP ev then next_row L cfg ev (streak_row ip d) else streak_row ip d)" for ip
    by (auto simp: streak_row_def d1_def rows_def next_row_def select_by_upsert select_by_update_key)
  have ev1: "nginx_security_events d1 = nginx_security_events d" by (simp add: d1_def)
  have step: "case verdict L cfg ev d1 of None \<Rightarrow> d' = d1
      | Some (reason, n) \<Rightarrow> flagSecurityOffender L flt now ev reason n d1 = Inr d'"
  proof (cases "ne_Status ev = 404")
    case True
    define c where "c = (case select_by dr_remote_ip (ne_RemoteIP ev) (nginx_ip_detection_state d) of
        None \<Rightarrow> 1 | Some r \<Rightarrow> dr_consecutive_404 (bump_row L cfg ev r))"
    have "\<exists>r. streak_row (ne_RemoteIP ev) d1 = Some r \<and> dr_consecutive_404 r = c"
      using st[of "ne_RemoteIP ev"] True
      by (auto simp: next_row_def streak_row_def c_def first_row_def Let_def split: option.splits)
    then have ver: "verdict L cfg ev d1 = (if c \<ge> nc_Consecutive404Threshold cfg then Some (''consecutive_404'', c) else None)"
      using True assms(2) by (auto simp: verdict_def)
    have "(if c \<ge> nc_Consecutive404Threshold cfg then flagSecurityOffender L flt now ev ''consecutive_404'' c d1 else Inr d1) = Inr d'"
      using assms(1) True unfolding updateNginxDetection_def Let_def httpStatusNotFound_def c_def[symmetric] d1_def rows_def
      by (simp split: option.splits if_split_asm)
    then show ?thesis unfolding ver by (auto split: if_splits)
  next
    case False
    have "(if ne_Status ev = 401 \<or> ne_Status ev = 403 then
        (if count_failures L cfg ev d1 \<ge> nc_AuthFailureThreshold cfg
         then flagSecurityOffender L flt now ev ''authentication_failures'' (count_failures L cfg ev d1) d1 else Inr d1)
        else Inr d1) = Inr d'"
      using assms(1) False unfolding updateNginxDetection_def Let_def httpStatusNotFound_def d1_def rows_def
      by (auto split: option.splits if_split_asm)
    then show ?thesis using False assms(2) by (auto simp: verdict_def split: if_split_asm)
  qed
  have v: "verdict L cfg ev d' = verdict L cfg ev d1"
    if "d'\<lparr>security_offenders := []\<rparr> = d1\<lparr>security_offenders := []\<rparr>"
    using arg_cong[OF that, of nginx_ip_detection_state] arg_cong[OF that, of nginx_security_events]
    by (simp add: verdict_def streak_row_def count_failures_def)
  have off: "d'\<lparr>security_offenders := []\<rparr> = d1\<lparr>security_offenders := []\<rparr>"
    using step flagSecurityOffender_effect(3) by (auto split: option.splits)
  have row: "streak_row ip d' = streak_row ip d1" for ip
    using arg_cong[OF off, of nginx_ip_detection_state] by (simp add: streak_row_def)
  have o1: "offender ip d1 = offender ip d" for ip by (simp add: offender_def d1_def)
  show "det_effect L cfg ev d d'"
  proof (cases "verdict L cfg ev d1")
    case None
    then show ?thesis using step v[OF off] assms(2) by (simp add: det_effect_def row st o1)
  next
    case (Some w)
    then have "flagSecurityOffender L flt now ev (fst w) (snd w) d1 = Inr d'" using step by (cases w) simp
    note fl = flagSecurityOffender_effect[OF this]
    show ?thesis using Some fl(2) fl(1)[unfolded o1] v[OF off] assms(2)
      by (auto simp: det_effect_def row st)
  qed
  show "d'\<lparr>security_offenders := [], nginx_ip_detection_state := []\<rparr> = d\<lparr>security_offenders := [], nginx_ip_detection_state := []\<rparr>"
    using arg_cong[OF off, of "\<lambda>d. d\<lparr>nginx_ip_detection_state := []\<rparr>"] by (simp add: d1_def)
qed

definition new_events :: "lib \<Rightarrow> NginxEvent option \<Rightarrow> int \<Rightarrow> nginx_event_row list" where
  "new_events L event i = (case event of None \<Rightarrow> [] | Some ev \<Rightarrow> if suspicious ev then [event_row L i ev] else [])"

lemma insert_event_effect:
  assumes "insert_event L flt ev d = Inr d'"
  shows "nginx_security_events d' = nginx_security_events d @ new_events L (Some ev) (nginx_security_events_seq d)"
    and "d'\<lparr>nginx_security_events := [], nginx_security_events_seq := 0\<rparr> = d\<lparr>nginx_security_events := [], nginx_security_events_seq := 0\<rparr>"
    and "suspicious ev \<Longrightarrow> list_all (pg_text_ok L) (event_texts ev)"
  using assms by (auto simp: insert_event_def new_events_def split: option.splits if_splits)

lemma persist_event_effect:
  assumes "persist_event L flt now (Some ev) cfg d = Inr d'"
  shows "det_effect L cfg ev d d'"
    and "nginx_security_events d' = nginx_security_events d @ new_events L (Some ev) (nginx_security_events_seq d)"
    and "ingest_state_tbl d' = ingest_state_tbl d"
    and "suspicious ev \<Longrightarrow> list_all (pg_text_ok L) (event_texts ev)"
proof -
  obtain d1 where i: "insert_event L flt ev d = Inr d1"
    and u: "if relevant cfg ev then updateNginxDetection L flt now ev cfg d1 = Inr d' else d' = d1"
    using assms by (auto simp: persist_event_def relevant_def httpStatusNotFound_def split: sum.splits if_splits)
  note ie = insert_event_effect[OF i]
  have same: "nginx_ip_detection_state d1 = nginx_ip_detection_state d" "security_offenders d1 = security_offenders d"
      "ingest_state_tbl d1 = ingest_state_tbl d"
    using arg_cong[OF ie(2), of nginx_ip_detection_state] arg_cong[OF ie(2), of security_offenders]
      arg_cong[OF ie(2), of ingest_state_tbl] by simp_all
  have "det_effect L cfg ev d1 d' \<and> nginx_security_events d' = nginx_security_events d1 \<and> ingest_state_tbl d' = ingest_state_tbl d1"
  proof (cases "relevant cfg ev")
    case True
    then have up: "updateNginxDetection L flt now ev cfg d1 = Inr d'" using u by simp
    note e = updateNginxDetection_effect[OF up True]
    show ?thesis using e(1) arg_cong[OF e(2), of nginx_security_events] arg_cong[OF e(2), of ingest_state_tbl] by simp
  next
    case False
    then show ?thesis using u by (simp add: det_effect_def verdict_def)
  qed
  then show "det_effect L cfg ev d d'"
    and "nginx_security_events d' = nginx_security_events d @ new_events L (Some ev) (nginx_security_events_seq d)"
    and "ingest_state_tbl d' = ingest_state_tbl d"
    using same ie(1) by (simp_all add: det_effect_def streak_row_def offender_def)
  show "suspicious ev \<Longrightarrow> list_all (pg_text_ok L) (event_texts ev)" by (rule ie(3))
qed

lemma persistNginxEvent_effect:
  assumes "persistNginxEvent L flt now key rc event cfg d = Inr d'"
  shows "event = Some ev \<Longrightarrow> det_effect L cfg ev d d'"
    and "event = None \<Longrightarrow> streak_row ip d' = streak_row ip d \<and> offender ip d' = offender ip d"
    and "nginx_security_events d' = nginx_security_events d @ new_events L event (nginx_security_events_seq d)"
    and "checkpoint k d' = (if k = key then \<lparr>OffsetBytes = lr_Offset rc, Inode = lr_Inode rc\<rparr> else checkpoint k d)"
    and "pk_ok ir_key (ingest_state_tbl d) \<Longrightarrow> pk_ok ir_key (ingest_state_tbl d')"
    and "event = Some ev \<Longrightarrow> suspicious ev \<Longrightarrow> list_all (pg_text_ok L) (event_texts ev)"
proof -
  obtain d1 where p: "persist_event L flt now event cfg d = Inr d1"
    and s: "setIngestStateTx flt now key (lr_Offset rc) (lr_Inode rc) d1 = Inr d'"
    using assms by (auto simp: persistNginxEvent_def split: option.splits sum.splits)
  note c = setIngestStateTx_effect[OF s]
  have same: "nginx_ip_detection_state d' = nginx_ip_detection_state d1" "security_offenders d' = security_offenders d1"
      "nginx_security_events d' = nginx_security_events d1"
    using arg_cong[OF c(3), of nginx_ip_detection_state] arg_cong[OF c(3), of security_offenders]
      arg_cong[OF c(3), of nginx_security_events] by simp_all
  then have ver: "verdict L cfg e d' = verdict L cfg e d1" for e
    by (simp add: verdict_def streak_row_def count_failures_def)
  have none: "event = None \<Longrightarrow> d1 = d" using p by (simp add: persist_event_def)
  show "det_effect L cfg ev d d'" if "event = Some ev"
    using persist_event_effect(1)[OF p[unfolded that]] same ver by (simp add: det_effect_def streak_row_def offender_def)
  show "event = None \<Longrightarrow> streak_row ip d' = streak_row ip d \<and> offender ip d' = offender ip d"
    using none same by (simp add: streak_row_def offender_def)
  show "nginx_security_events d' = nginx_security_events d @ new_events L event (nginx_security_events_seq d)"
    using persist_event_effect(2)[of L flt now _ cfg d d1] p none same by (cases event) (simp_all add: new_events_def)
  have tbl: "ingest_state_tbl d1 = ingest_state_tbl d"
    using persist_event_effect(3)[of L flt now _ cfg d d1] p none by (cases event) simp_all
  show "checkpoint k d' = (if k = key then \<lparr>OffsetBytes = lr_Offset rc, Inode = lr_Inode rc\<rparr> else checkpoint k d)"
    using c(1) tbl by (simp add: checkpoint_def)
  show "pk_ok ir_key (ingest_state_tbl d) \<Longrightarrow> pk_ok ir_key (ingest_state_tbl d')" using c(2) tbl by simp
  show "event = Some ev \<Longrightarrow> suspicious ev \<Longrightarrow> list_all (pg_text_ok L) (event_texts ev)"
    using persist_event_effect(4)[of L flt now ev cfg d d1] p by simp
qed

section \<open>A run of requests\<close>

text \<open>A request to persist: the faults and the clock of its transaction, its line and its event.\<close>

type_synonym nginx_item = "faults \<times> instant \<times> lineRecord \<times> NginxEvent option"

definition persist_item :: "lib \<Rightarrow> string \<Rightarrow> NginxSecurityConfig \<Rightarrow> nginx_item \<Rightarrow> db \<Rightarrow> db result" where
  "persist_item L key cfg = (\<lambda>(flt, now, rc, event). persistNginxEvent L flt now key rc event cfg)"

definition item_event :: "nginx_item \<Rightarrow> NginxEvent option" where
  "item_event x = snd (snd (snd x))"

text \<open>The requests of an address that take part in the detection.\<close>

definition events_of :: "NginxSecurityConfig \<Rightarrow> string \<Rightarrow> nginx_item list \<Rightarrow> NginxEvent list" where
  "events_of cfg ip xs = filter (\<lambda>ev. ne_RemoteIP ev = ip \<and> relevant cfg ev) (List.map_filter item_event xs)"

lemma events_of_simps [simp]:
  "events_of cfg ip [] = []"
  "events_of cfg ip (xs @ ys) = events_of cfg ip xs @ events_of cfg ip ys"
  "events_of cfg ip [x] = (case item_event x of None \<Rightarrow> [] | Some ev \<Rightarrow> if ne_RemoteIP ev = ip \<and> relevant cfg ev then [ev] else [])"
  by (auto simp: events_of_def map_filter_def split: option.splits)

lemma persist_item_row:
  assumes "persist_item L key cfg x d = Inr d'"
  shows "streak_row ip d' = fold (next_row L cfg) (events_of cfg ip [x]) (streak_row ip d)"
proof -
  obtain flt now rc event where x: "x = (flt, now, rc, event)" by (cases x) auto
  note e = persistNginxEvent_effect[OF assms[unfolded x persist_item_def, simplified]]
  show ?thesis using e(1) e(2)[of ip] by (cases event) (auto simp: x item_event_def det_effect_def)
qed

section \<open>Streaks\<close>

text \<open>
  The specification: the current streak of an address is the list of its last 404 responses. A
  404 extends it when it is not older than the streak's last and in the window of its first, and starts a
  new one otherwise; any other response ends it.
\<close>

definition streak_step :: "lib \<Rightarrow> NginxSecurityConfig \<Rightarrow> NginxEvent \<Rightarrow> NginxEvent list \<Rightarrow> NginxEvent list" where
  "streak_step L cfg ev s =
    (if ne_Status ev \<noteq> 404 then []
     else if s \<noteq> [] \<and> ev_ts L (last s) \<le> ev_ts L ev
       \<and> ev_ts L ev \<le> ev_ts L (hd s) + pg_interval L (nc_Consecutive404Window cfg)
     then s @ [ev] else [ev])"

definition streak :: "lib \<Rightarrow> NginxSecurityConfig \<Rightarrow> NginxEvent list \<Rightarrow> NginxEvent list" where
  "streak L cfg es = fold (streak_step L cfg) es []"

text \<open>A streak row represents a streak.\<close>

definition streak_rep :: "lib \<Rightarrow> NginxEvent list \<Rightarrow> detection_row option \<Rightarrow> bool" where
  "streak_rep L s r \<longleftrightarrow>
    (case r of None \<Rightarrow> s = []
     | Some q \<Rightarrow> dr_consecutive_404 q = int (length s)
        \<and> (s = [] \<longrightarrow> dr_last_status q \<noteq> 404 \<and> dr_streak_started_at q = None)
        \<and> (s \<noteq> [] \<longrightarrow> dr_last_status q = 404 \<and> dr_streak_started_at q = Some (ev_ts L (hd s))
              \<and> dr_last_seen_at q = ev_ts L (last s)))"

lemma streak_rep_step: "streak_rep L s r \<Longrightarrow> streak_rep L (streak_step L cfg ev s) (next_row L cfg ev r)"
  by (cases "ne_Status ev = 404"; cases r)
    (auto simp: streak_rep_def streak_step_def next_row_def first_row_def bump_row_def reset_row_def continues_def
      ev_ts_def Let_def hd_append)

lemma streak_rep_fold:
  "streak_rep L s r \<Longrightarrow> streak_rep L (fold (streak_step L cfg) es s) (fold (next_row L cfg) es r)"
  by (induction es arbitrary: s r) (auto intro: streak_rep_step)

text \<open>A streak is a block of consecutive 404 responses at the end, in time order and in the window.\<close>

definition streak_ok :: "lib \<Rightarrow> NginxSecurityConfig \<Rightarrow> NginxEvent list \<Rightarrow> NginxEvent list \<Rightarrow> bool" where
  "streak_ok L cfg es s \<longleftrightarrow> suffix s es \<and> list_all (\<lambda>ev. ne_Status ev = 404) s \<and> sorted (map (ev_ts L) s)
     \<and> (\<forall>ev \<in> set (tl s). ev_ts L ev \<le> ev_ts L (hd s) + pg_interval L (nc_Consecutive404Window cfg))"

lemma sorted_snoc:
  assumes "sorted (map f s)" and "s \<noteq> []" and "f (last s) \<le> f x"
  shows "sorted (map f (s @ [x]))"
proof -
  obtain t y where s: "s = t @ [y]" using assms(2) by (cases s rule: rev_cases) auto
  then show ?thesis using assms by (auto simp: sorted_append intro: order_trans)
qed

lemma streak_ok_step: "streak_ok L cfg es s \<Longrightarrow> streak_ok L cfg (es @ [ev]) (streak_step L cfg ev s)"
proof -
  assume ok: "streak_ok L cfg es s"
  show ?thesis
  proof (cases "ne_Status ev = 404 \<and> s \<noteq> [] \<and> ev_ts L (last s) \<le> ev_ts L ev
      \<and> ev_ts L ev \<le> ev_ts L (hd s) + pg_interval L (nc_Consecutive404Window cfg)")
    case True
    then show ?thesis using ok sorted_snoc[of "ev_ts L" s ev]
      by (auto simp: streak_ok_def streak_step_def hd_append suffix_def)
  next
    case False
    then show ?thesis by (auto simp: streak_ok_def streak_step_def suffix_def)
  qed
qed

lemma streak_ok: "streak_ok L cfg es (streak L cfg es)"
proof (induction es rule: rev_induct)
  case Nil
  then show ?case by (simp add: streak_ok_def streak_def)
next
  case (snoc ev es)
  then show ?case using streak_ok_step by (simp add: streak_def)
qed

text \<open>Conversely, such a block after a response that is not a 404 is the streak.\<close>

lemma streak_block:
  assumes "list_all (\<lambda>ev. ne_Status ev = 404) s" and "sorted (map (ev_ts L) s)"
    and "\<forall>ev \<in> set s. ev_ts L ev \<le> ev_ts L (hd s) + pg_interval L (nc_Consecutive404Window cfg)"
  shows "fold (streak_step L cfg) s [] = s"
  using assms
proof (induction s rule: rev_induct)
  case (snoc ev s)
  show ?case
  proof (cases "s = []")
    case False
    have "fold (streak_step L cfg) s [] = s" using snoc False by (simp add: sorted_append)
    moreover have "ev_ts L (last s) \<le> ev_ts L ev" using snoc.prems(2) False by (auto simp: sorted_append)
    moreover have "streak_step L cfg ev s = s @ [ev]"
      using snoc.prems False calculation(2) by (simp add: streak_step_def)
    ultimately show ?thesis by simp
  qed (use snoc.prems in \<open>simp add: streak_step_def\<close>)
qed simp

lemma streak_after_reset:
  assumes "es = [] \<or> ne_Status (last es) \<noteq> 404"
  shows "streak L cfg (es @ s) = fold (streak_step L cfg) s []"
proof (cases es rule: rev_cases)
  case (snoc t ev)
  then have "streak_step L cfg ev u = []" for u using assms by (simp add: streak_step_def)
  then show ?thesis using snoc by (simp add: streak_def)
qed (simp add: streak_def)

section \<open>The verdict on a list of requests\<close>

definition failures :: "lib \<Rightarrow> NginxSecurityConfig \<Rightarrow> NginxEvent list \<Rightarrow> nat" where
  "failures L cfg es = length (filter (\<lambda>ev. (ne_Status ev = 401 \<or> ne_Status ev = 403)
     \<and> pg_time L (ne_Timestamp (last es) - nc_AuthFailureWindow cfg) \<le> ev_ts L ev \<and> ev_ts L ev \<le> ev_ts L (last es)) es)"

text \<open>
  What the requests of one address up to and including the last one lead to: a reason and a
  number when the last request is a 404 and completes a long enough streak, or an authentication
  failure with enough of them in the window that ends with it.
\<close>

definition spec_verdict :: "lib \<Rightarrow> NginxSecurityConfig \<Rightarrow> NginxEvent list \<Rightarrow> (string \<times> int) option" where
  "spec_verdict L cfg es =
    (if es = [] then None
     else if ne_Status (last es) = 404 then
       (if int (length (streak L cfg es)) \<ge> nc_Consecutive404Threshold cfg
        then Some (''consecutive_404'', int (length (streak L cfg es))) else None)
     else if ne_Status (last es) = 401 \<or> ne_Status (last es) = 403 then
       (if int (failures L cfg es) \<ge> nc_AuthFailureThreshold cfg
        then Some (''authentication_failures'', int (failures L cfg es)) else None)
     else None)"

text \<open>
  The tables represent the requests of an address: its streak row and the times of its stored
  authentication failures.
\<close>

definition failure_times :: "string \<Rightarrow> db \<Rightarrow> instant list" where
  "failure_times ip d = map nr_ts_utc (filter (\<lambda>r. nr_remote_ip r = ip \<and> auth_failure r) (nginx_security_events d))"

definition det_state :: "lib \<Rightarrow> NginxSecurityConfig \<Rightarrow> string \<Rightarrow> NginxEvent list \<Rightarrow> db \<Rightarrow> bool" where
  "det_state L cfg ip es d \<longleftrightarrow> streak_rep L (streak L cfg es) (streak_row ip d)
     \<and> failure_times ip d = map (ev_ts L) (filter (\<lambda>ev. ne_Status ev = 401 \<or> ne_Status ev = 403) es)"

lemma det_state_start: "streak_row ip d = None \<Longrightarrow> nginx_security_events d = [] \<Longrightarrow> det_state L cfg ip [] d"
  by (simp add: det_state_def streak_def streak_rep_def failure_times_def)

lemma det_state_cong:
  "det_state L cfg ip es d \<Longrightarrow> nginx_ip_detection_state d' = nginx_ip_detection_state d \<Longrightarrow> nginx_security_events d' = nginx_security_events d
    \<Longrightarrow> det_state L cfg ip es d'"
  by (simp add: det_state_def streak_row_def failure_times_def)

lemma det_state_step:
  assumes "persist_item L key cfg x d = Inr d'" and "det_state L cfg ip es d"
  shows "det_state L cfg ip (es @ events_of cfg ip [x]) d'"
proof -
  obtain flt now rc event where x: "x = (flt, now, rc, event)" by (cases x) auto
  note e = persistNginxEvent_effect(3)[OF assms(1)[unfolded x persist_item_def, simplified]]
  have "failure_times ip d' = failure_times ip d @
      map (ev_ts L) (filter (\<lambda>ev. ne_Status ev = 401 \<or> ne_Status ev = 403) (events_of cfg ip [x]))"
    using e by (cases event) (auto simp: failure_times_def x item_event_def new_events_def suspicious_def event_row_def auth_failure_def
        relevant_def ev_ts_def httpStatusNotFound_def)
  moreover have "streak L cfg (es @ events_of cfg ip [x]) = fold (streak_step L cfg) (events_of cfg ip [x]) (streak L cfg es)"
    by (simp add: streak_def)
  ultimately show ?thesis
    using assms(2) streak_rep_fold persist_item_row[OF assms(1), of ip] by (simp add: det_state_def)
qed

lemma det_state_verdict:
  assumes "det_state L cfg (ne_RemoteIP ev) (es @ [ev]) d" and "relevant cfg ev"
  shows "verdict L cfg ev d = spec_verdict L cfg (es @ [ev])"
proof -
  let ?ip = "ne_RemoteIP ev" and ?es = "es @ [ev]"
  have cnt: "count_failures L cfg ev d = int (failures L cfg ?es)"
  proof -
    let ?in = "\<lambda>t. pg_time L (ne_Timestamp ev - nc_AuthFailureWindow cfg) \<le> t \<and> t \<le> ev_ts L ev"
    have "failures L cfg ?es = length (filter ?in (map (ev_ts L) (filter (\<lambda>ev. ne_Status ev = 401 \<or> ne_Status ev = 403) ?es)))"
      unfolding failures_def last_snoc by (simp add: filter_map comp_def conj_commute del: filter_append map_append)
    also have "\<dots> = length (filter ?in (failure_times ?ip d))"
      using assms(1) unfolding det_state_def by simp
    also have "int \<dots> = count_failures L cfg ev d"
      by (simp add: failure_times_def count_failures_def filter_map comp_def conj_commute conj_left_commute ev_ts_def)
    finally show ?thesis by simp
  qed
  show ?thesis
  proof (cases "ne_Status ev = 404")
    case True
    have "streak L cfg ?es \<noteq> []" using True by (simp add: streak_def streak_step_def)
    then obtain r where "streak_row ?ip d = Some r" "dr_consecutive_404 r = int (length (streak L cfg ?es))"
      using assms(1) by (auto simp: det_state_def streak_rep_def split: option.splits)
    then show ?thesis using True assms(2) by (simp add: verdict_def spec_verdict_def)
  next
    case False
    then show ?thesis using assms(2) cnt by (simp add: verdict_def spec_verdict_def)
  qed
qed

lemma item_cases:
  assumes "persist_item L key cfg x t = Inr d'"
  shows "(\<exists>ev. item_event x = Some ev \<and> ne_RemoteIP ev = ip \<and> relevant cfg ev \<and> events_of cfg ip [x] = [ev]
      \<and> det_effect L cfg ev t d')
    \<or> (events_of cfg ip [x] = [] \<and> offender ip d' = offender ip t)"
proof -
  obtain flt now rc event where x: "x = (flt, now, rc, event)" by (cases x) auto
  note e = persistNginxEvent_effect[OF assms[unfolded x persist_item_def, simplified]]
  show ?thesis
  proof (cases event)
    case None
    then show ?thesis using e(2)[of ip] x by (simp add: item_event_def)
  next
    case (Some ev)
    then have eff: "det_effect L cfg ev t d'" using e(1) by blast
    have "offender ip d' = offender ip t" if "\<not> (ip = ne_RemoteIP ev \<and> relevant cfg ev)"
    proof (cases "relevant cfg ev")
      case True
      then have "ip \<noteq> ne_RemoteIP ev" using that by simp
      then show ?thesis using eff unfolding det_effect_def by blast
    next
      case False
      then have "verdict L cfg ev d' = None" by (simp add: verdict_def)
      then show ?thesis using eff unfolding det_effect_def by blast
    qed
    then show ?thesis using Some x eff by (auto simp: item_event_def)
  qed
qed

text \<open>The prefix of a list of requests that last led to a verdict, and that verdict.\<close>

fun last_verdict :: "lib \<Rightarrow> NginxSecurityConfig \<Rightarrow> NginxEvent list \<Rightarrow> NginxEvent list \<Rightarrow> (NginxEvent \<times> string \<times> int) option" where
  "last_verdict L cfg seen [] = None"
| "last_verdict L cfg seen (ev # es) =
    (case last_verdict L cfg (seen @ [ev]) es of Some v \<Rightarrow> Some v
     | None \<Rightarrow> map_option (\<lambda>(reason, n). (ev, reason, n)) (spec_verdict L cfg (seen @ [ev])))"

lemma last_verdict_snoc:
  "last_verdict L cfg seen (es @ [ev]) =
    (case spec_verdict L cfg (seen @ es @ [ev]) of Some (reason, n) \<Rightarrow> Some (ev, reason, n)
     | None \<Rightarrow> last_verdict L cfg seen es)"
  by (induction es arbitrary: seen) (auto split: option.splits)

lemma last_verdict_None:
  "last_verdict L cfg seen es = None \<longleftrightarrow> (\<forall>p. p \<noteq> [] \<longrightarrow> prefix p es \<longrightarrow> spec_verdict L cfg (seen @ p) = None)"
proof (induction es rule: rev_induct)
  case (snoc ev es)
  then show ?case by (auto simp: last_verdict_snoc prefix_snoc split: option.splits)
qed auto

lemma last_verdict_Some:
  "last_verdict L cfg seen es = Some (ev, reason, n) \<Longrightarrow>
   \<exists>p. prefix (p @ [ev]) es \<and> spec_verdict L cfg (seen @ p @ [ev]) = Some (reason, n)"
proof (induction es rule: rev_induct)
  case (snoc e es)
  then show ?case by (auto simp: last_verdict_snoc split: option.splits)
qed simp

lemma offender_from:
  assumes "fold_result (persist_item L key cfg) xs d = Inr d'" and "det_state L cfg ip seen d"
  shows "(case last_verdict L cfg seen (events_of cfg ip xs) of
      None \<Rightarrow> offender ip d' = offender ip d
    | Some (ev, reason, n) \<Rightarrow> (\<exists>r. offender ip d' = Some r \<and> flagged_row L ev reason n r))
    \<and> det_state L cfg ip (seen @ events_of cfg ip xs) d'"
  using assms(1)
proof (induction xs arbitrary: d' rule: rev_induct)
  case Nil
  then show ?case using assms(2) by simp
next
  case (snoc x xs)
  from fold_result_snoc[OF snoc.prems] obtain t where t: "fold_result (persist_item L key cfg) xs d = Inr t"
    "persist_item L key cfg x t = Inr d'" by blast
  note IH = snoc.IH[OF t(1)]
  have st: "det_state L cfg ip (seen @ events_of cfg ip (xs @ [x])) d'"
    using det_state_step[OF t(2)] IH by (simp only: events_of_simps(2) append.assoc[symmetric])
  from item_cases[OF t(2), of ip] show ?case
  proof
    assume same: "events_of cfg ip [x] = [] \<and> offender ip d' = offender ip t"
    show ?thesis using IH st by (simp only: events_of_simps(2) same append_Nil2)
  next
    assume "\<exists>ev. item_event x = Some ev \<and> ne_RemoteIP ev = ip \<and> relevant cfg ev \<and> events_of cfg ip [x] = [ev]
      \<and> det_effect L cfg ev t d'"
    then obtain ev where ev: "ne_RemoteIP ev = ip" "relevant cfg ev" "events_of cfg ip [x] = [ev]"
      and eff: "det_effect L cfg ev t d'" by blast
    have es: "events_of cfg ip (xs @ [x]) = events_of cfg ip xs @ [ev]" using ev(3) by simp
    have v: "verdict L cfg ev d' = spec_verdict L cfg (seen @ events_of cfg ip xs @ [ev])"
      using det_state_verdict[of L cfg ev "seen @ events_of cfg ip xs" d'] st ev(1,2) unfolding es by simp
    have "case last_verdict L cfg seen (events_of cfg ip (xs @ [x])) of
        None \<Rightarrow> offender ip d' = offender ip d
      | Some (ev, reason, n) \<Rightarrow> (\<exists>r. offender ip d' = Some r \<and> flagged_row L ev reason n r)"
    proof (cases "verdict L cfg ev d'")
      case None
      then have same: "offender ip d' = offender ip t" using eff unfolding det_effect_def by blast
      show ?thesis using IH unfolding es last_verdict_snoc v[symmetric] None same by simp
    next
      case (Some w)
      then show ?thesis using eff ev(1) unfolding es last_verdict_snoc v[symmetric]
        by (cases w) (auto simp: det_effect_def)
    qed
    then show ?thesis using st by blast
  qed
qed

lemma offender_after:
  assumes "fold_result (persist_item L key cfg) xs d = Inr d'"
    and "streak_row ip d = None" and "nginx_security_events d = []"
  shows "case last_verdict L cfg [] (events_of cfg ip xs) of
      None \<Rightarrow> offender ip d' = offender ip d
    | Some (ev, reason, n) \<Rightarrow> (\<exists>r. offender ip d' = Some r \<and> flagged_row L ev reason n r)"
  using offender_from[OF assms(1) det_state_start[OF assms(2,3)]] by (rule conjunct1)


definition example_nginx :: NginxSecurityConfig where
  "example_nginx = \<lparr>nc_Path = ''/var/log/nginx/access.log'', nc_PollInterval = Second, nc_RotationDrainTimeout = Second,
    nc_Consecutive404Threshold = 2, nc_Consecutive404Window = 2 * Minute, nc_AuthFailureThreshold = 2,
    nc_AuthFailureWindow = 5 * Minute, nc_IgnoredPaths = (\<lambda>p. p = ''/robots.txt''), nc_TrustedProxyCIDRs = []\<rparr>"

definition example_event :: "instant \<Rightarrow> string \<Rightarrow> int \<Rightarrow> NginxEvent" where
  "example_event ts path status = \<lparr>ne_Timestamp = ts, ne_RemoteIP = ''203.0.113.9'', ne_Method = ''GET'', ne_Path = path,
    ne_Status = status, ne_UserAgent = [], ne_Raw = ''l'', ne_RawHash = ''h''\<rparr>"

definition example_items :: "nginx_item list" where
  "example_items = map (\<lambda>(ts, path). (no_faults, 5, \<lparr>lr_Sequence = 0, lr_Text = ''l'', lr_Inode = 7, lr_Offset = 2\<rparr>,
     Some (example_event ts path 404))) [(1000, ''/a''), (2000, ''/robots.txt''), (3000, ''/b'')]"

lemmas nginx_eval = persistNginxEvent_def persist_event_def insert_event_def updateNginxDetection_def
  flagSecurityOffender_def suspicious_def httpStatusNotFound_def event_texts_def setIngestStateTx_def
  bump_row_def first_row_def continues_def no_faults_def int4_ok_def Let_def

lemma example_items_run: "\<exists>d'. fold_result (persist_item example_lib ''k'' example_nginx) example_items empty_db = Inr d'"
  by (simp add: persist_item_def example_items_def example_event_def example_nginx_def nginx_eval example_lib_def empty_db_def
      duration_defs upsert_def update_where_def)

lemma example_items_events:
  "events_of example_nginx ''203.0.113.9'' example_items = [example_event 1000 ''/a'' 404, example_event 3000 ''/b'' 404]"
  by (simp add: events_of_def map_filter_def example_items_def item_event_def example_event_def relevant_def example_nginx_def)


text \<open>
  C18. A burst of 404 responses is caught, however the log interleaves it. When the requests of
  an address that take part in the detection end with a block of 404 responses (after a different
  response, or from the start), in time order and within the window of the first, and the block has
  at least the threshold length, the address is flagged with that count; requests of other
  addresses and 404 responses for ignored paths in between make no difference.
\<close>

theorem bruteforce_404_flagged:
  assumes "fold_result (persist_item L key cfg) xs d = Inr d'"
    and "streak_row ip d = None" and "nginx_security_events d = []"
    and "events_of cfg ip xs = pre @ s" and "pre = [] \<or> ne_Status (last pre) \<noteq> 404"
    and "\<forall>ev \<in> set s. ne_Status ev = 404" and "sorted (map (ev_ts L) s)"
    and "\<forall>ev \<in> set s. ev_ts L ev \<le> ev_ts L (hd s) + pg_interval L (nc_Consecutive404Window cfg)"
    and "0 < nc_Consecutive404Threshold cfg" and "nc_Consecutive404Threshold cfg \<le> int (length s)"
  shows "\<exists>r. offender ip d' = Some r \<and> or_flagged r \<and> or_dismissed_at r = None
    \<and> or_reason r = ''consecutive_404'' \<and> or_attempt_count r = int (length s)"
proof -
  obtain t ev where s: "s = t @ [ev]" using assms(9,10) by (cases s rule: rev_cases) auto
  have "streak L cfg (pre @ s) = s"
    using streak_after_reset[OF assms(5)] streak_block[of s L cfg] assms(6,7,8) by (simp add: list_all_iff)
  then have "spec_verdict L cfg (pre @ s) = Some (''consecutive_404'', int (length s))"
    using assms(6,10) s by (simp add: spec_verdict_def)
  then have "last_verdict L cfg [] (events_of cfg ip xs) = Some (ev, ''consecutive_404'', int (length s))"
    unfolding assms(4) s append_assoc[symmetric] last_verdict_snoc by simp
  with offender_after[OF assms(1-3)] show ?thesis by (auto simp: flagged_row_def)
qed

theorem bruteforce_404_flagged_witness:
  "\<exists>d' r. fold_result (persist_item example_lib ''k'' example_nginx) example_items empty_db = Inr d'
     \<and> offender ''203.0.113.9'' d' = Some r \<and> or_flagged r"
proof -
  obtain d' where d': "fold_result (persist_item example_lib ''k'' example_nginx) example_items empty_db = Inr d'"
    using example_items_run by blast
  have "events_of example_nginx ''203.0.113.9'' example_items = [] @ [example_event 1000 ''/a'' 404, example_event 3000 ''/b'' 404]"
    by (simp add: example_items_events)
  from bruteforce_404_flagged[OF d' _ _ this] d' show ?thesis
    by (auto simp: streak_row_def empty_db_def ev_ts_def example_event_def example_lib_def example_nginx_def duration_defs)
qed



section \<open>The access log is a checkpointed pipeline\<close>

interpretation nginx: checkpointed "\<lambda>d. pk_ok ir_key (ingest_state_tbl d)" "persist_item L key cfg" "checkpoint key"
  "\<lambda>(flt, now, rc, event). \<lparr>OffsetBytes = lr_Offset rc, Inode = lr_Inode rc\<rparr>"
  for L key cfg
  by unfold_locales (auto simp: persist_item_def persistNginxEvent_effect(4,5))

end
