(* ===== verification/Durations.thy ===== *)
theory Durations
  imports Prelude
begin

text \<open>
  Go's \<^verbatim>\<open>time.ParseDuration\<close>, with which the settings of \<^verbatim>\<open>src/main.go\<close> are read: a sign, then numbers
  with a unit each, with the overflow checks on 64-bit integers and the floating-point
  arithmetic of fractions.
\<close>

section \<open>Rounding to 53 bits\<close>

text \<open>The value of an exact result as a \<^verbatim>\<open>float64\<close>: 53 bits, to even when half way.\<close>

fun bit_length :: "nat \<Rightarrow> nat" where
  "bit_length n = (if n = 0 then 0 else Suc (bit_length (n div 2)))"

declare bit_length.simps [simp del]

definition round53 :: "nat \<Rightarrow> nat" where
  "round53 n =
    (let k = bit_length n - 53; q = n div 2 ^ k; r = n mod 2 ^ k; h = 2 ^ k div 2
     in (if k > 0 \<and> (r > h \<or> r = h \<and> odd q) then q + 1 else q) * 2 ^ k)"

text \<open>
  \<^verbatim>\<open>float64(f) * (float64(unit) / scale)\<close> truncated, where the scale is a power of ten: the quotient is
  computed with enough bits and a sticky bit, so that rounding it is exact.
\<close>

definition fraction_nanos :: "nat \<Rightarrow> nat \<Rightarrow> nat \<Rightarrow> nat" where
  "fraction_nanos f unit scale =
    (let s = 55 + bit_length scale;
         q = unit * 2 ^ s div scale * 2 + (if unit * 2 ^ s mod scale = 0 then 0 else 1)
     in round53 (round53 f * round53 q) div 2 ^ (s + 1))"

section \<open>Parsing\<close>

text \<open>\<^verbatim>\<open>leadingInt\<close>: the number of the leading digits, an error beyond \<open>2 ^ 63\<close>.\<close>

fun leadingInt :: "nat \<Rightarrow> string \<Rightarrow> (nat \<times> string) option" where
  "leadingInt x [] = Some (x, [])"
| "leadingInt x (c # s) =
    (case digit_val c of None \<Rightarrow> Some (x, c # s)
     | Some d \<Rightarrow> if x > 2 ^ 63 div 10 then None
                else let y = x * 10 + nat d in if y > 2 ^ 63 then None else leadingInt y s)"

text \<open>\<^verbatim>\<open>leadingFraction\<close>: digits that no longer fit are skipped.\<close>

fun leadingFraction :: "nat \<Rightarrow> nat \<Rightarrow> bool \<Rightarrow> string \<Rightarrow> nat \<times> nat \<times> string" where
  "leadingFraction x scale over [] = (x, scale, [])"
| "leadingFraction x scale over (c # s) =
    (case digit_val c of None \<Rightarrow> (x, scale, c # s)
     | Some d \<Rightarrow>
        if over \<or> x > (2 ^ 63 - 1) div 10 then leadingFraction x scale True s
        else let y = x * 10 + nat d
             in if y > 2 ^ 63 then leadingFraction x scale True s else leadingFraction y (scale * 10) False s)"

definition unitMap :: "string \<rightharpoonup> nat" where
  "unitMap = map_of [(''ns'', 1), (''us'', 1000), ([CHR 0xC2, CHR 0xB5, CHR ''s''], 1000), ([CHR 0xCE, CHR 0xBC, CHR ''s''], 1000),
     (''ms'', 1000000), (''s'', 1000000000), (''m'', 60000000000), (''h'', 3600000000000)]"

definition numeric :: "char \<Rightarrow> bool" where
  "numeric c \<longleftrightarrow> c = CHR ''.'' \<or> digit_val c \<noteq> None"

text \<open>The quoting of package \<^verbatim>\<open>time\<close>, for its error messages.\<close>

definition hex_nibble :: "nat \<Rightarrow> char" where
  "hex_nibble n = (if n < 10 then char_of (48 + n) else char_of (87 + n))"

definition time_quote :: "string \<Rightarrow> string" where
  "time_quote s = [CHR 0x22] @ concat (map (\<lambda>c. let n = of_char c :: nat in
     if n \<ge> 0x80 \<or> n < 0x20 then [CHR 0x5C, CHR ''x'', hex_nibble (n div 16), hex_nibble (n mod 16)]
     else if c = CHR 0x22 \<or> c = CHR 0x5C then [CHR 0x5C, c] else [c]) s) @ [CHR 0x22]"

definition invalid_duration :: "string \<Rightarrow> 'a result" where
  "invalid_duration orig = Inl (''time: invalid duration '' @ time_quote orig)"

text \<open>One number with its unit: the nanoseconds and the rest of the text.\<close>

definition duration_part :: "string \<Rightarrow> string \<Rightarrow> (nat \<times> string) result" where
  "duration_part orig s =
    (if \<not> numeric (hd s) then invalid_duration orig
     else case leadingInt 0 s of None \<Rightarrow> invalid_duration orig
     | Some (v, s1) \<Rightarrow>
        let pre = (length s \<noteq> length s1);
            dotted = (s1 \<noteq> [] \<and> hd s1 = CHR ''.'');
            (f, scale, s2) = (if dotted then leadingFraction 0 1 False (tl s1) else (0, 1, s1));
            post = (dotted \<and> length (tl s1) \<noteq> length s2);
            u = takeWhile (\<lambda>c. \<not> numeric c) s2
        in if \<not> pre \<and> \<not> post then invalid_duration orig
           else if u = [] then Inl (''time: missing unit in duration '' @ time_quote orig)
           else case unitMap u of None \<Rightarrow> Inl (''time: unknown unit '' @ time_quote u @ '' in duration '' @ time_quote orig)
           | Some unit \<Rightarrow>
              if v > 2 ^ 63 div unit then invalid_duration orig
              else let w = v * unit + (if f > 0 then fraction_nanos f unit scale else 0)
                   in if f > 0 \<and> w > 2 ^ 63 then invalid_duration orig else Inr (w, drop (length u) s2))"

lemma leadingInt_shorter: "leadingInt x s = Some (v, t) \<Longrightarrow> length t \<le> length s"
  by (induction s arbitrary: x) (auto simp: Let_def intro: le_SucI split: option.splits if_splits)

lemma leadingFraction_shorter: "leadingFraction x sc b s = (v, k, t) \<Longrightarrow> length t \<le> length s"
  by (induction s arbitrary: x sc b) (auto simp: Let_def intro: le_SucI split: option.splits if_splits)

lemma duration_part_progress:
  assumes "duration_part orig s = Inr (w, t)"
  shows "length t < length s"
proof -
  obtain v s1 where 1: "leadingInt 0 s = Some (v, s1)"
    using assms by (auto simp: duration_part_def invalid_duration_def split: if_splits option.splits)
  define dotted where "dotted = (s1 \<noteq> [] \<and> hd s1 = CHR ''.'')"
  obtain f scale s2 where 2: "(if dotted then leadingFraction 0 1 False (tl s1) else (0, 1, s1)) = (f, scale, s2)"
    using prod_cases3 by blast
  define u where "u = takeWhile (\<lambda>c. \<not> numeric c) s2"
  have u: "u \<noteq> []" "t = drop (length u) s2"
    using assms 1 2 unfolding dotted_def u_def
    by (auto simp: duration_part_def invalid_duration_def Let_def split: if_splits option.splits)
  have "length s2 \<le> length s1" using 2 leadingFraction_shorter[of 0 1 False "tl s1"] by (auto split: if_splits)
  moreover have "length u \<le> length s2" by (simp add: u_def length_takeWhile_le)
  ultimately show ?thesis using u leadingInt_shorter[OF 1] by (cases u) auto
qed

text \<open>The loop over the parts; \<open>d\<close> is the sum so far.\<close>

function duration_loop :: "string \<Rightarrow> nat \<Rightarrow> string \<Rightarrow> nat result" where
  "duration_loop orig d s =
    (if s = [] then Inr d
     else case duration_part orig s of Inl x \<Rightarrow> Inl x
     | Inr (v, t) \<Rightarrow> if d + v > 2 ^ 63 then invalid_duration orig else duration_loop orig (d + v) t)"
  by pat_completeness auto
termination by (relation "measure (\<lambda>(orig, d, s). length s)") (auto dest: duration_part_progress)

declare duration_loop.simps [simp del]

definition ParseDuration :: "string \<Rightarrow> duration result" where
  "ParseDuration orig =
    (let signed = (orig \<noteq> [] \<and> (hd orig = CHR ''-'' \<or> hd orig = CHR ''+''));
         neg = (orig \<noteq> [] \<and> hd orig = CHR ''-'');
         s = (if signed then tl orig else orig)
     in if s = ''0'' then Inr 0
        else if s = [] then invalid_duration orig
        else case duration_loop orig 0 s of Inl x \<Rightarrow> Inl x
        | Inr d \<Rightarrow> if neg then Inr (- int d)
                  else if d > 2 ^ 63 - 1 then invalid_duration orig else Inr (int d))"

section \<open>What it accepts\<close>

text \<open>The result is a \<^verbatim>\<open>time.Duration\<close>: a 64-bit integer.\<close>

lemma duration_loop_bound: "duration_loop orig d s = Inr r \<Longrightarrow> d \<le> 2 ^ 63 \<Longrightarrow> r \<le> 2 ^ 63"
proof (induction orig d s rule: duration_loop.induct)
  case (1 orig d s)
  then show ?case
    by (subst (asm) (2) duration_loop.simps) (auto simp: invalid_duration_def split: if_splits sum.splits prod.splits)
qed

lemma ParseDuration_bounds: "ParseDuration s = Inr d \<Longrightarrow> int64_min \<le> d \<and> d \<le> int64_max"
  by (auto simp: ParseDuration_def Let_def invalid_duration_def int64_defs dest!: duration_loop_bound split: if_splits sum.splits)

lemma digit_val_range: "digit_val c = Some d \<Longrightarrow> 0 \<le> d \<and> d \<le> 9"
  by (auto simp: digit_val_def Let_def split: if_splits)

lemma digits_acc_mono: "digits_acc a ds = Some r \<Longrightarrow> 0 \<le> a \<Longrightarrow> a \<le> r"
  by (induction ds arbitrary: a) (force dest: digit_val_range split: option.splits)+

lemma leadingInt_digits:
  assumes "digits_acc (int x) ds = Some (int n)" and "n \<le> 2 ^ 63" and "s = [] \<or> digit_val (hd s) = None"
  shows "leadingInt x (ds @ s) = Some (n, s)"
  using assms(1)
proof (induction ds arbitrary: x)
  case Nil
  then show ?case using assms(3) by (cases s) auto
next
  case (Cons c ds)
  then obtain d where d: "digit_val c = Some d" "digits_acc (10 * int x + d) ds = Some (int n)"
    by (auto split: option.splits)
  have nn: "10 * int x + d = int (x * 10 + nat d)" using digit_val_range[OF d(1)] by simp
  have "int (x * 10 + nat d) \<le> int n" using digits_acc_mono[OF d(2)] by (simp add: nn)
  then have "x * 10 + nat d \<le> 2 ^ 63" using assms(2) by linarith
  then show ?case using Cons.IH[OF d(2)[unfolded nn]] d(1) by (simp add: Let_def)
qed

lemma unit_text:
  assumes "unitMap u = Some k"
  shows "u \<noteq> []" "0 < k" "list_all (\<lambda>c. \<not> numeric c) u"
  using assms by (auto simp: unitMap_def numeric_def digit_val_def split: if_splits)

lemma numeric_digit: "digit_val c \<noteq> None \<Longrightarrow> numeric c"
  by (simp add: numeric_def)

lemma duration_part_whole:
  assumes "unitMap u = Some k" and "n * k \<le> 2 ^ 63"
  shows "duration_part orig (nat_digits n @ u) = Inr (n * k, [])"
proof -
  note u = unit_text[OF assms(1)]
  have hd: "numeric (hd (nat_digits n @ u))" using numeric_digit hd_nat_digits_digit by simp
  have nd: "digit_val (hd u) = None" "hd u \<noteq> CHR ''.''" using u(1,3) by (cases u; auto simp: numeric_def)+
  have "n \<le> n * k" using u(2) by simp
  then have "n \<le> 2 ^ 63" using assms(2) by linarith
  then have li: "leadingInt 0 (nat_digits n @ u) = Some (n, u)"
    using digits_acc_nat_digits[of n] nd(1) by (intro leadingInt_digits) simp_all
  have tw: "takeWhile (\<lambda>c. \<not> numeric c) u = u" using u(3) by (auto simp: list_all_iff)
  have "n \<le> 2 ^ 63 div k" using assms(2) u(2) by (simp only: less_eq_div_iff_mult_less_eq)
  then show ?thesis using hd li nd(2) u(1) assms(1)
    by (simp add: duration_part_def tw Let_def not_less del: power_numeral takeWhile_eq_all_conv)
qed

lemma ParseDuration_whole:
  assumes "unitMap u = Some k" and "n * k < 2 ^ 63"
  shows "ParseDuration (nat_digits n @ u) = Inr (int (n * k))"
proof -
  let ?s = "nat_digits n @ u"
  have "hd ?s \<noteq> CHR ''-''" "hd ?s \<noteq> CHR ''+''" using digit_plain hd_nat_digits_digit by auto
  moreover have "?s \<noteq> ''0''"
  proof
    assume "?s = ''0''"
    then have "length (nat_digits n) + length u = 1" by (metis length_append length_Cons list.size(3) One_nat_def add_0_left)
    then show False using unit_text(1)[OF assms(1)] by (cases "nat_digits n"; cases u) auto
  qed
  moreover have "duration_loop ?s 0 ?s = Inr (n * k)"
    using duration_part_whole[OF assms(1)] assms(2) by (simp add: duration_loop.simps)
  ultimately show ?thesis using assms(2) by (auto simp: ParseDuration_def)
qed

end
