(* ===== verification/Nginx.thy ===== *)
theory Nginx
  imports Detection Follower Regexp Timestamps Json Config Durations
begin

text \<open>
  Reading the Nginx access log (\<^verbatim>\<open>src/nginx_security.go\<close>): lines in the combined format or as JSON
  objects become events, the client address behind trusted proxies included, and the loop that
  follows the log persists every line with its checkpoint.
\<close>

section \<open>Go values of a JSON object\<close>

text \<open>
  A \<^verbatim>\<open>float64\<close> from its bits: sign, significand and exponent. \<open>f64_trunc\<close> is the conversion to an integer;
  Go leaves the result to the platform when the value is not a number or out of range (\<open>float_to_int\<close>).
\<close>

definition f64_sign :: "float64 \<Rightarrow> int" where
  "f64_sign f = (if unat f div 2 ^ 63 = 1 then - 1 else 1)"

definition f64_bexp :: "float64 \<Rightarrow> nat" where
  "f64_bexp f = unat f div 2 ^ 52 mod 2 ^ 11"

definition f64_mant :: "float64 \<Rightarrow> nat" where
  "f64_mant f = (if f64_bexp f = 0 then unat f mod 2 ^ 52 else 2 ^ 52 + unat f mod 2 ^ 52)"

text \<open>The magnitude is \<open>f64_mant f * 2 ^ e / 2 ^ 1075\<close> with the exponent \<open>e\<close> (at least 1).\<close>

definition f64_exp :: "float64 \<Rightarrow> nat" where
  "f64_exp f = max 1 (f64_bexp f)"

definition f64_whole :: "float64 \<Rightarrow> nat" where
  "f64_whole f = (if f64_exp f \<ge> 1075 then f64_mant f * 2 ^ (f64_exp f - 1075) else f64_mant f div 2 ^ (1075 - f64_exp f))"

definition f64_in_range :: "float64 \<Rightarrow> bool" where
  "f64_in_range f \<longleftrightarrow> f64_bexp f \<noteq> 2047 \<and> f64_whole f < 2 ^ 63"

definition f64_trunc :: "lib \<Rightarrow> float64 \<Rightarrow> int" where
  "f64_trunc L f = (if f64_in_range f then f64_sign f * int (f64_whole f) else float_to_int L f)"

text \<open>
  \<^verbatim>\<open>(seconds - float64(whole)) * 1e9\<close>: the difference is exact, the product is rounded to 53 bits
  (to even when half way), and the conversion truncates.
\<close>

definition f64_nanos :: "float64 \<Rightarrow> nat" where
  "f64_nanos f = (if f64_exp f \<ge> 1075 then 0
     else round53 (f64_mant f mod 2 ^ (1075 - f64_exp f) * 1000000000) div 2 ^ (1075 - f64_exp f))"

text \<open>Seconds beyond the range of a \<^verbatim>\<open>time.Time\<close> overflow (\<open>float_unix\<close>).\<close>

definition time_Unix_float :: "lib \<Rightarrow> float64 \<Rightarrow> instant" where
  "time_Unix_float L f =
    (if f64_in_range f \<and> f64_whole f < 2 ^ 62
     then f64_sign f * (int (f64_whole f) * 1000000000 + int (f64_nanos f)) else float_unix L f)"

text \<open>\<^verbatim>\<open>fmt.Sprint\<close> of a decoded value; a map is printed in the order of its keys, the last of equal keys counts.\<close>

fun bytes_less :: "string \<Rightarrow> string \<Rightarrow> bool" where
  "bytes_less [] t = (t \<noteq> [])"
| "bytes_less (a # s) [] = False"
| "bytes_less (a # s) (b # t) = ((of_char a :: nat) < of_char b \<or> a = b \<and> bytes_less s t)"

fun put_member :: "string \<times> string \<Rightarrow> (string \<times> string) list \<Rightarrow> (string \<times> string) list" where
  "put_member x [] = [x]"
| "put_member x (y # ys) =
    (if fst x = fst y then x # ys else if bytes_less (fst x) (fst y) then x # y # ys else y # put_member x ys)"

definition float_of :: "lib \<Rightarrow> string \<Rightarrow> float64" where
  "float_of L w = (case strconv_ParseFloat L w of Some f \<Rightarrow> f | None \<Rightarrow> 0)"

fun Sprint :: "lib \<Rightarrow> json \<Rightarrow> string" where
  "Sprint L JNull = ''<nil>''"
| "Sprint L (JBool b) = (if b then ''true'' else ''false'')"
| "Sprint L (JNum w) = fmt_Sprint_float L (float_of L w)"
| "Sprint L (JStr s) = s"
| "Sprint L (JArr vs) = ''['' @ Join (map (Sprint L) vs) '' '' @ '']''"
| "Sprint L (JObj ms) = ''map['' @ Join (map (\<lambda>(k, t). k @ '':'' @ t)
     (fold put_member (map (\<lambda>(k, v). (k, Sprint L v)) ms) [])) '' '' @ '']''"

text \<open>Decoding into \<^verbatim>\<open>map[string]interface{}\<close> fails when a number anywhere is out of the range of a float64.\<close>

fun floats_ok :: "lib \<Rightarrow> json \<Rightarrow> bool" where
  "floats_ok L (JNum w) = (strconv_ParseFloat L w \<noteq> None)"
| "floats_ok L (JArr vs) = list_all (floats_ok L) vs"
| "floats_ok L (JObj ms) = list_all (\<lambda>(k, v). floats_ok L v) ms"
| "floats_ok L _ = True"

type_synonym jsonMap = "(string \<times> json) list"

definition unmarshal_map :: "lib \<Rightarrow> string \<Rightarrow> jsonMap option" where
  "unmarshal_map L line =
    (case unmarshal line of Some (JObj ms) \<Rightarrow> if floats_ok L (JObj ms) then Some ms else None
     | Some JNull \<Rightarrow> Some [] | _ \<Rightarrow> None)"

definition lookup :: "jsonMap \<Rightarrow> string \<Rightarrow> json option" where
  "lookup ms key = map_of (rev ms) key"

definition jsonString :: "lib \<Rightarrow> jsonMap \<Rightarrow> string \<Rightarrow> string" where
  "jsonString L ms key = (case lookup ms key of None \<Rightarrow> [] | Some JNull \<Rightarrow> [] | Some v \<Rightarrow> TrimSpace (Sprint L v))"

definition jsonInt :: "lib \<Rightarrow> jsonMap \<Rightarrow> string \<Rightarrow> int option" where
  "jsonInt L ms key = (case lookup ms key of None \<Rightarrow> None
     | Some (JNum w) \<Rightarrow> Some (f64_trunc L (float_of L w))
     | Some (JStr s) \<Rightarrow> Atoi s
     | Some v \<Rightarrow> Atoi (Sprint L v))"

section \<open>Timestamps of a JSON line\<close>

definition first_time :: "lib \<Rightarrow> jsonMap \<Rightarrow> string list \<Rightarrow> instant option" where
  "first_time L ms keys = (case filter (\<lambda>t. t \<noteq> None) (map (\<lambda>key.
      if jsonString L ms key = [] then None else parse_RFC3339 (jsonString L ms key)) keys) of [] \<Rightarrow> None | t # _ \<Rightarrow> t)"

definition nginxJSONTimestamp :: "lib \<Rightarrow> jsonMap \<Rightarrow> instant option" where
  "nginxJSONTimestamp L ms =
    (case first_time L ms [''time_iso8601'', ''timestamp''] of Some t \<Rightarrow> Some t
     | None \<Rightarrow>
        if jsonString L ms ''time_local'' \<noteq> [] then parse_nginx_time (jsonString L ms ''time_local'')
        else case lookup ms ''msec'' of None \<Rightarrow> None
             | Some v \<Rightarrow> map_option (time_Unix_float L) (strconv_ParseFloat L (Sprint L v)))"

section \<open>The address of the client\<close>

definition isTrustedProxy :: "ip \<Rightarrow> IPNet list \<Rightarrow> bool" where
  "isTrustedProxy ip networks = containsIP networks ip"

fun forwarded_loop :: "string list \<Rightarrow> IPNet list \<Rightarrow> ip option" where
  "forwarded_loop [] trusted = None"
| "forwarded_loop (part # parts) trusted =
    (case ParseIP (TrimSpace part) of
       None \<Rightarrow> forwarded_loop parts trusted
     | Some ip \<Rightarrow> if \<not> isTrustedProxy ip trusted then Some ip else forwarded_loop parts trusted)"

definition forwardedClientIP :: "string \<Rightarrow> IPNet list \<Rightarrow> ip option" where
  "forwardedClientIP v trusted = forwarded_loop (rev (Split v (CHR '',''))) trusted"

section \<open>Lines\<close>

definition newNginxEvent :: "lib \<Rightarrow> string \<Rightarrow> instant \<Rightarrow> string \<Rightarrow> string \<Rightarrow> string \<Rightarrow> string \<Rightarrow> int \<Rightarrow> string \<Rightarrow> NginxSecurityConfig
    \<Rightarrow> NginxEvent option" where
  "newNginxEvent L line timestamp remoteIP forwardedFor meth path status userAgent cfg =
    (case ParseIP (TrimSpace remoteIP) of None \<Rightarrow> None
     | Some ip0 \<Rightarrow>
        let ip = (if isTrustedProxy ip0 (nc_TrustedProxyCIDRs cfg)
                  then (case forwardedClientIP forwardedFor (nc_TrustedProxyCIDRs cfg) of None \<Rightarrow> ip0 | Some f \<Rightarrow> f) else ip0);
            path' = (case url_ParseRequestURI L path of None \<Rightarrow> path | Some p \<Rightarrow> if p \<noteq> [] then p else path)
        in Some \<lparr>ne_Timestamp = timestamp, ne_RemoteIP = IP_String ip, ne_Method = meth, ne_Path = path', ne_Status = status,
             ne_UserAgent = userAgent, ne_Raw = line, ne_RawHash = EncodeToString (sha256_Sum256 L line)\<rparr>)"

text \<open>\<^verbatim>\<open>strings.Fields\<close>: the maximal runs of characters that are not white space.\<close>

definition space_len :: "string \<Rightarrow> nat" where
  "space_len s = (if s \<noteq> [] \<and> ascii_space (hd s) then 1
     else case find (\<lambda>w. w \<noteq> [] \<and> prefix w s) wide_spaces of None \<Rightarrow> 0 | Some w \<Rightarrow> length w)"

fun take_field :: "string \<Rightarrow> string \<times> string" where
  "take_field [] = ([], [])"
| "take_field (c # s) = (if space_len (c # s) > 0 then ([], c # s) else (case take_field s of (f, r) \<Rightarrow> (c # f, r)))"

lemma take_field_shorter: "length (snd (take_field s)) \<le> length s"
  by (induction s) (auto split: prod.splits)

lemma take_field_progress: "space_len s = 0 \<Longrightarrow> s \<noteq> [] \<Longrightarrow> length (snd (take_field s)) < length s"
  using take_field_shorter[of "tl s"] by (cases s) (auto split: prod.splits)

lemma space_len_bound: "space_len s \<le> length s"
  by (auto simp: space_len_def Suc_le_eq dest!: prefix_length_le split: option.splits simp: find_Some_iff)

function Fields :: "string \<Rightarrow> string list" where
  "Fields s = (if s = [] then [] else if space_len s > 0 then Fields (drop (space_len s) s)
     else case take_field s of (f, r) \<Rightarrow> f # Fields r)"
  by pat_completeness auto
termination
proof (relation "measure length")
  fix s x y
  assume "s \<noteq> []" "\<not> 0 < space_len s" "(x, y) = take_field s"
  then show "(y, s) \<in> measure length" using take_field_progress[of s] by (metis in_measure not_gr_zero snd_conv)
qed auto

declare Fields.simps [simp del]

text \<open>Method and path of the request line, where the object does not give them.\<close>

definition request_parts :: "string \<Rightarrow> string \<Rightarrow> string \<Rightarrow> string \<times> string" where
  "request_parts request meth path =
    (if request \<noteq> [] \<and> length (Fields request) \<ge> 2
     then (if meth = [] then Fields request ! 0 else meth, if path = [] then Fields request ! 1 else path)
     else (meth, path))"

definition parseNginxJSON :: "lib \<Rightarrow> string \<Rightarrow> NginxSecurityConfig \<Rightarrow> NginxEvent option" where
  "parseNginxJSON L line cfg =
    (case unmarshal_map L line of None \<Rightarrow> None
     | Some ms \<Rightarrow>
        let (meth, path) = request_parts (jsonString L ms ''request'') (jsonString L ms ''request_method'') (jsonString L ms ''uri'')
        in case jsonInt L ms ''status'' of None \<Rightarrow> None
           | Some status \<Rightarrow>
              (case nginxJSONTimestamp L ms of None \<Rightarrow> None
               | Some ts \<Rightarrow> newNginxEvent L line ts (jsonString L ms ''remote_addr'') (jsonString L ms ''http_x_forwarded_for'')
                    meth path status (jsonString L ms ''http_user_agent'') cfg))"

abbreviation dquote :: re where "dquote \<equiv> lit [CHR 0x22]"

definition nginxCombinedLine :: re where
  "nginxCombinedLine = seqs [Bol, Grp 1 (Plus non_space), Plus space, Plus non_space, Plus space, Plus non_space, Plus space,
     lit ''['', Grp 2 (Plus (not_in '']'')), lit '']'', Plus space, dquote, Grp 3 (Plus non_space), Plus space,
     Grp 4 (Plus (Cls (\<lambda>c. c \<noteq> CHR 0x22 \<and> c \<notin> {CHR '' '', CHR 0x09, CHR 0x0A, CHR 0x0C, CHR 0x0D}))),
     Opt (seqs [Plus space, Plus (not_in [CHR 0x22])]), dquote, Plus space,
     Grp 5 (times 3 (Cls digit)), Plus space, Plus non_space, Plus space, dquote, Star (not_in [CHR 0x22]), dquote, Plus space,
     dquote, Grp 6 (Star (not_in [CHR 0x22])), dquote]"

definition parse_combined :: "lib \<Rightarrow> string \<Rightarrow> NginxSecurityConfig \<Rightarrow> NginxEvent option" where
  "parse_combined L line cfg =
    (case FindStringSubmatch nginxCombinedLine line of None \<Rightarrow> None
     | Some m \<Rightarrow>
        (case parse_nginx_time (submatch m 2) of None \<Rightarrow> None
         | Some ts \<Rightarrow>
            (case Atoi (submatch m 5) of None \<Rightarrow> None
             | Some status \<Rightarrow> newNginxEvent L line ts (submatch m 1) [] (submatch m 3) (submatch m 4) status (submatch m 6) cfg)))"

definition ParseNginxLine :: "lib \<Rightarrow> string \<Rightarrow> NginxSecurityConfig \<Rightarrow> NginxEvent option" where
  "ParseNginxLine L text cfg =
    (let line = TrimSpace text
     in if line = [] then None
        else case parseNginxJSON L line cfg of Some event \<Rightarrow> Some event
             | None \<Rightarrow> parse_combined L line cfg)"

section \<open>The loop\<close>

definition nginxStateKey :: "NginxSecurityConfig \<Rightarrow> string" where
  "nginxStateKey cfg = ''nginx-security:'' @ nc_Path cfg"

definition nginxStreamConfig :: "NginxSecurityConfig \<Rightarrow> StreamConfig" where
  "nginxStreamConfig cfg = \<lparr>sc_Path = nc_Path cfg, sc_PollInterval = nc_PollInterval cfg,
     sc_RotationDrainTimeout = nc_RotationDrainTimeout cfg, sc_QueueIdleTimeout = Hour, sc_ProcessingWorkers = 1\<rparr>"

text \<open>The cases of the select, each record with the clock and the faults of its transaction.\<close>

datatype nginx_event_in = Record instant faults lineRecord | NginxFollowEnded "err option" | NginxDone

fun nginx_loop :: "lib \<Rightarrow> NginxSecurityConfig \<Rightarrow> nginx_event_in list \<Rightarrow> db \<Rightarrow> db \<times> err option option" where
  "nginx_loop L cfg [] d = (d, None)"
| "nginx_loop L cfg (NginxDone # evs) d = (d, Some None)"
| "nginx_loop L cfg (NginxFollowEnded x # evs) d = (d, Some (if x = Some ''context canceled'' then None else x))"
| "nginx_loop L cfg (Record now flt rc # evs) d =
    (case persistNginxEvent L flt now (nginxStateKey cfg) rc (ParseNginxLine L (lr_Text rc) cfg) cfg d of
       Inl x \<Rightarrow> (d, Some (Some x))
     | Inr d' \<Rightarrow> nginx_loop L cfg evs d')"

definition RunNginxSecurityIngestor :: "lib \<Rightarrow> faults \<Rightarrow> NginxSecurityConfig \<Rightarrow> (ingestState \<Rightarrow> nginx_event_in list) \<Rightarrow> db
    \<Rightarrow> db \<times> err option option" where
  "RunNginxSecurityIngestor L flt cfg events d =
    (case getIngestState flt (nginxStateKey cfg) d of
       Inl x \<Rightarrow> (d, Some (Some (''load nginx checkpoint: '' @ x)))
     | Inr state \<Rightarrow> nginx_loop L cfg (events state) d)"

section \<open>Whose request it was\<close>

lemma forwarded_loop_append:
  "forwarded_loop (xs @ ys) T = (case forwarded_loop xs T of None \<Rightarrow> forwarded_loop ys T | Some ip \<Rightarrow> Some ip)"
  by (induction xs) (auto split: option.splits)

lemma forwarded_loop_Some:
  "forwarded_loop xs T = Some q \<Longrightarrow> \<exists>pre x post. xs = pre @ x # post \<and> ParseIP (TrimSpace x) = Some q \<and> \<not> isTrustedProxy q T
     \<and> (\<forall>y \<in> set pre. \<forall>p. ParseIP (TrimSpace y) = Some p \<longrightarrow> isTrustedProxy p T)"
proof (induction xs)
  case (Cons x xs)
  show ?case
  proof (cases "\<exists>p. ParseIP (TrimSpace x) = Some p \<and> \<not> isTrustedProxy p T")
    case True
    then show ?thesis using Cons.prems by (intro exI[of _ "[]"] exI[of _ x] exI[of _ xs]) auto
  next
    case False
    then have "forwarded_loop xs T = Some q" using Cons.prems by (auto split: option.splits if_splits)
    then obtain pre y post where "xs = pre @ y # post" "ParseIP (TrimSpace y) = Some q" "\<not> isTrustedProxy q T"
      "\<forall>z \<in> set pre. \<forall>p. ParseIP (TrimSpace z) = Some p \<longrightarrow> isTrustedProxy p T" using Cons.IH by blast
    then show ?thesis using False by (intro exI[of _ "x # pre"] exI[of _ y] exI[of _ post]) auto
  qed
qed simp

lemma forwarded_loop_None:
  "forwarded_loop xs T = None \<longleftrightarrow> (\<forall>y \<in> set xs. \<forall>p. ParseIP (TrimSpace y) = Some p \<longrightarrow> isTrustedProxy p T)"
  by (induction xs) (auto split: option.splits)

lemma Split_append: "\<exists>ps. ps \<noteq> [] \<and> Split (u @ sep # v) sep = ps @ Split v sep"
proof (induction u)
  case (Cons a u)
  then obtain q ps where "Split (u @ sep # v) sep = (q # ps) @ Split v sep" by (metis neq_Nil_conv)
  then show ?case
    by (cases "a = sep") (auto intro: exI[of _ "[] # q # ps"] exI[of _ "(a # q) # ps"])
qed (auto intro: exI[of _ "[[]]"])

definition untrusted :: "IPNet list \<Rightarrow> string \<Rightarrow> ip \<Rightarrow> bool" where
  "untrusted T item q \<longleftrightarrow> ParseIP (TrimSpace item) = Some q \<and> \<not> containsIP T q"

text \<open>
  C35. A request is attributed to the right address. The address of an event is the peer's own
  unless the peer is a trusted proxy; then it is the rightmost item of the forwarded header that is an address outside the
  trusted networks, and the proxy's own if there is none. So what a client puts in front of the
  header (everything before a comma, when an untrusted address follows) never changes the attribution, and a peer that is not
  a trusted proxy cannot shift its requests to another address at all.
\<close>

theorem client_address_exact:
  assumes "newNginxEvent L line ts remote fwd m p st ua cfg = Some ev" and "T = nc_TrustedProxyCIDRs cfg"
  shows "\<exists>peer client. ParseIP (TrimSpace remote) = Some peer \<and> ParseIP (ne_RemoteIP ev) = Some client
    \<and> (\<not> containsIP T peer \<longrightarrow> client = peer)
    \<and> (containsIP T peer \<longrightarrow>
        (if \<exists>item \<in> set (Split fwd (CHR '','')). \<exists>q. untrusted T item q
         then \<exists>before item after. Split fwd (CHR '','') = before @ item # after \<and> untrusted T item client \<and> (\<forall>x \<in> set after. \<forall>q. \<not> untrusted T x q)
         else client = peer))
    \<and> ((\<exists>item \<in> set (Split fwd (CHR '','')). \<exists>q. untrusted T item q) \<longrightarrow>
        map_option ne_RemoteIP (newNginxEvent L line ts remote (junk @ '','' @ fwd) m p st ua cfg) = Some (ne_RemoteIP ev))"
proof -
  define parts where "parts = Split fwd (CHR '','')"
  obtain peer where peer: "ParseIP (TrimSpace remote) = Some peer" using assms(1) by (auto simp: newNginxEvent_def split: option.splits)
  define client where "client = (if isTrustedProxy peer T then (case forwardedClientIP fwd T of None \<Rightarrow> peer | Some f \<Rightarrow> f) else peer)"
  have ev: "ne_RemoteIP ev = IP_String client" using assms peer by (auto simp: newNginxEvent_def client_def Let_def)
  have len: "length client = 16"
    using ParseIP_length peer by (auto simp: client_def forwardedClientIP_def dest!: forwarded_loop_Some split: option.splits if_splits)
  then have cl: "ParseIP (ne_RemoteIP ev) = Some client" by (simp add: ev ParseIP_IP_String)
  have none: "forwardedClientIP fwd T = None \<longleftrightarrow> \<not> (\<exists>item \<in> set parts. \<exists>q. untrusted T item q)"
    by (auto simp: forwardedClientIP_def forwarded_loop_None untrusted_def isTrustedProxy_def parts_def)
  have some: "\<exists>before item after. parts = before @ item # after \<and> untrusted T item f \<and> (\<forall>x \<in> set after. \<forall>q. \<not> untrusted T x q)"
    if found: "forwardedClientIP fwd T = Some f" for f
  proof -
    obtain a x b where "rev parts = a @ x # b" "ParseIP (TrimSpace x) = Some f" "\<not> isTrustedProxy f T"
      "\<forall>y \<in> set a. \<forall>p. ParseIP (TrimSpace y) = Some p \<longrightarrow> isTrustedProxy p T"
      using forwarded_loop_Some found unfolding forwardedClientIP_def parts_def[symmetric] by blast
    then have "parts = rev b @ x # rev a" by (simp add: rev_swap)
    then show ?thesis using \<open>ParseIP (TrimSpace x) = Some f\<close> \<open>\<not> isTrustedProxy f T\<close>
        \<open>\<forall>y \<in> set a. \<forall>p. ParseIP (TrimSpace y) = Some p \<longrightarrow> isTrustedProxy p T\<close>
      by (intro exI[of _ "rev b"] exI[of _ x] exI[of _ "rev a"]) (auto simp: untrusted_def isTrustedProxy_def)
  qed
  have junk: "forwardedClientIP (junk @ '','' @ fwd) T = forwardedClientIP fwd T" if "forwardedClientIP fwd T \<noteq> None"
  proof -
    obtain ps where "Split (junk @ CHR '','' # fwd) (CHR '','') = ps @ Split fwd (CHR '','')" using Split_append by blast
    then show ?thesis using that by (auto simp: forwardedClientIP_def forwarded_loop_append split: option.splits)
  qed
  have "map_option ne_RemoteIP (newNginxEvent L line ts remote (junk @ '','' @ fwd) m p st ua cfg) = Some (ne_RemoteIP ev)"
    if some_untrusted: "\<exists>item \<in> set parts. \<exists>q. untrusted T item q"
  proof -
    have "forwardedClientIP (junk @ '','' @ fwd) T = forwardedClientIP fwd T" using junk none some_untrusted by blast
    then show ?thesis using assms(2) peer by (simp add: newNginxEvent_def ev client_def Let_def)
  qed
  then show ?thesis using peer cl none some unfolding parts_def[symmetric]
    by (intro exI[of _ peer] exI[of _ client]) (auto simp: client_def isTrustedProxy_def split: option.splits)
qed

definition example_proxied :: NginxSecurityConfig where
  "example_proxied = example_nginx\<lparr>nc_TrustedProxyCIDRs := [\<lparr>net_IP = [127, 0, 0, 1], net_Mask = CIDRMask 32 32\<rparr>]\<rparr>"

lemma example_peer: "ParseIP ''127.0.0.1'' = Some (v4InV6Prefix @ [127, 0, 0, 1])"
  by (simp add: ParseIP_def ParseAddr_def parseIPv4Fields_def parse_octet_def digit_val_def)

lemma example_trusted:
  "containsIP (nc_TrustedProxyCIDRs example_proxied) (v4InV6Prefix @ [127, 0, 0, 1])"
  "\<not> containsIP (nc_TrustedProxyCIDRs example_proxied) (v4InV6Prefix @ [203, 0, 113, 9])"
  by (simp_all add: example_proxied_def Contains_IP_def v4InV6Prefix_def To4_def CIDRMask_def upt_rec networkNumberAndMask_def)

theorem client_address_exact_witness:
  "\<exists>ev. newNginxEvent example_lib [] 0 ''127.0.0.1'' ''10.0.0.1,203.0.113.9,127.0.0.1'' ''GET'' ''/'' 404 [] example_proxied = Some ev
     \<and> ParseIP (ne_RemoteIP ev) = Some (v4InV6Prefix @ [203, 0, 113, 9])"
proof -
  let ?fwd = "''10.0.0.1,203.0.113.9,127.0.0.1''"
  have parts: "Split ?fwd (CHR '','') = [''10.0.0.1'', ''203.0.113.9'', ''127.0.0.1'']" by simp
  have u: "untrusted (nc_TrustedProxyCIDRs example_proxied) ''203.0.113.9'' q \<longleftrightarrow> q = v4InV6Prefix @ [203, 0, 113, 9]"
    "\<not> untrusted (nc_TrustedProxyCIDRs example_proxied) ''127.0.0.1'' q" for q
    using example_ip example_peer example_trusted by (auto simp: untrusted_def plain_eval)
  obtain ev where ev: "newNginxEvent example_lib [] 0 ''127.0.0.1'' ?fwd ''GET'' ''/'' 404 [] example_proxied = Some ev"
    using example_peer by (simp add: newNginxEvent_def plain_eval)
  obtain peer client where p: "ParseIP (TrimSpace ''127.0.0.1'') = Some peer" "ParseIP (ne_RemoteIP ev) = Some client"
    and c: "containsIP (nc_TrustedProxyCIDRs example_proxied) peer \<longrightarrow>
        (if \<exists>item \<in> set (Split ?fwd (CHR '','')). \<exists>q. untrusted (nc_TrustedProxyCIDRs example_proxied) item q
         then \<exists>before item after. Split ?fwd (CHR '','') = before @ item # after \<and> untrusted (nc_TrustedProxyCIDRs example_proxied) item client
           \<and> (\<forall>x \<in> set after. \<forall>q. \<not> untrusted (nc_TrustedProxyCIDRs example_proxied) x q)
         else client = peer)"
    using client_address_exact[OF ev refl] by blast
  have "containsIP (nc_TrustedProxyCIDRs example_proxied) peer"
    using p(1) example_peer example_trusted(1) by (simp add: plain_eval)
  then obtain before item rest where *: "[''10.0.0.1'', ''203.0.113.9'', ''127.0.0.1''] = before @ item # rest"
    "untrusted (nc_TrustedProxyCIDRs example_proxied) item client"
    "\<forall>x \<in> set rest. \<forall>q. \<not> untrusted (nc_TrustedProxyCIDRs example_proxied) x q"
    using c u(1) unfolding parts by (auto split: if_splits)
  have "client = v4InV6Prefix @ [203, 0, 113, 9]"
    using *(1) \<open>untrusted _ item client\<close> *(3) u by (auto simp: Cons_eq_append_conv)
  then show ?thesis using ev p(2) by blast
qed

section \<open>Lines of the combined format\<close>

text \<open>
  What Nginx writes for a request in its format \<^verbatim>\<open>combined\<close>: the address of the peer, words that hold no
  white space, and quoted texts in which Nginx escapes quotes.
\<close>

record access_entry =
  ac_peer :: ip
  ac_ident :: string
  ac_user :: string
  ac_time :: string
  ac_method :: string
  ac_uri :: string
  ac_proto :: string
  ac_status :: int
  ac_size :: string
  ac_referer :: string
  ac_agent :: string

definition in_quotes :: "string \<Rightarrow> string" where
  "in_quotes s = CHR 0x22 # s @ [CHR 0x22]"

definition combined_line :: "access_entry \<Rightarrow> string" where
  "combined_line a = IP_String (ac_peer a) @ '' '' @ ac_ident a @ '' '' @ ac_user a @ '' ['' @ ac_time a @ ''] ''
     @ in_quotes (ac_method a @ '' '' @ ac_uri a @ '' '' @ ac_proto a) @ '' '' @ FormatInt (ac_status a) @ '' '' @ ac_size a
     @ '' '' @ in_quotes (ac_referer a) @ '' '' @ in_quotes (ac_agent a)"

definition word :: "string \<Rightarrow> bool" where
  "word w \<longleftrightarrow> w \<noteq> [] \<and> list_all (\<lambda>c. \<not> spacing c) w"

definition entry_ok :: "access_entry \<Rightarrow> bool" where
  "entry_ok a \<longleftrightarrow> length (ac_peer a) = 16 \<and> word (ac_ident a) \<and> word (ac_user a)
     \<and> ac_time a \<noteq> [] \<and> CHR '']'' \<notin> set (ac_time a)
     \<and> word (ac_method a) \<and> word (ac_uri a) \<and> CHR 0x22 \<notin> set (ac_uri a)
     \<and> ac_proto a \<noteq> [] \<and> \<not> spacing (hd (ac_proto a)) \<and> CHR 0x22 \<notin> set (ac_proto a)
     \<and> 100 \<le> ac_status a \<and> ac_status a \<le> 999 \<and> word (ac_size a)
     \<and> CHR 0x22 \<notin> set (ac_referer a) \<and> CHR 0x22 \<notin> set (ac_agent a)"

text \<open>The event such a request stands for.\<close>

definition uri_path :: "lib \<Rightarrow> string \<Rightarrow> string" where
  "uri_path L uri = (case url_ParseRequestURI L uri of None \<Rightarrow> uri | Some p \<Rightarrow> if p \<noteq> [] then p else uri)"

definition logged_event :: "lib \<Rightarrow> access_entry \<Rightarrow> instant \<Rightarrow> string \<Rightarrow> NginxEvent" where
  "logged_event L a t line = \<lparr>ne_Timestamp = t, ne_RemoteIP = IP_String (ac_peer a), ne_Method = ac_method a,
     ne_Path = uri_path L (ac_uri a), ne_Status = ac_status a, ne_UserAgent = ac_agent a, ne_Raw = line,
     ne_RawHash = EncodeToString (sha256_Sum256 L line)\<rparr>"

lemma ParseIP_empty: "ParseIP [] = None"
  by (simp add: ParseIP_def ParseAddr_def)

lemma newNginxEvent_direct:
  "length p = 16 \<Longrightarrow> newNginxEvent L line ts (IP_String p) [] m uri st ua cfg =
    Some \<lparr>ne_Timestamp = ts, ne_RemoteIP = IP_String p, ne_Method = m, ne_Path = uri_path L uri, ne_Status = st,
      ne_UserAgent = ua, ne_Raw = line, ne_RawHash = EncodeToString (sha256_Sum256 L line)\<rparr>"
  by (simp add: newNginxEvent_def TrimSpace_IP_String ParseIP_IP_String forwardedClientIP_def ParseIP_empty uri_path_def Let_def)

lemma status_text:
  assumes "100 \<le> n" "n \<le> 999"
  shows "list_all digit (FormatInt n)" "length (FormatInt n) = 3" "Atoi (FormatInt n) = Some n"
proof -
  define k where "k = nat n"
  have n: "n = int k" and k: "100 \<le> k" "k \<le> 999" using assms by (simp_all add: k_def)
  have dv: "\<not> k < 10" "\<not> k div 10 < 10" "k div 10 div 10 < 10"
    using k by (simp_all add: div_less_iff_less_mult)
  have "FormatInt n = [char_of (48 + k div 10 div 10), char_of (48 + k div 10 mod 10), char_of (48 + k mod 10)]"
    using dv by (simp add: n FormatInt_def nat_digits.simps)
  moreover have "digit (char_of (48 + d))" if "d < 10" for d :: nat using that by (simp add: in_rng_def)
  ultimately show "list_all digit (FormatInt n)" "length (FormatInt n) = 3" using dv by simp_all
  show "Atoi (FormatInt n) = Some n" using assms by (intro Atoi_FormatInt) (simp_all add: int64_defs)
qed

text \<open>No such line is a JSON object.\<close>

lemma not_a_map:
  assumes "s \<noteq> []" and "\<not> json_space (hd s)" and "hd s \<noteq> CHR ''{''" and "hd s \<noteq> CHR ''n''"
  shows "unmarshal_map L s = None"
proof -
  obtain c t where s: "s = c # t" using assms(1) by (cases s) auto
  have "\<exists>w. v = JNum w \<or> v = JStr w \<or> (\<exists>b vs. v = JBool b \<or> v = JArr vs)" if "parse_json s = Some (v, r)" for v r
    using that assms by (auto simp: s parse_json_def parse_value.simps literal_def split: if_splits list.splits)
  then show ?thesis by (auto simp: unmarshal_map_def unmarshal_def split: option.splits json.splits if_splits)
qed

lemma is_hex_start: "is_hex c \<or> c = CHR '':'' \<or> c = CHR ''.'' \<Longrightarrow> \<not> json_space c \<and> c \<noteq> CHR ''{'' \<and> c \<noteq> CHR ''n'' \<and> \<not> spacing c"
  by (auto simp: is_hex_def hex_val_def json_space_def spacing_def Let_def)

lemma IP_String_not_empty: "length p = 16 \<Longrightarrow> IP_String p \<noteq> []"
  using ParseIP_IP_String[of p] ParseIP_empty by auto

lemma combined_match:
  assumes "entry_ok a"
  shows "\<exists>p. FindStringSubmatch nginxCombinedLine (combined_line a) = Some \<lparr>ms_prev = p, ms_rest = [], ms_caps =
    [(6, ac_agent a), (5, FormatInt (ac_status a)), (4, ac_uri a), (3, ac_method a), (2, ac_time a), (1, IP_String (ac_peer a))]\<rparr>"
proof -
  let ?uric = "\<lambda>c. c \<noteq> CHR 0x22 \<and> c \<notin> {CHR '' '', CHR 0x09, CHR 0x0A, CHR 0x0C, CHR 0x0D}"
  let ?st = "FormatInt (ac_status a)"
  have w: "word w \<Longrightarrow> eats (Plus non_space) p w (CHR '' '' # u) []" "word w \<Longrightarrow> w \<noteq> [] \<and> \<not> spacing (hd w)" for w p u
    using eats_word by (auto simp: word_def list_all_iff)
  have peer: "word (IP_String (ac_peer a))"
    using assms IP_String_chars is_hex_start IP_String_not_empty unfolding entry_ok_def word_def list_all_iff by metis
  have ok: "word (ac_ident a)" "word (ac_user a)" "word (ac_method a)" "word (ac_size a)" "word (ac_uri a)"
    using assms by (auto simp: entry_ok_def)
  have g2: "eats (Grp 2 (Plus (not_in '']''))) p (ac_time a) (CHR '']'' # u) [(2, ac_time a)]" for p u
    using assms eats_Grp[OF eats_Plus[of "\<lambda>c. c \<noteq> CHR '']''" "ac_time a" "CHR '']'' # u"]]
    by (auto simp: entry_ok_def not_in_def list_all_iff)
  have g4: "eats (Grp 4 (Plus (Cls ?uric))) p (ac_uri a) (CHR '' '' # u) [(4, ac_uri a)]" for p u
    using assms eats_Grp[OF eats_Plus[of ?uric "ac_uri a" "CHR '' '' # u"]]
    by (auto simp: entry_ok_def word_def list_all_iff spacing_def)
  have dq: "eats (Star (not_in [CHR 0x22])) p w (CHR 0x22 # u) []" if "CHR 0x22 \<notin> set w" for p w u
    using that eats_Star[of "\<lambda>c. c \<noteq> CHR 0x22" w "CHR 0x22 # u"] by (auto simp: not_in_def list_all_iff)
  have pr: "eats (Plus (not_in [CHR 0x22])) p (ac_proto a) (CHR 0x22 # u) []" for p u
    using assms eats_Plus[of "\<lambda>c. c \<noteq> CHR 0x22" "ac_proto a" "CHR 0x22 # u"]
    by (auto simp: entry_ok_def not_in_def list_all_iff)
  have "eats_list [Plus space, Plus (not_in [CHR 0x22])] p ['' '', ac_proto a] (CHR 0x22 # u) [[], []]" for p u
    using pr assms by (simp add: eats_blank entry_ok_def)
  from eats_Alt1[OF eats_seqs[OF this]]
  have proto: "eats (Opt (seqs [Plus space, Plus (not_in [CHR 0x22])])) p (CHR '' '' # ac_proto a) (CHR 0x22 # u) []" for p u
    by (simp add: Opt_def)
  have st: "eats (Grp 5 (times 3 (Cls digit))) p ?st u [(5, ?st)]" for p u
    using eats_Grp[OF eats_times[of digit ?st 3]] assms status_text by (simp add: entry_ok_def)
  have st_hd: "?st \<noteq> [] \<and> \<not> spacing (hd ?st)"
    using assms status_text[of "ac_status a"] by (cases ?st) (auto simp: entry_ok_def in_rng_def spacing_def)
  have "eats_list [Bol, Grp 1 (Plus non_space), Plus space, Plus non_space, Plus space, Plus non_space, Plus space,
     lit ''['', Grp 2 (Plus (not_in '']'')), lit '']'', Plus space, dquote, Grp 3 (Plus non_space), Plus space,
     Grp 4 (Plus (Cls ?uric)), Opt (seqs [Plus space, Plus (not_in [CHR 0x22])]), dquote, Plus space,
     Grp 5 (times 3 (Cls digit)), Plus space, Plus non_space, Plus space, dquote, Star (not_in [CHR 0x22]), dquote, Plus space,
     dquote, Grp 6 (Star (not_in [CHR 0x22])), dquote] None
     [[], IP_String (ac_peer a), '' '', ac_ident a, '' '', ac_user a, '' '', ''['', ac_time a, '']'', '' '', [CHR 0x22], ac_method a, '' '',
      ac_uri a, CHR '' '' # ac_proto a, [CHR 0x22], '' '', ?st, '' '', ac_size a, '' '', [CHR 0x22], ac_referer a, [CHR 0x22], '' '',
      [CHR 0x22], ac_agent a, [CHR 0x22]] []
     [[], [(1, IP_String (ac_peer a))], [], [], [], [], [], [], [(2, ac_time a)], [], [], [], [(3, ac_method a)], [], [(4, ac_uri a)],
      [], [], [], [(5, ?st)], [], [], [], [], [], [], [], [], [(6, ac_agent a)], []]"
    using assms w(2)[OF ok(1)] w(2)[OF ok(2)] w(2)[OF ok(3)] w(2)[OF ok(4)] w(2)[OF ok(5)] st_hd
    by (simp add: eats_Bol eats_lit eats_blank eats_Grp[OF w(1)[OF peer]] w(1)[OF ok(1)] w(1)[OF ok(2)] eats_Grp[OF w(1)[OF ok(3)]]
        w(1)[OF ok(4)] g2 g4[simplified] proto st dq eats_Grp[OF dq] entry_ok_def)
  from find_from_eats[OF eats_seqs[OF this]] show ?thesis
    by (simp add: FindStringSubmatch_def nginxCombinedLine_def combined_line_def in_quotes_def)
qed

lemma combined_line_parsed:
  assumes "entry_ok a" and "parse_nginx_time (ac_time a) = Some t"
  shows "ParseNginxLine L (combined_line a) cfg = Some (logged_event L a t (combined_line a))"
proof -
  let ?l = "combined_line a"
  have peer: "length (ac_peer a) = 16" "IP_String (ac_peer a) \<noteq> []" using assms IP_String_not_empty by (auto simp: entry_ok_def)
  have hd: "hd ?l = hd (IP_String (ac_peer a))" "?l \<noteq> []" "last ?l = CHR 0x22"
    using peer by (simp_all add: combined_line_def in_quotes_def)
  have c: "is_hex (hd ?l) \<or> hd ?l = CHR '':'' \<or> hd ?l = CHR ''.''" using IP_String_chars[OF hd_in_set[OF peer(2)]] unfolding hd(1) .
  have "plain (hd ?l)" using IP_String_plain[OF hd_in_set[OF peer(2)]] unfolding hd(1) .
  then have trim: "TrimSpace ?l = ?l" using hd(3) by (intro TrimSpace_plain) (simp add: plain_def is_ascii_def ascii_space_def)
  have "unmarshal_map L ?l = None" using not_a_map hd(2) is_hex_start[OF c] by blast
  then have "parseNginxJSON L ?l cfg = None" by (simp add: parseNginxJSON_def)
  moreover obtain p where "FindStringSubmatch nginxCombinedLine ?l = Some \<lparr>ms_prev = p, ms_rest = [], ms_caps =
    [(6, ac_agent a), (5, FormatInt (ac_status a)), (4, ac_uri a), (3, ac_method a), (2, ac_time a), (1, IP_String (ac_peer a))]\<rparr>"
    using combined_match[OF assms(1)] by blast
  ultimately show ?thesis
    using assms peer(1) hd(2) status_text(3)[of "ac_status a"]
    by (simp add: ParseNginxLine_def trim parse_combined_def submatch_def newNginxEvent_direct logged_event_def entry_ok_def Let_def)
qed

text \<open>
  C36. What Nginx writes in the format \<^verbatim>\<open>combined\<close> is read back: of every such line, the event has the
  instant, the peer, the method, the path of the URI, the status and the user agent of the request, and keeps
  the line with its hash.
\<close>

theorem combined_roundtrip:
  assumes "entry_ok a" and "parse_nginx_time (ac_time a) = Some t"
  shows "ParseNginxLine L (combined_line a) cfg = Some (logged_event L a t (combined_line a))"
  using assms by (rule combined_line_parsed)

definition example_entry :: access_entry where
  "example_entry = \<lparr>ac_peer = v4InV6Prefix @ [203, 0, 113, 9], ac_ident = ''-'', ac_user = ''-'', ac_time = ''10/Oct/2025:13:55:36 -0700'',
    ac_method = ''GET'', ac_uri = ''/admin'', ac_proto = ''HTTP/1.1'', ac_status = 404, ac_size = ''162'', ac_referer = ''-'',
    ac_agent = ''curl/8.0''\<rparr>"

lemma example_entry_ok: "entry_ok example_entry"
  by (simp add: entry_ok_def example_entry_def word_def spacing_def v4InV6Prefix_def)

lemma example_entry_time: "parse_nginx_time (ac_time example_entry) = Some 1760129736000000000"
  unfolding example_entry_def by code_simp

theorem combined_roundtrip_witness:
  "\<exists>e. ParseNginxLine example_lib (combined_line example_entry) example_nginx = Some e
     \<and> ne_Timestamp e = 1760129736000000000 \<and> ne_Status e = 404 \<and> ne_Path e = ''/admin'' \<and> ne_UserAgent e = ''curl/8.0''"
  using combined_roundtrip[OF example_entry_ok example_entry_time, of example_lib example_nginx]
  by (simp add: logged_event_def example_entry_def uri_path_def example_lib_def)

section \<open>Lines of the JSON format\<close>

definition json_entry :: "access_entry \<Rightarrow> json" where
  "json_entry a = JObj [(''remote_addr'', JStr (IP_String (ac_peer a))), (''time_local'', JStr (ac_time a)),
     (''request_method'', JStr (ac_method a)), (''uri'', JStr (ac_uri a)), (''status'', JStr (FormatInt (ac_status a))),
     (''http_user_agent'', JStr (ac_agent a))]"

definition json_line :: "access_entry \<Rightarrow> string" where
  "json_line a = encode (json_entry a)"

definition trimmed_text :: "string \<Rightarrow> bool" where
  "trimmed_text s \<longleftrightarrow> valid_utf8 s \<and> TrimSpace s = s"

lemma plain_valid: "list_all plain s \<Longrightarrow> valid_utf8 s"
  by (rule valid_utf8_ascii) (auto simp: list_all_iff plain_def is_ascii_def)

lemma json_line_parsed:
  assumes "entry_ok a" and "parse_nginx_time (ac_time a) = Some t"
    and "trimmed_text (ac_time a)" "trimmed_text (ac_method a)" "trimmed_text (ac_uri a)" "trimmed_text (ac_agent a)"
  shows "ParseNginxLine L (json_line a) cfg = Some (logged_event L a t (json_line a))"
proof -
  have peer: "length (ac_peer a) = 16" "valid_utf8 (IP_String (ac_peer a))"
    using assms(1) IP_String_plain plain_valid by (auto simp: entry_ok_def list_all_iff)
  have st: "Atoi (FormatInt (ac_status a)) = Some (ac_status a)" "valid_utf8 (FormatInt (ac_status a))"
    using assms(1) status_text[of "ac_status a"]
    by (auto simp: entry_ok_def in_rng_def Let_def elim!: list.pred_mono_strong intro!: valid_utf8_ascii)
  have keys: "list_all valid_utf8 [''remote_addr'', ''time_local'', ''request_method'', ''uri'', ''status'', ''http_user_agent'']"
    by (simp add: valid_utf8_ascii)
  have clean: "clean (json_entry a) = json_entry a"
    using keys peer(2) st(2) assms(3-6) by (simp add: json_entry_def trimmed_text_def)
  have "json_ok 0 (json_entry a)" by (simp add: json_entry_def max_depth_def)
  from parse_json_encode[OF this, of "[]"] clean have "unmarshal (json_line a) = Some (json_entry a)"
    by (simp add: unmarshal_def json_line_def num_end_def)
  then have "unmarshal_map L (json_line a) = Some [(''remote_addr'', JStr (IP_String (ac_peer a))), (''time_local'', JStr (ac_time a)),
     (''request_method'', JStr (ac_method a)), (''uri'', JStr (ac_uri a)), (''status'', JStr (FormatInt (ac_status a))),
     (''http_user_agent'', JStr (ac_agent a))]" by (simp add: unmarshal_map_def json_entry_def)
  then have "parseNginxJSON L (json_line a) cfg = Some (logged_event L a t (json_line a))"
    using assms st(1) peer(1)
    by (simp add: parseNginxJSON_def jsonString_def jsonInt_def lookup_def request_parts_def nginxJSONTimestamp_def first_time_def
        trimmed_text_def TrimSpace_IP_String newNginxEvent_direct logged_event_def entry_ok_def)
  moreover have "json_line a \<noteq> []" "hd (json_line a) = CHR ''{''" "last (json_line a) = CHR ''}''"
    by (simp_all add: json_line_def json_entry_def)
  ultimately show ?thesis by (simp add: ParseNginxLine_def plain_eval)
qed



end
