(* ===== verification/Migration.thy ===== *)
theory Migration
  imports Schema
begin

text \<open>
  Creating and upgrading the tables (\<^verbatim>\<open>src/db.go\<close>, \<^verbatim>\<open>EnsureSchema\<close> and \<^verbatim>\<open>ensureColumns\<close>): the schema of
  the database as a catalog, the statements of the script on it, and the columns that are added
  to tables an older version has created.
\<close>

section \<open>Catalogs and statements\<close>

text \<open>A column with its type as written. A table maps to its columns, in order.\<close>

type_synonym column = "string \<times> string"

record catalog =
  ct_tables :: "string \<rightharpoonup> column list"
  ct_indexes :: "string set"
  ct_constraints :: "(string \<times> string) set"

datatype ddl = CreateTable string "column list" | CreateIndex string string "string list"

definition column_names :: "column list \<Rightarrow> string set" where
  "column_names cs = fst ` set cs"

text \<open>
  Both with \<^verbatim>\<open>IF NOT EXISTS\<close>; the columns of an index are those it is on and the one its condition
  names. The server checks that they exist.
\<close>

fun exec_ddl :: "ddl \<Rightarrow> catalog \<Rightarrow> catalog result" where
  "exec_ddl (CreateTable t cols) c =
    (case ct_tables c t of Some _ \<Rightarrow> Inr c | None \<Rightarrow> Inr (c\<lparr>ct_tables := (ct_tables c)(t \<mapsto> cols)\<rparr>))"
| "exec_ddl (CreateIndex i t cols) c =
    (if i \<in> ct_indexes c then Inr c
     else case ct_tables c t of
            None \<Rightarrow> Inl (''relation does not exist: '' @ t)
          | Some cs \<Rightarrow> if set cols \<subseteq> column_names cs then Inr (c\<lparr>ct_indexes := insert i (ct_indexes c)\<rparr>)
                      else Inl (''column does not exist in '' @ t))"

section \<open>The script\<close>

definition text_default :: string where
  "text_default = ''TEXT NOT NULL DEFAULT '' @ [CHR 0x27, CHR 0x27]"

definition maillog_entries_columns :: "column list" where
  "maillog_entries_columns =
   [(''id'', ''BIGSERIAL PRIMARY KEY''), (''ts_utc'', ''TIMESTAMPTZ NOT NULL''), (''host'', ''TEXT''),
    (''process'', ''TEXT''), (''queue_id'', ''TEXT''), (''mail_from'', ''TEXT''), (''mail_to'', ''TEXT''),
    (''status'', ''TEXT''), (''relay'', ''TEXT''), (''delay'', ''REAL''), (''delays'', ''TEXT''),
    (''dsn'', ''TEXT''), (''message_id'', ''TEXT''), (''size_bytes'', ''INTEGER''), (''queued_as'', ''TEXT''),
    (''mail_id'', ''TEXT''), (''subject'', ''TEXT''), (''hits'', ''REAL''), (''helo'', ''TEXT''),
    (''amavis_origin'', ''TEXT''), (''is_junk'', ''BOOLEAN NOT NULL DEFAULT FALSE''), (''spam_score'', ''REAL''),
    (''raw'', ''TEXT NOT NULL''), (''raw_hash'', ''TEXT NOT NULL UNIQUE'')]"

definition mail_transactions_columns :: "column list" where
  "mail_transactions_columns =
   [(''id'', ''BIGSERIAL PRIMARY KEY''), (''arrival_ts_utc'', ''TIMESTAMPTZ NOT NULL''),
    (''last_ts_utc'', ''TIMESTAMPTZ NOT NULL''), (''queue_id'', ''TEXT NOT NULL''), (''host'', text_default),
    (''process'', text_default), (''mail_from'', text_default), (''mail_to'', text_default),
    (''status'', text_default), (''relay'', text_default), (''delay'', ''REAL''), (''delays'', text_default),
    (''dsn'', text_default), (''message_id'', text_default), (''size_bytes'', ''INTEGER''),
    (''queued_as'', text_default), (''mail_id'', text_default), (''subject'', text_default), (''hits'', ''REAL''),
    (''helo'', text_default), (''amavis_origin'', text_default), (''is_junk'', ''BOOLEAN NOT NULL DEFAULT FALSE''),
    (''spam_score'', ''REAL''), (''raw'', text_default), (''terminal'', ''BOOLEAN NOT NULL DEFAULT FALSE''),
    (''timed_out'', ''BOOLEAN NOT NULL DEFAULT FALSE''), (''updated_at'', ''TIMESTAMPTZ NOT NULL'')]"

definition ingest_state_columns :: "column list" where
  "ingest_state_columns =
   [(''key'', ''TEXT PRIMARY KEY''), (''offset_bytes'', ''BIGINT NOT NULL''), (''inode'', ''BIGINT NOT NULL''),
    (''updated_at'', ''TIMESTAMPTZ NOT NULL'')]"

definition nginx_security_events_columns :: "column list" where
  "nginx_security_events_columns =
   [(''id'', ''BIGSERIAL PRIMARY KEY''), (''ts_utc'', ''TIMESTAMPTZ NOT NULL''),
    (''remote_ip'', ''TEXT NOT NULL''), (''method'', text_default), (''path'', text_default),
    (''status'', ''INTEGER NOT NULL''), (''user_agent'', text_default), (''raw'', ''TEXT NOT NULL''),
    (''raw_hash'', ''TEXT NOT NULL'')]"

definition nginx_ip_detection_state_columns :: "column list" where
  "nginx_ip_detection_state_columns =
   [(''remote_ip'', ''TEXT PRIMARY KEY''), (''consecutive_404'', ''INTEGER NOT NULL DEFAULT 0''),
    (''streak_started_at'', ''TIMESTAMPTZ''), (''last_seen_at'', ''TIMESTAMPTZ NOT NULL''),
    (''last_status'', ''INTEGER NOT NULL'')]"

definition security_offenders_columns :: "column list" where
  "security_offenders_columns =
   [(''remote_ip'', ''TEXT PRIMARY KEY''), (''reason'', ''TEXT NOT NULL''),
    (''first_seen_at'', ''TIMESTAMPTZ NOT NULL''), (''last_seen_at'', ''TIMESTAMPTZ NOT NULL''),
    (''attempt_count'', ''INTEGER NOT NULL''), (''last_path'', text_default),
    (''flagged'', ''BOOLEAN NOT NULL DEFAULT TRUE''), (''dismissed_at'', ''TIMESTAMPTZ''),
    (''updated_at'', ''TIMESTAMPTZ NOT NULL'')]"

definition firewall_blocks_columns :: "column list" where
  "firewall_blocks_columns =
   [(''remote_ip'', ''TEXT PRIMARY KEY''), (''active'', ''BOOLEAN NOT NULL DEFAULT FALSE''),
    (''blocked_at'', ''TIMESTAMPTZ''), (''expires_at'', ''TIMESTAMPTZ''), (''blocked_by'', ''BIGINT''),
    (''last_error'', text_default), (''updated_at'', ''TIMESTAMPTZ NOT NULL'')]"

definition security_audit_log_columns :: "column list" where
  "security_audit_log_columns =
   [(''id'', ''BIGSERIAL PRIMARY KEY''), (''ts_utc'', ''TIMESTAMPTZ NOT NULL''), (''actor_user_id'', ''BIGINT''),
    (''action'', ''TEXT NOT NULL''), (''remote_ip'', text_default), (''detail'', text_default),
    (''success'', ''BOOLEAN NOT NULL'')]"

definition dashboard_users_columns :: "column list" where
  "dashboard_users_columns =
   [(''id'', ''BIGSERIAL PRIMARY KEY''), (''email'', ''TEXT NOT NULL UNIQUE''),
    (''password_hash'', ''TEXT NOT NULL''),
    (''role'', (''TEXT NOT NULL CHECK (role IN ('' @ [CHR 0x27] @ ''admin'' @ [CHR 0x27] @ '', '' @ [CHR 0x27] @ ''user'' @ [CHR 0x27] @ ''))'')),
    (''created_at'', ''TIMESTAMPTZ NOT NULL DEFAULT NOW()'')]"

definition dashboard_sessions_columns :: "column list" where
  "dashboard_sessions_columns =
   [(''token_hash'', ''TEXT PRIMARY KEY''),
    (''user_id'', ''BIGINT NOT NULL REFERENCES dashboard_users(id) ON DELETE CASCADE''),
    (''expires_at'', ''TIMESTAMPTZ NOT NULL''), (''created_at'', ''TIMESTAMPTZ NOT NULL DEFAULT NOW()'')]"

definition schema_script :: "ddl list" where
  "schema_script =
   [CreateTable ''maillog_entries'' maillog_entries_columns,
    CreateIndex ''idx_maillog_ts'' ''maillog_entries'' [''ts_utc''],
    CreateIndex ''idx_maillog_from'' ''maillog_entries'' [''mail_from''],
    CreateIndex ''idx_maillog_to'' ''maillog_entries'' [''mail_to''],
    CreateIndex ''idx_maillog_status'' ''maillog_entries'' [''status''],
    CreateIndex ''idx_maillog_queue'' ''maillog_entries'' [''queue_id''],
    CreateTable ''mail_transactions'' mail_transactions_columns,
    CreateIndex ''idx_mail_transactions_arrival'' ''mail_transactions'' [''arrival_ts_utc''],
    CreateIndex ''idx_mail_transactions_from'' ''mail_transactions'' [''mail_from''],
    CreateIndex ''idx_mail_transactions_to'' ''mail_transactions'' [''mail_to''],
    CreateIndex ''idx_mail_transactions_status'' ''mail_transactions'' [''status''],
    CreateIndex ''idx_mail_transactions_queue'' ''mail_transactions'' [''queue_id''],
    CreateIndex ''idx_mail_transactions_active_queue'' ''mail_transactions'' [''queue_id'', ''terminal''],
    CreateTable ''ingest_state'' ingest_state_columns,
    CreateTable ''nginx_security_events'' nginx_security_events_columns,
    CreateIndex ''idx_nginx_security_events_ts'' ''nginx_security_events'' [''ts_utc''],
    CreateIndex ''idx_nginx_security_events_ip_ts'' ''nginx_security_events'' [''remote_ip'', ''ts_utc''],
    CreateIndex ''idx_nginx_security_events_status_ts'' ''nginx_security_events'' [''status'', ''ts_utc''],
    CreateTable ''nginx_ip_detection_state'' nginx_ip_detection_state_columns,
    CreateTable ''security_offenders'' security_offenders_columns,
    CreateIndex ''idx_security_offenders_last_seen'' ''security_offenders'' [''last_seen_at''],
    CreateIndex ''idx_security_offenders_flagged'' ''security_offenders'' [''flagged'', ''last_seen_at''],
    CreateTable ''firewall_blocks'' firewall_blocks_columns,
    CreateIndex ''idx_firewall_blocks_active'' ''firewall_blocks'' [''active'', ''updated_at''],
    CreateTable ''security_audit_log'' security_audit_log_columns,
    CreateIndex ''idx_security_audit_ts'' ''security_audit_log'' [''ts_utc''],
    CreateTable ''dashboard_users'' dashboard_users_columns,
    CreateIndex ''idx_dashboard_users_role'' ''dashboard_users'' [''role''],
    CreateTable ''dashboard_sessions'' dashboard_sessions_columns,
    CreateIndex ''idx_dashboard_sessions_user'' ''dashboard_sessions'' [''user_id''],
    CreateIndex ''idx_dashboard_sessions_expires'' ''dashboard_sessions'' [''expires_at'']]"

section \<open>Adding columns\<close>

text \<open>The statements that may fail, for the error of each.\<close>

datatype ddl_stmt = CreateSchema | DropConstraint | TableInfo string | TableInfoScan string | TableInfoRows string
  | AddColumn string string

type_synonym ddl_faults = "ddl_stmt \<Rightarrow> err option"

definition colTypes :: "string \<rightharpoonup> string" where
  "colTypes = map_of [(''queued_as'', ''TEXT''), (''mail_id'', ''TEXT''), (''subject'', ''TEXT''), (''hits'', ''REAL''),
     (''helo'', ''TEXT''), (''amavis_origin'', ''TEXT''), (''is_junk'', ''BOOLEAN NOT NULL DEFAULT FALSE''), (''spam_score'', ''REAL'')]"

definition colType :: "string \<Rightarrow> string" where
  "colType col = (case colTypes col of None \<Rightarrow> ''TEXT'' | Some t \<Rightarrow> t)"

definition alter_add :: "string \<Rightarrow> column \<Rightarrow> catalog \<Rightarrow> catalog result" where
  "alter_add t col c =
    (case ct_tables c t of None \<Rightarrow> Inl (''relation does not exist: '' @ t)
     | Some cs \<Rightarrow> if fst col \<in> column_names cs then Inl (''column already exists: '' @ fst col)
                 else Inr (c\<lparr>ct_tables := (ct_tables c)(t \<mapsto> cs @ [col])\<rparr>))"

fun add_columns :: "ddl_faults \<Rightarrow> string \<Rightarrow> string set \<Rightarrow> string list \<Rightarrow> catalog \<Rightarrow> catalog \<times> err option" where
  "add_columns flt t existing [] c = (c, None)"
| "add_columns flt t existing (col # cols) c =
    (if col \<in> existing then add_columns flt t existing cols c
     else case flt (AddColumn t col) of Some x \<Rightarrow> (c, Some (''add column '' @ col @ '': '' @ x))
     | None \<Rightarrow> (case alter_add t (col, colType col) c of
                 Inl x \<Rightarrow> (c, Some (''add column '' @ col @ '': '' @ x))
               | Inr c' \<Rightarrow> add_columns flt t existing cols c'))"

definition existing_columns :: "string \<Rightarrow> catalog \<Rightarrow> string set" where
  "existing_columns t c = (case ct_tables c t of None \<Rightarrow> {} | Some cs \<Rightarrow> column_names cs)"

definition ensureColumns :: "ddl_faults \<Rightarrow> string \<Rightarrow> string list \<Rightarrow> catalog \<Rightarrow> catalog \<times> err option" where
  "ensureColumns flt t cols c =
    (case flt (TableInfo t) of Some x \<Rightarrow> (c, Some (''table_info: '' @ x))
     | None \<Rightarrow> (case flt (TableInfoScan t) of Some x \<Rightarrow> (c, Some (''table_info scan: '' @ x))
     | None \<Rightarrow> (case flt (TableInfoRows t) of Some x \<Rightarrow> (c, Some (''table_info rows: '' @ x))
     | None \<Rightarrow> add_columns flt t (existing_columns t c) cols c)))"

definition maillog_upgrade :: "string list" where
  "maillog_upgrade = [''queued_as'', ''mail_id'', ''subject'', ''hits'', ''helo'', ''amavis_origin'', ''is_junk'', ''spam_score'']"

definition transactions_upgrade :: "string list" where
  "transactions_upgrade = [''is_junk'', ''spam_score'']"

text \<open>
  The script is sent as one command, which the server runs as one transaction; the other statements
  commit on their own, so an error leaves what was done before it.
\<close>

definition EnsureSchema :: "ddl_faults \<Rightarrow> catalog \<Rightarrow> catalog \<times> err option" where
  "EnsureSchema flt c =
    (case flt CreateSchema of Some x \<Rightarrow> (c, Some (''create schema: '' @ x))
     | None \<Rightarrow>
    (case fold_result exec_ddl schema_script c of Inl x \<Rightarrow> (c, Some (''create schema: '' @ x))
     | Inr c1 \<Rightarrow>
    (case flt DropConstraint of Some x \<Rightarrow> (c1, Some (''drop legacy nginx raw hash uniqueness: '' @ x))
     | None \<Rightarrow>
       let c2 = c1\<lparr>ct_constraints := ct_constraints c1 - {(''nginx_security_events'', ''nginx_security_events_raw_hash_key'')}\<rparr>
       in (case ensureColumns flt ''maillog_entries'' maillog_upgrade c2 of
             (c3, Some x) \<Rightarrow> (c3, Some x)
           | (c3, None) \<Rightarrow> ensureColumns flt ''mail_transactions'' transactions_upgrade c3))))"

section \<open>What the program relies on\<close>

definition schema_tables :: "string \<rightharpoonup> column list" where
  "schema_tables = map_of (concat (map (\<lambda>d. case d of CreateTable t cols \<Rightarrow> [(t, cols)] | CreateIndex i t cols \<Rightarrow> []) schema_script))"

definition schema_complete :: "catalog \<Rightarrow> bool" where
  "schema_complete c \<longleftrightarrow> (\<forall>t cols. schema_tables t = Some cols \<longrightarrow>
     (\<exists>cs. ct_tables c t = Some cs \<and> column_names cols \<subseteq> column_names cs))"

text \<open>The columns an older version may not have.\<close>

definition upgradable :: "string \<Rightarrow> string set" where
  "upgradable t = (if t = ''maillog_entries'' then set maillog_upgrade
     else if t = ''mail_transactions'' then set transactions_upgrade else {})"

text \<open>A table that exists has every column of the schema, but for those that can be added.\<close>

definition upgrade_ok :: "catalog \<Rightarrow> bool" where
  "upgrade_ok c \<longleftrightarrow> (\<forall>t cols cs. schema_tables t = Some cols \<longrightarrow> ct_tables c t = Some cs \<longrightarrow>
     column_names cols - upgradable t \<subseteq> column_names cs)"

definition keeps_columns :: "catalog \<Rightarrow> catalog \<Rightarrow> bool" where
  "keeps_columns c c' \<longleftrightarrow> (\<forall>t cs. ct_tables c t = Some cs \<longrightarrow> (\<exists>cs'. ct_tables c' t = Some cs' \<and> prefix cs cs'))"

lemma keeps_columns_refl [simp]: "keeps_columns c c"
  by (simp add: keeps_columns_def)

lemma keeps_columns_trans: "keeps_columns c c' \<Longrightarrow> keeps_columns c' c'' \<Longrightarrow> keeps_columns c c''"
  unfolding keeps_columns_def by (meson prefix_order.trans)

lemma column_names_prefix: "prefix cs cs' \<Longrightarrow> column_names cs \<subseteq> column_names cs'"
  by (auto simp: column_names_def prefix_def)

section \<open>The script on an older catalog\<close>

text \<open>An index of the script is on columns no upgrade adds, of a table the script has created before.\<close>

fun script_ok :: "string set \<Rightarrow> ddl list \<Rightarrow> bool" where
  "script_ok ts [] = True"
| "script_ok ts (CreateTable t cols # ds) = (schema_tables t = Some cols \<and> script_ok (insert t ts) ds)"
| "script_ok ts (CreateIndex i t cols # ds) = (t \<in> ts
     \<and> (case schema_tables t of None \<Rightarrow> False | Some sc \<Rightarrow> set cols \<subseteq> column_names sc - upgradable t) \<and> script_ok ts ds)"

lemma schema_script_ok: "script_ok {} schema_script"
  by code_simp

lemma exec_script:
  assumes "script_ok ts ds" and "upgrade_ok c" and "ts \<subseteq> dom (ct_tables c)"
  shows "\<exists>c'. fold_result exec_ddl ds c = Inr c' \<and> upgrade_ok c' \<and> keeps_columns c c'"
  using assms
proof (induction ts ds arbitrary: c rule: script_ok.induct)
  case (2 ts t cols ds)
  define c1 where "c1 = (case ct_tables c t of Some _ \<Rightarrow> c | None \<Rightarrow> c\<lparr>ct_tables := (ct_tables c)(t \<mapsto> cols)\<rparr>)"
  have "exec_ddl (CreateTable t cols) c = Inr c1" by (simp add: c1_def split: option.splits)
  moreover have "upgrade_ok c1" using 2 by (auto simp: upgrade_ok_def c1_def split: option.splits)
  moreover have "keeps_columns c c1" by (auto simp: keeps_columns_def c1_def split: option.splits)
  moreover have "insert t ts \<subseteq> dom (ct_tables c1)" using "2.prems"(3) by (auto simp: c1_def split: option.splits)
  ultimately show ?case using 2 keeps_columns_trans by (auto) blast
next
  case (3 ts i t cols ds)
  obtain sc cs where t: "schema_tables t = Some sc" "set cols \<subseteq> column_names sc - upgradable t" "ct_tables c t = Some cs"
    using "3.prems" by (auto split: option.splits)
  then have "set cols \<subseteq> column_names cs" using "3.prems"(2) unfolding upgrade_ok_def by blast
  then obtain c1 where c1: "exec_ddl (CreateIndex i t cols) c = Inr c1" "ct_tables c1 = ct_tables c"
    using t(3) by (cases "i \<in> ct_indexes c") auto
  then have "upgrade_ok c1" "keeps_columns c c1" using "3.prems"(2) c1(2) by (auto simp: upgrade_ok_def keeps_columns_def)
  moreover have "ts \<subseteq> dom (ct_tables c1)" using "3.prems"(3) c1(2) by simp
  ultimately obtain c2 where "fold_result exec_ddl ds c1 = Inr c2" "upgrade_ok c2" "keeps_columns c c2"
    using "3.IH"[of c1] "3.prems"(1) keeps_columns_trans by (simp only: script_ok.simps) blast
  then show ?case using c1(1) by (intro exI[of _ c2]) (simp only: fold_result.simps sum.simps)
qed simp

text \<open>What is done once is not done again.\<close>

fun settled :: "catalog \<Rightarrow> ddl \<Rightarrow> bool" where
  "settled c (CreateTable t cols) = (ct_tables c t \<noteq> None)"
| "settled c (CreateIndex i t cols) = (i \<in> ct_indexes c)"

lemma exec_settled: "exec_ddl d c = Inr c' \<Longrightarrow> settled c' d \<and> (\<forall>e. settled c e \<longrightarrow> settled c' e)"
proof (cases d)
  case (CreateTable t cols)
  assume "exec_ddl d c = Inr c'"
  then have "ct_tables c' t \<noteq> None \<and> (\<forall>x. ct_tables c x \<noteq> None \<longrightarrow> ct_tables c' x \<noteq> None) \<and> ct_indexes c' = ct_indexes c"
    using CreateTable by (auto split: option.splits)
  then show ?thesis using CreateTable by (auto elim!: settled.elims)
next
  case (CreateIndex i t cols)
  assume "exec_ddl d c = Inr c'"
  then have "i \<in> ct_indexes c' \<and> ct_tables c' = ct_tables c \<and> ct_indexes c \<subseteq> ct_indexes c'"
    using CreateIndex by (auto split: option.splits if_splits)
  then show ?thesis using CreateIndex by (auto elim!: settled.elims)
qed

lemma script_settled:
  "fold_result exec_ddl ds c = Inr c' \<Longrightarrow> list_all (settled c') ds \<and> (\<forall>e. settled c e \<longrightarrow> settled c' e)"
proof (induction ds arbitrary: c)
  case (Cons d ds)
  then obtain c1 where "exec_ddl d c = Inr c1" "fold_result exec_ddl ds c1 = Inr c'" by (auto split: sum.splits)
  then show ?case using exec_settled Cons.IH by fastforce
qed simp

lemma settled_script: "list_all (settled c) ds \<Longrightarrow> fold_result exec_ddl ds c = Inr c"
proof (induction ds)
  case (Cons d ds)
  then have "exec_ddl d c = Inr c" by (cases d) auto
  then show ?case using Cons by simp
qed simp

section \<open>The added columns\<close>

lemma alter_add_effect:
  "alter_add t col c = Inr c' \<Longrightarrow> \<exists>cs. ct_tables c t = Some cs \<and> fst col \<notin> column_names cs
     \<and> c' = c\<lparr>ct_tables := (ct_tables c)(t \<mapsto> cs @ [col])\<rparr>"
  by (auto simp: alter_add_def split: option.splits if_splits)

lemma add_columns_effect:
  assumes "add_columns flt t existing cols c = (c', e)" and "existing \<subseteq> existing_columns t c"
  shows "keeps_columns c c'" and "ct_indexes c' = ct_indexes c" and "ct_constraints c' = ct_constraints c"
    and "dom (ct_tables c') = dom (ct_tables c)" and "t' \<noteq> t \<Longrightarrow> ct_tables c' t' = ct_tables c t'"
    and "e = None \<Longrightarrow> set cols \<subseteq> existing_columns t c'"
proof -
  have "keeps_columns c c' \<and> ct_indexes c' = ct_indexes c \<and> ct_constraints c' = ct_constraints c
    \<and> dom (ct_tables c') = dom (ct_tables c) \<and> (\<forall>t'. t' \<noteq> t \<longrightarrow> ct_tables c' t' = ct_tables c t')
    \<and> existing_columns t c \<subseteq> existing_columns t c'
    \<and> (e = None \<longrightarrow> set cols \<subseteq> existing_columns t c')"
    using assms
  proof (induction cols arbitrary: c)
    case (Cons col cols)
    show ?case
    proof (cases "col \<in> existing")
      case True
      then show ?thesis using Cons.IH[of c] Cons.prems by auto
    next
      case False
      show ?thesis
      proof (cases "\<exists>c1. flt (AddColumn t col) = None \<and> alter_add t (col, colType col) c = Inr c1")
        case True
        then obtain c1 where ok: "flt (AddColumn t col) = None" "alter_add t (col, colType col) c = Inr c1" by blast
        obtain cs where cs: "ct_tables c t = Some cs" "c1 = c\<lparr>ct_tables := (ct_tables c)(t \<mapsto> cs @ [(col, colType col)])\<rparr>"
          using alter_add_effect[OF ok(2)] by auto
        have names: "existing_columns t c1 = insert col (existing_columns t c)"
          by (simp add: existing_columns_def cs column_names_def)
        have k: "keeps_columns c c1" "dom (ct_tables c1) = dom (ct_tables c)" "ct_indexes c1 = ct_indexes c"
          "ct_constraints c1 = ct_constraints c" "\<forall>t'. t' \<noteq> t \<longrightarrow> ct_tables c1 t' = ct_tables c t'"
          using cs by (auto simp: keeps_columns_def)
        have "add_columns flt t existing cols c1 = (c', e)" using Cons.prems(1) False ok by simp
        note ih = Cons.IH[OF this]
        have "existing \<subseteq> existing_columns t c1" using Cons.prems(2) names by blast
        from ih[OF this] show ?thesis using keeps_columns_trans[OF k(1)] names k(2-5) by simp
      next
        case no: False
        then have "c' = c" "e \<noteq> None" using Cons.prems(1) False by (auto split: option.splits sum.splits)
        then show ?thesis by auto
      qed
    qed
  qed simp
  then show "keeps_columns c c'" and "ct_indexes c' = ct_indexes c" and "ct_constraints c' = ct_constraints c"
    and "dom (ct_tables c') = dom (ct_tables c)" and "t' \<noteq> t \<Longrightarrow> ct_tables c' t' = ct_tables c t'"
    and "e = None \<Longrightarrow> set cols \<subseteq> existing_columns t c'" by blast+
qed

lemma add_columns_succeeds:
  assumes "\<forall>col. flt (AddColumn t col) = None" and "t \<in> dom (ct_tables c)" and "distinct cols"
    and "existing_columns t c \<inter> set cols \<subseteq> existing"
  shows "\<exists>c'. add_columns flt t existing cols c = (c', None)"
  using assms
proof (induction cols arbitrary: c)
  case (Cons col cols)
  obtain cs where cs: "ct_tables c t = Some cs" using Cons.prems(2) by blast
  show ?case
  proof (cases "col \<in> existing")
    case True
    then show ?thesis using Cons.IH[of c] Cons.prems by auto
  next
    case False
    then have "col \<notin> column_names cs" using Cons.prems(4) cs by (auto simp: existing_columns_def)
    then have add: "alter_add t (col, colType col) c = Inr (c\<lparr>ct_tables := (ct_tables c)(t \<mapsto> cs @ [(col, colType col)])\<rparr>)"
      by (simp add: alter_add_def cs)
    have "\<exists>c'. add_columns flt t existing cols (c\<lparr>ct_tables := (ct_tables c)(t \<mapsto> cs @ [(col, colType col)])\<rparr>) = (c', None)"
      using Cons.prems cs by (intro Cons.IH) (auto simp: existing_columns_def column_names_def)
    then show ?thesis using False add Cons.prems(1) by simp
  qed
qed simp

lemma add_columns_nothing: "set cols \<subseteq> existing \<Longrightarrow> add_columns flt t existing cols c = (c, None)"
  by (induction cols) auto

section \<open>The upgrade\<close>

lemma ensureColumns_add:
  "ensureColumns flt t cols c = (c', e) \<Longrightarrow>
   (c' = c \<and> e \<noteq> None) \<or> add_columns flt t (existing_columns t c) cols c = (c', e)"
  by (auto simp: ensureColumns_def split: option.splits)

lemmas ensureColumns_effect = add_columns_effect[OF _ subset_refl]

lemma ensureColumns_frame:
  assumes "ensureColumns flt t cols c = (c', e)"
  shows "keeps_columns c c'" and "ct_indexes c' = ct_indexes c" and "ct_constraints c' = ct_constraints c"
    and "dom (ct_tables c') = dom (ct_tables c)" and "t' \<noteq> t \<Longrightarrow> ct_tables c' t' = ct_tables c t'"
    and "e = None \<Longrightarrow> set cols \<subseteq> existing_columns t c'"
  using ensureColumns_add[OF assms] ensureColumns_effect[of flt t c cols c' e] by auto

lemma existing_columns_mono: "keeps_columns c c' \<Longrightarrow> existing_columns t c \<subseteq> existing_columns t c'"
proof (cases "ct_tables c t")
  case (Some cs)
  assume "keeps_columns c c'"
  then obtain cs' where "ct_tables c' t = Some cs'" "prefix cs cs'" using Some unfolding keeps_columns_def by blast
  then show ?thesis using Some column_names_prefix by (simp add: existing_columns_def)
qed (simp add: existing_columns_def)

text \<open>Columns are only ever added to tables that exist, so the catalog stays one that can be upgraded.\<close>

lemma upgrade_ok_keeps:
  assumes "upgrade_ok c" and "keeps_columns c c'" and "dom (ct_tables c') = dom (ct_tables c)"
  shows "upgrade_ok c'"
  unfolding upgrade_ok_def
proof (intro allI impI)
  fix t cols cs
  assume t: "schema_tables t = Some cols" "ct_tables c' t = Some cs"
  then obtain cs0 where "ct_tables c t = Some cs0" using assms(3) by blast
  then have "column_names cols - upgradable t \<subseteq> column_names cs0" "\<exists>cs'. ct_tables c' t = Some cs' \<and> prefix cs0 cs'"
    using assms(1,2) t(1) unfolding upgrade_ok_def keeps_columns_def by blast+
  then show "column_names cols - upgradable t \<subseteq> column_names cs" using t(2) column_names_prefix by fastforce
qed

lemma EnsureSchema_cases:
  assumes "EnsureSchema flt c = (c', e)" and "upgrade_ok c"
  obtains (failed) "c' = c" "e \<noteq> None" "flt CreateSchema \<noteq> None"
  | (script) c1 where "fold_result exec_ddl schema_script c = Inr c1" "upgrade_ok c1" "keeps_columns c c1"
      "c' = c1" "e \<noteq> None" "flt DropConstraint \<noteq> None"
  | (columns) c1 c2 c3 e3 where "fold_result exec_ddl schema_script c = Inr c1" "upgrade_ok c1" "keeps_columns c c1"
      "c2 = c1\<lparr>ct_constraints := ct_constraints c1 - {(''nginx_security_events'', ''nginx_security_events_raw_hash_key'')}\<rparr>"
      "ensureColumns flt ''maillog_entries'' maillog_upgrade c2 = (c3, e3)"
      "if e3 = None then ensureColumns flt ''mail_transactions'' transactions_upgrade c3 = (c', e) else c' = c3 \<and> e = e3"
proof -
  obtain c1 where c1: "fold_result exec_ddl schema_script c = Inr c1" "upgrade_ok c1" "keeps_columns c c1"
    using exec_script[OF schema_script_ok assms(2)] by auto
  define c2 where "c2 = c1\<lparr>ct_constraints := ct_constraints c1 - {(''nginx_security_events'', ''nginx_security_events_raw_hash_key'')}\<rparr>"
  obtain c3 e3 where c3: "ensureColumns flt ''maillog_entries'' maillog_upgrade c2 = (c3, e3)" by fastforce
  consider "flt CreateSchema \<noteq> None" | "flt CreateSchema = None" "flt DropConstraint \<noteq> None"
    | "flt CreateSchema = None" "flt DropConstraint = None" by blast
  then show thesis
  proof cases
    case 1
    then show thesis using assms(1) by (intro failed) (auto simp: EnsureSchema_def)
  next
    case 2
    then show thesis using assms(1) c1 by (intro script[of c1]) (auto simp: EnsureSchema_def)
  next
    case 3
    then show thesis using assms(1) c1 c3
      by (intro columns[OF c1 c2_def c3]) (auto simp: EnsureSchema_def c2_def Let_def split: option.splits)
  qed
qed

lemma schema_tables_script: "schema_tables t = Some cols \<Longrightarrow> CreateTable t cols \<in> set schema_script"
  by (auto simp: schema_tables_def dest!: map_of_SomeD split: ddl.splits)

lemma settled_tables:
  assumes "list_all (settled c) schema_script" and "schema_tables t = Some cols"
  shows "t \<in> dom (ct_tables c)"
  using assms schema_tables_script by (fastforce simp: list_all_iff)

lemma upgraded_tables: "\<exists>cols. schema_tables ''maillog_entries'' = Some cols" "\<exists>cols. schema_tables ''mail_transactions'' = Some cols"
  by (simp_all add: schema_tables_def schema_script_def)

lemma settled_same:
  "dom (ct_tables c') = dom (ct_tables c) \<Longrightarrow> ct_indexes c' = ct_indexes c \<Longrightarrow> settled c' d = settled c d"
  by (cases d) auto

lemma EnsureSchema_keeps:
  assumes "upgrade_ok c" and "EnsureSchema flt c = (c', e)"
  shows "keeps_columns c c' \<and> upgrade_ok c'"
  using assms(2,1)
proof (cases rule: EnsureSchema_cases)
  case (columns c1 c2 c3 e3)
  have "keeps_columns c c2" "upgrade_ok c2" using columns(2-4) by (simp_all add: keeps_columns_def upgrade_ok_def)
  moreover note f = ensureColumns_frame[OF columns(5)]
  ultimately have 3: "keeps_columns c c3" "upgrade_ok c3"
    using keeps_columns_trans upgrade_ok_keeps[OF _ f(1,4)] by blast+
  show ?thesis
  proof (cases "e3 = None")
    case True
    then have "ensureColumns flt ''mail_transactions'' transactions_upgrade c3 = (c', e)" using columns(6) by simp
    note g = ensureColumns_frame[OF this]
    show ?thesis using keeps_columns_trans[OF 3(1) g(1)] upgrade_ok_keeps[OF 3(2) g(1,4)] by blast
  qed (use 3 columns(6) in simp)
qed (use assms(1) in auto)

lemma EnsureSchema_done:
  assumes "upgrade_ok c" and "EnsureSchema flt c = (c', None)"
  shows "schema_complete c'" and "(\<And>s. flt' s = None) \<Longrightarrow> EnsureSchema flt' c' = (c', None)"
proof -
  from assms(2,1) obtain c1 c2 c3 where 1: "fold_result exec_ddl schema_script c = Inr c1"
    and c2: "c2 = c1\<lparr>ct_constraints := ct_constraints c1 - {(''nginx_security_events'', ''nginx_security_events_raw_hash_key'')}\<rparr>"
    and 3: "ensureColumns flt ''maillog_entries'' maillog_upgrade c2 = (c3, None)"
    and 4: "ensureColumns flt ''mail_transactions'' transactions_upgrade c3 = (c', None)"
    by (cases rule: EnsureSchema_cases) (auto split: if_splits)
  note f = ensureColumns_frame[OF 3] and g = ensureColumns_frame[OF 4]
  have same: "dom (ct_tables c') = dom (ct_tables c1)" "ct_indexes c' = ct_indexes c1" using f(2,4) g(2,4) by (simp_all add: c2)
  have "list_all (settled c1) schema_script" using script_settled[OF 1] by blast
  then have settled: "list_all (settled c') schema_script" using settled_same[OF same] by (simp add: list_all_iff)
  have cols: "set maillog_upgrade \<subseteq> existing_columns ''maillog_entries'' c'" "set transactions_upgrade \<subseteq> existing_columns ''mail_transactions'' c'"
    using f(6) g(6) existing_columns_mono[OF g(1)] by auto
  have up: "upgradable t \<subseteq> existing_columns t c'" for t using cols by (auto simp: upgradable_def)
  show "schema_complete c'"
    unfolding schema_complete_def
  proof (intro allI impI)
    fix t cols
    assume t: "schema_tables t = Some cols"
    obtain cs where cs: "ct_tables c' t = Some cs" using settled_tables[OF settled t] by blast
    have "column_names cols - upgradable t \<subseteq> column_names cs"
      using EnsureSchema_keeps[OF assms] t cs unfolding upgrade_ok_def by blast
    then show "\<exists>cs. ct_tables c' t = Some cs \<and> column_names cols \<subseteq> column_names cs"
      using up[of t] cs by (auto simp: existing_columns_def)
  qed
  assume nf: "\<And>s. flt' s = None"
  have con: "c'\<lparr>ct_constraints := ct_constraints c' - {(''nginx_security_events'', ''nginx_security_events_raw_hash_key'')}\<rparr> = c'"
    using f(3) g(3) by (simp add: c2)
  show "EnsureSchema flt' c' = (c', None)"
    using settled_script[OF settled] cols
    by (simp add: EnsureSchema_def nf con Let_def ensureColumns_def add_columns_nothing)
qed

lemma EnsureSchema_succeeds:
  assumes "upgrade_ok c" and "\<And>s. flt s = None"
  shows "snd (EnsureSchema flt c) = None"
proof -
  obtain c' e where E: "EnsureSchema flt c = (c', e)" by fastforce
  have add: "\<exists>c2. ensureColumns flt t cols c1 = (c2, None)" if "t \<in> dom (ct_tables c1)" "distinct cols" for t cols c1
    using add_columns_succeeds[of flt t c1 cols "existing_columns t c1"] that by (simp add: ensureColumns_def assms(2))
  from E assms(1) have "e = None"
  proof (cases rule: EnsureSchema_cases)
    case (columns c1 c2 c3 e3)
    have "list_all (settled c1) schema_script" using script_settled[OF columns(1)] by blast
    from settled_tables[OF this] have dom: "''maillog_entries'' \<in> dom (ct_tables c2)" "''mail_transactions'' \<in> dom (ct_tables c2)"
      using upgraded_tables columns(4) by auto
    have "e3 = None" using add[OF dom(1), of maillog_upgrade] columns(5) by (simp add: maillog_upgrade_def)
    moreover have "''mail_transactions'' \<in> dom (ct_tables c3)" using dom(2) ensureColumns_frame(4)[OF columns(5)] by simp
    ultimately show ?thesis using add[of "''mail_transactions''" c3 transactions_upgrade] columns(6) by (simp add: transactions_upgrade_def)
  qed (use assms(2) in auto)
  then show ?thesis by (simp add: E)
qed

end
