(* ===== verification/Spec2Isabelle.thy ===== *)
theory Spec2Isabelle
  imports Access Startup
begin

text \<open>
  A verification development for Kanyigo, a Go service that watches a mail server: it follows the mail log and the
  Nginx access log, stitches mail log lines into transactions in PostgreSQL, detects brute-force
  attacks, serves a dashboard API, and blocks addresses through a privileged firewall agent.

  \<^bold>\<open>The program and how its parts interact.\<close> \<^verbatim>\<open>main.go\<close> opens the database, brings its schema up to date, creates the first
  administrator, and then follows the mail log or serves the API, with the two ingestors beside it. An ingestor
  runs a follower (\<^verbatim>\<open>stream.go\<close>) that sends complete lines with their byte offsets over a channel; the mail ingestor
  (\<^verbatim>\<open>continuous_ingest.go\<close>) lets workers parse them (\<^verbatim>\<open>parser.go\<close>), restores their order and persists each line with the checkpoint
  behind it in one database transaction, in which the line is also merged into the open transaction of its mail queue;
  the Nginx ingestor (\<^verbatim>\<open>nginx_security.go\<close>) does the same for requests and updates the detection state of their
  addresses. The API (\<^verbatim>\<open>server.go\<close>, \<^verbatim>\<open>auth.go\<close>, \<^verbatim>\<open>security.go\<close>) reads these tables, keeps accounts and sessions, and asks the
  agent (\<^verbatim>\<open>cmd/firewall-agent\<close>, through \<^verbatim>\<open>firewall_client.go\<close>) to block and unblock addresses.

  \<^bold>\<open>Theories and what they model.\<close>

  \<^item> \<open>Prelude\<close>: Go's integers, strings, times and errors, the parameters for library code (record \<open>lib\<close>), and the
    lemmas on lists, results and strings the others share.
  \<^item> \<open>Parser\<close>, \<open>Regexp\<close>, \<open>Timestamps\<close>, \<open>ParseLine\<close>: the mail log parser of \<^verbatim>\<open>parser.go\<close>. \<open>Regexp\<close> is a backtracking matcher with
    leftmost-first preference and a calculus (\<open>eats\<close>) for the match an expression prefers; \<open>Timestamps\<close> has the layouts of \<^verbatim>\<open>time.Parse\<close>
    the program uses and \<^verbatim>\<open>inferLegacyTimestamp\<close>; \<open>ParseLine\<close> has the expressions and \<^verbatim>\<open>ParseLine\<close>.
  \<^item> \<open>Stitcher\<close>: \<^verbatim>\<open>TransactionStitcher\<close> of \<^verbatim>\<open>stream.go\<close> (\<^verbatim>\<open>Apply\<close>, \<^verbatim>\<open>EvictExpired\<close>), with the locale \<open>stitching\<close>, the contract of a store
    of open transactions.
  \<^item> \<open>Schema\<close>, \<open>Migration\<close>: the tables of \<^verbatim>\<open>db.go\<close> as lists of rows with the SQL idioms on them, and \<^verbatim>\<open>EnsureSchema\<close> and
    \<^verbatim>\<open>ensureColumns\<close> on a catalog of tables, columns and indexes.
  \<^item> \<open>Store\<close>: the statements of the mail pipeline (\<^verbatim>\<open>continuous_ingest.go\<close>, \<^verbatim>\<open>ingest.go\<close>), the interpretation of \<open>stitching\<close> on the SQL
    upsert, and the locale \<open>checkpointed\<close>, the contract of a pipeline that persists a record with its checkpoint.
  \<^item> \<open>Follower\<close>: \<^verbatim>\<open>followMailLog\<close> as a function of the views of the file the operating system shows.
  \<^item> \<open>Ingestor\<close>: the workers, the reorder buffer and the main loop of \<^verbatim>\<open>RunMailLogIngestor\<close>; a schedule is the order of events.
  \<^item> \<open>IPaddr\<close>, \<open>Networks\<close>: addresses and networks of package \<^verbatim>\<open>net\<close>; an address is printed and parsed back, a network is a bit prefix.
  \<^item> \<open>Json\<close>: the syntax, decoder and encoder of \<^verbatim>\<open>encoding/json\<close>; what is encoded is decoded.
  \<^item> \<open>Firewall\<close>: agent and client with their protocol. The commands of the host are an executor that sees the trace of
    earlier commands; the locale \<open>trace_invariant\<close> lifts what each request keeps to whole runs.
  \<^item> \<open>Detection\<close>, \<open>Durations\<close>, \<open>Nginx\<close>: \<^verbatim>\<open>nginx_security.go\<close>. \<open>Detection\<close> has the tables and the specification of a verdict,
    \<open>Nginx\<close> the two log formats, the client address and \<^verbatim>\<open>RunNginxSecurityIngestor\<close>, \<open>Durations\<close> \<^verbatim>\<open>time.ParseDuration\<close>.
  \<^item> \<open>Config\<close>, \<open>Http\<close>, \<open>Auth\<close>, \<open>Security\<close>, \<open>Server\<close>, \<open>Access\<close>: \<^verbatim>\<open>config.go\<close>, \<^verbatim>\<open>auth.go\<close>, \<^verbatim>\<open>security.go\<close>, \<^verbatim>\<open>server.go\<close>. A handler is a function of
    what surrounds it, the request and the database; \<open>Access\<close> has the properties of whole runs of the server, with the
    locale \<open>request_invariant\<close> for what every request keeps.
  \<^item> \<open>Startup\<close>: \<^verbatim>\<open>main.go\<close> with \<^verbatim>\<open>OpenDB\<close>: settings, retry loops, modes.

  The state of the service is one record \<open>db\<close> of tables. A Go error is the left of a sum or \<open>Some\<close> of a message; every early return
  is a branch. Each definition that sends SQL takes a fault oracle that may fail any statement; library code that is not
  modelled (bcrypt, sha256, the address parser of \<^verbatim>\<open>net/mail\<close>, \<^verbatim>\<open>url.ParseRequestURI\<close>, floating-point parsing and printing, and the server's conversions
  of times and texts) is a field of \<open>lib\<close>; the theorems hold for every value of it, or name what they need of it as a hypothesis.

  \<^bold>\<open>What the properties show.\<close> The numbers are those of the text blocks in front of the theorems.

  \<^item> Stitching (C1 to C5): each queue gives one transaction with the last value of each field, whatever lines come
    between; eviction is exact for every order of the map; no line is lost or doubled; the SQL upsert refines the
    in-memory stitcher.
  \<^item> Ingestion (C6 to C12, C38): a persisted line leaves all its effects or none; the follower emits the lines of the
    file once and in order and resumes exactly; rotation drains the old file; workers cannot disturb the order; crashes and retries
    neither lose nor repeat a line, and once the loop waits every line is persisted.
  \<^item> Parsing (C20 to C22, C36, C37): inferred years are right; printed Postfix and Nginx lines are read back; the two
    formats of the access log agree; no line has a message id.
  \<^item> Networks and firewall (C13 to C16, C23, C28, C29): allowlists are exact; the agent never blocks a protected address;
    a block succeeds for the client exactly when the command did; rules are installed once; the protocol is read back; what a block request records.
  \<^item> Detection (C17 to C19, C34, C35): the offenders are those of the specification, and a dismissal holds until the
    next verdict; each request is attributed to the right address.
  \<^item> Access (C24 to C27, C30 to C33): authentication only after a login and only until it expires; only administrators change the tables;
    tables stay well formed; CORS, paging and queries are as configured; the first administrator is safe in production.
  \<^item> Configuration (C39, C40): the limits are those the operator set; nothing runs on a half-prepared database.
  \<^item> Defects: C7, C19, C21, C29 and the theorem \<open>default_email_accepted_in_upper_case\<close> state behaviour the code cannot mean.

  \<^bold>\<open>Bounds and fuel.\<close> The JSON parser counts down from twice the length of the text, which \<open>parse_fuel\<close> shows to be
  enough; the IPv6 parser from the eight groups an address has; the star of the matcher from the length of the rest of the text, as
  each iteration must consume. All other recursions are structural or have a measure. Endless loops of the program (follower,
  ingestors, agent, server, retries) are folds over the events they meet; that an event list ends means the
  loop waits for the next one.

  \<^bold>\<open>Not modelled.\<close> The TypeScript frontend, the containers and units of the deployment, and the tests. Of the Go code: the
  encoding of API responses (bodies are values), \<^verbatim>\<open>net/http\<close> and \<^verbatim>\<open>database/sql\<close> themselves, their time-outs and connection limits, the
  fallback of the request multiplexer for unknown paths (an argument), the parsing of the command line, log output other than
  that of \<^verbatim>\<open>withLogging\<close>, the warning for root, and the set-up of the agent's socket with its permissions and deadlines.
  Instants outside the range of a \<^verbatim>\<open>TIMESTAMPTZ\<close> are not rejected by the model of the database. Channels are unbounded: back pressure delays events and changes no
  result.
\<close>

section \<open>Detection and dashboard\<close>

lemma dismiss_effect:
  assumes "handleSecurityDismiss cx r d = (rsp, d')" and "hp_Status rsp = 200"
    and "decode_dismiss (hr_Body r) = Some s" and "ParseIP (TrimSpace s) = Some a"
  shows "\<exists>row. offender (IP_String a) d = Some row \<and> offender (IP_String a) d' = Some (dismiss_row cx row)"
    and "nginx_ip_detection_state d' = nginx_ip_detection_state d" and "nginx_security_events d' = nginx_security_events d"
    and "\<exists>user. hr_user r = Some user \<and> au_Role user = ''admin''"
proof -
  have key: "or_remote_ip (dismiss_row cx row) = or_remote_ip row" for row by (simp add: dismiss_row_def)
  have w: "hp_Status rsp = 200 \<Longrightarrow> rsp \<noteq> writeError st e" if "st \<noteq> 200" for st e using that by auto
  obtain user where user: "requireAdmin r = Inr user" and d': "d' = (let
      d1 = d\<lparr>security_offenders := update_where (\<lambda>o'. or_remote_ip o' = IP_String a) (dismiss_row cx) (security_offenders d)\<rparr>
    in case insert_audit cx (au_ID user) ''dismiss'' (IP_String a) [] True d1 of Inl x \<Rightarrow> d1 | Inr d2 \<Rightarrow> d2)"
    and row: "select_by or_remote_ip (IP_String a) (security_offenders d) \<noteq> None"
    using assms by (auto simp: handleSecurityDismiss_def requireAdmin_def currentUser_def Let_def split: sum.splits option.splits if_splits)
  show "\<exists>row. offender (IP_String a) d = Some row \<and> offender (IP_String a) d' = Some (dismiss_row cx row)"
    using row by (auto simp: d' Let_def offender_def insert_audit_def select_by_update_key key split: option.splits sum.splits if_splits)
  show "nginx_ip_detection_state d' = nginx_ip_detection_state d" "nginx_security_events d' = nginx_security_events d"
    by (auto simp: d' Let_def insert_audit_def split: option.splits sum.splits)
  show "\<exists>user. hr_user r = Some user \<and> au_Role user = ''admin''"
    using user by (auto simp: requireAdmin_def currentUser_def split: option.splits if_splits)
qed

text \<open>
  C34. A dismissal holds until the next verdict, and no longer. After any lines of the access log, let an
  administrator dismiss an address, and let the log go on. The row of the address is not flagged and
  bears the time of the dismissal as long as no further request of that address leads to a verdict; at the first one
  that does it is flagged again. The verdict still counts the requests from before the dismissal: it ends neither a
  streak of 404 responses nor a window of authentication failures.
\<close>

theorem dismissed_until_next_verdict:
  assumes "streak_row ip d0 = None" and "nginx_security_events d0 = []"
    and "fold_result (persist_item L key cfg) xs d0 = Inr d1"
    and "handleSecurityDismiss cx r d1 = (rsp, d2)" and "hp_Status rsp = 200"
    and "decode_dismiss (hr_Body r) = Some s" and "ParseIP (TrimSpace s) = Some a" and "ip = IP_String a"
    and "fold_result (persist_item L key cfg) ys d2 = Inr d3"
  shows "case last_verdict L cfg (events_of cfg ip xs) (events_of cfg ip ys) of
      None \<Rightarrow> (\<exists>row. offender ip d3 = Some row \<and> \<not> or_flagged row \<and> or_dismissed_at row = Some (cx_dbnow cx))
    | Some (ev, reason, n) \<Rightarrow> (\<exists>row. offender ip d3 = Some row \<and> flagged_row L ev reason n row)"
proof -
  note dis = dismiss_effect[OF assms(4-7)]
  have "det_state L cfg ip (events_of cfg ip xs) d1"
    using offender_from[OF assms(3) det_state_start[OF assms(1,2)]] by simp
  then have "det_state L cfg ip (events_of cfg ip xs) d2" using dis(2,3) by (rule det_state_cong)
  from offender_from[OF assms(9) this] dis(1) show ?thesis
    unfolding assms(8)[symmetric] by (auto simp: dismiss_row_def split: option.splits)
qed

definition example_dismiss_text :: string where
  "example_dismiss_text = encode (JObj [(''ip'', JStr ''203.0.113.9'')])"

lemma example_dismiss_body: "decode_dismiss example_dismiss_text = Some ''203.0.113.9''"
proof -
  have "decode_limited (2 ^ 16) example_dismiss_text = Some (JObj [(''ip'', JStr ''203.0.113.9'')])"
    unfolding example_dismiss_text_def by (subst decode_limited_encode) (simp_all add: max_depth_def encode_eval valid_utf8_ascii)
  then show ?thesis by (simp add: decode_dismiss_def set_ip_field_def field_eval)
qed

definition example_dismissal :: http_request where
  "example_dismissal = (example_request ''POST'' ''/api/security/dismiss''
     example_dismiss_text None)\<lparr>hr_user := Some example_admin\<rparr>"

definition example_more :: "nginx_item list" where
  "example_more = [(no_faults, 5, \<lparr>lr_Sequence = 0, lr_Text = ''l'', lr_Inode = 7, lr_Offset = 4\<rparr>, Some (example_event 4000 ''/c'' 404))]"

lemma example_address: "IP_String (v4InV6Prefix @ [203, 0, 113, 9]) = ''203.0.113.9''"
  by (simp add: To4_def v4InV6Prefix_def IP_String_def string4_def nat_digits.simps char_of_def bit_simps)

lemma example_dismissed_run:
  "\<exists>d1 rsp d2 d3. fold_result (persist_item example_lib ''k'' example_nginx) example_items empty_db = Inr d1
    \<and> handleSecurityDismiss (example_cx 10) example_dismissal d1 = (rsp, d2) \<and> hp_Status rsp = 200
    \<and> fold_result (persist_item example_lib ''k'' example_nginx) example_more d2 = Inr d3"
  by (simp add: persist_item_def example_items_def example_more_def example_event_def example_nginx_def nginx_eval example_lib_def empty_db_def
      duration_defs upsert_def update_where_def handleSecurityDismiss_def example_dismissal_def example_request_def requireAdmin_def
      currentUser_def example_admin_def example_dismiss_body plain_eval example_ip example_address example_cx_def insert_audit_def
      select_by_def dismiss_row_def)

theorem dismissed_until_next_verdict_witness:
  "\<exists>d3 row. offender ''203.0.113.9'' d3 = Some row \<and> or_flagged row \<and> or_reason row = ''consecutive_404'' \<and> or_attempt_count row = 3"
proof -
  obtain d1 rsp d2 d3 where run: "fold_result (persist_item example_lib ''k'' example_nginx) example_items empty_db = Inr d1"
    "handleSecurityDismiss (example_cx 10) example_dismissal d1 = (rsp, d2)" "hp_Status rsp = 200"
    "fold_result (persist_item example_lib ''k'' example_nginx) example_more d2 = Inr d3"
    using example_dismissed_run by blast
  have start: "streak_row ''203.0.113.9'' empty_db = None" "nginx_security_events empty_db = []"
    by (simp_all add: streak_row_def select_by_def empty_db_def)
  have b: "decode_dismiss (hr_Body example_dismissal) = Some ''203.0.113.9''"
    by (simp add: example_dismissal_def example_request_def example_dismiss_body)
  have p: "ParseIP (TrimSpace ''203.0.113.9'') = Some (v4InV6Prefix @ [203, 0, 113, 9])" by (simp add: plain_eval example_ip)
  have more: "events_of example_nginx ''203.0.113.9'' example_more = [example_event 4000 ''/c'' 404]"
    by (simp add: events_of_def map_filter_def example_more_def item_event_def example_event_def relevant_def example_nginx_def)
  have "last_verdict example_lib example_nginx (events_of example_nginx ''203.0.113.9'' example_items)
      (events_of example_nginx ''203.0.113.9'' example_more) = Some (example_event 4000 ''/c'' 404, ''consecutive_404'', 3)"
    unfolding example_items_events more
    by (simp add: spec_verdict_def streak_def streak_step_def example_event_def example_nginx_def
        ev_ts_def example_lib_def duration_defs)
  with dismissed_until_next_verdict[OF start run(1-3) b p example_address[symmetric] run(4)]
  show ?thesis by (auto simp: flagged_row_def)
qed

end
